(* ===== verification/Prelude.thy ===== *)
theory Prelude
  imports Main "HOL-Library.Word"
begin

text \<open>
  Shared vocabulary of the development: Go errors and results as values, outcomes of
  functions that may panic, the machine integers the code uses, the collections of
  rewrite rules the component theories add to, and generic list and map lemmas.
\<close>

section \<open>Collections of rewrite rules\<close>

text \<open>
  \<open>go_simps\<close> unfolds the model's small helper operations, \<open>run_simps\<close> executes
  interaction programs against a server, \<open>sql_simps\<close> unfolds statements on tables.
\<close>

named_theorems go_simps
named_theorems run_simps
named_theorems sql_simps

section \<open>Errors, results, outcomes\<close>

text \<open>
  A Go \<open>error\<close> is modelled by its message. A call that returns \<open>(value, error)\<close>
  returns a sum: \<open>Inl\<close> the error, \<open>Inr\<close> the value.
\<close>

datatype go_error = Err (message: string)

type_synonym 'a res = "go_error + 'a"

text \<open>Functions that may panic return an outcome instead.\<close>

datatype 'a outcome = Done 'a | Fails go_error | Panics string

primrec bind_outcome :: "'a outcome \<Rightarrow> ('a \<Rightarrow> 'b outcome) \<Rightarrow> 'b outcome" where
  "bind_outcome (Done x) f = f x"
| "bind_outcome (Fails e) f = Fails e"
| "bind_outcome (Panics s) f = Panics s"

primrec panics :: "'a outcome \<Rightarrow> bool" where
  "panics (Done x) = False"
| "panics (Fails e) = False"
| "panics (Panics s) = True"

primrec outcome_of_res :: "'a res \<Rightarrow> 'a outcome" where
  "outcome_of_res (Inl e) = Fails e"
| "outcome_of_res (Inr x) = Done x"

lemma panics_bind_iff:
  "panics (bind_outcome m f) \<longleftrightarrow> panics m \<or> (\<exists>x. m = Done x \<and> panics (f x))"
  by (cases m) auto

lemma not_panics_outcome_of_res [simp]: "\<not> panics (outcome_of_res r)"
  by (cases r) auto

lemma outcome_of_res_Done [simp]: "outcome_of_res r = Done x \<longleftrightarrow> r = Inr x"
  by (cases r) auto

lemma bind_outcome_Done: "bind_outcome m f = Done y \<longleftrightarrow> (\<exists>x. m = Done x \<and> f x = Done y)"
  by (cases m) auto

lemma bind_outcome_DoneE:
  assumes "bind_outcome m f = Done y"
  obtains x where "m = Done x" and "f x = Done y"
  using assms by (cases m) auto

section \<open>Machine integers\<close>

text \<open>Go's \<open>uint64\<close> (block numbers), with wrap-around, and bytes.\<close>

type_synonym u64 = "64 word"
type_synonym u8 = "8 word"

section \<open>Lists\<close>

lemma list_all2_refl_on: "(\<And>x. P x x) \<Longrightarrow> list_all2 P xs xs"
  by (induction xs) auto

lemma find_Some_set: "find P xs = Some x \<Longrightarrow> x \<in> set xs \<and> P x"
  by (auto simp: find_Some_iff)

lemma find_None_iff_all: "find P xs = None \<longleftrightarrow> (\<forall>x \<in> set xs. \<not> P x)"
  by (auto simp: find_None_iff)

end
