(* ===== verification/Go_Strings.thy ===== *)
theory Go_Strings
  imports Prelude
begin

text \<open>
  Go strings and the functions of the packages \<open>strings\<close>, \<open>unicode/utf8\<close> and
  \<open>encoding/hex\<close> the program calls. A Go string is a sequence of bytes, here a
  \<open>string\<close> (a list of 8-bit characters). Ranging over a string decodes UTF-8; a byte that
  starts no valid encoding is the replacement rune of width one. The case tables of Unicode
  above ASCII are data of the Go distribution, not of the program: they are the argument
  \<open>uc\<close> of the functions that consult them, and no theorem depends on what they hold.
\<close>

section \<open>Bytes and UTF-8\<close>

abbreviation ord :: "char \<Rightarrow> nat" where
  "ord c \<equiv> (of_char c :: nat)"

abbreviation chr :: "nat \<Rightarrow> char" where
  "chr n \<equiv> char_of n"

definition rune_error :: nat where
  "rune_error = 65533"

definition cont_byte :: "nat \<Rightarrow> bool" where
  "cont_byte b \<longleftrightarrow> 128 \<le> b \<and> b < 192"

text \<open>\<open>utf8.DecodeRuneInString\<close>: the first rune of a non-empty string and its width.\<close>

fun decode_rune :: "string \<Rightarrow> nat \<times> nat" where
  "decode_rune [] = (rune_error, 0)"
| "decode_rune (c # cs) =
    (let b = ord c in
     if b < 128 then (b, 1)
     else (case cs of
        [] \<Rightarrow> (rune_error, 1)
      | c1 # cs1 \<Rightarrow>
        (let b1 = ord c1 in
         if 194 \<le> b \<and> b < 224 then
           (if cont_byte b1 then ((b - 192) * 64 + (b1 - 128), 2) else (rune_error, 1))
         else (case cs1 of
            [] \<Rightarrow> (rune_error, 1)
          | c2 # cs2 \<Rightarrow>
            (let b2 = ord c2 in
             if 224 \<le> b \<and> b < 240 then
               (if cont_byte b1 \<and> cont_byte b2 \<and> (b = 224 \<longrightarrow> 160 \<le> b1) \<and> (b = 237 \<longrightarrow> b1 < 160)
                then ((b - 224) * 4096 + (b1 - 128) * 64 + (b2 - 128), 3)
                else (rune_error, 1))
             else (case cs2 of
                [] \<Rightarrow> (rune_error, 1)
              | c3 # _ \<Rightarrow>
                (let b3 = ord c3 in
                 if 240 \<le> b \<and> b < 245 \<and> cont_byte b1 \<and> cont_byte b2 \<and> cont_byte b3
                    \<and> (b = 240 \<longrightarrow> 144 \<le> b1) \<and> (b = 244 \<longrightarrow> b1 < 144)
                 then ((b - 240) * 262144 + (b1 - 128) * 4096 + (b2 - 128) * 64 + (b3 - 128), 4)
                 else (rune_error, 1))))))))"

lemma decode_rune_width_pos: "s \<noteq> [] \<Longrightarrow> 0 < snd (decode_rune s)"
  by (cases s) (auto simp: Let_def split: list.splits)

text \<open>A string as its runes, each with the bytes it was decoded from.\<close>

function decode :: "string \<Rightarrow> (nat \<times> string) list" where
  "decode [] = []"
| "decode (c # cs) =
     (let s = c # cs; w = snd (decode_rune s)
      in (fst (decode_rune s), take w s) # decode (drop w s))"
  by pat_completeness auto
termination
proof (relation "measure length", goal_cases)
  case (2 c cs s w)
  then have "0 < w" using decode_rune_width_pos [of s] by auto
  with 2 show ?case by simp
qed simp

definition runes :: "string \<Rightarrow> nat list" where
  "runes s = map fst (decode s)"

text \<open>\<open>utf8.AppendRune\<close>: the encoding of a rune; what is no rune is encoded as U+FFFD.\<close>

definition encode_rune :: "nat \<Rightarrow> string" where
  "encode_rune r =
    (if r < 128 then [chr r]
     else if r < 2048 then [chr (192 + r div 64), chr (128 + r mod 64)]
     else if (55296 \<le> r \<and> r < 57344) \<or> 1114112 \<le> r
       then [chr 239, chr 191, chr 189]
     else if r < 65536 then
       [chr (224 + r div 4096), chr (128 + r div 64 mod 64), chr (128 + r mod 64)]
     else
       [chr (240 + r div 262144), chr (128 + r div 4096 mod 64),
        chr (128 + r div 64 mod 64), chr (128 + r mod 64)])"

definition ascii :: "string \<Rightarrow> bool" where
  "ascii s \<longleftrightarrow> list_all (\<lambda>c. ord c < 128) s"

lemma ascii_simps [simp]:
  "ascii []" "ascii (c # s) \<longleftrightarrow> ord c < 128 \<and> ascii s" "ascii (s @ t) \<longleftrightarrow> ascii s \<and> ascii t"
  by (auto simp: ascii_def)

lemma decode_ascii: "ascii s \<Longrightarrow> decode s = map (\<lambda>c. (ord c, [c])) s"
  by (induction s) (auto simp: Let_def)

lemma runes_ascii: "ascii s \<Longrightarrow> runes s = map ord s"
  by (simp add: runes_def decode_ascii)

lemma concat_decode: "concat (map snd (decode s)) = s"
  by (induction s rule: decode.induct) (auto simp: Let_def)

section \<open>Case mapping\<close>

text \<open>
  The Unicode tables above ASCII: \<open>unicode.ToLower\<close>, \<open>unicode.ToUpper\<close> on a rune, and
  whether two runes lie on one \<open>unicode.SimpleFold\<close> orbit.
\<close>

record ucase =
  uc_lower :: "nat \<Rightarrow> nat"
  uc_upper :: "nat \<Rightarrow> nat"
  uc_orbit :: "nat \<Rightarrow> nat \<Rightarrow> bool"

text \<open>Tables that know no letters above ASCII.\<close>

definition plain_case :: ucase where
  "plain_case = \<lparr>uc_lower = (\<lambda>r. r), uc_upper = (\<lambda>r. r), uc_orbit = (=)\<rparr>"

definition lower_byte :: "nat \<Rightarrow> nat" where
  "lower_byte b = (if 65 \<le> b \<and> b \<le> 90 then b + 32 else b)"

definition upper_byte :: "nat \<Rightarrow> nat" where
  "upper_byte b = (if 97 \<le> b \<and> b \<le> 122 then b - 32 else b)"

definition lower_rune :: "ucase \<Rightarrow> nat \<Rightarrow> nat" where
  "lower_rune uc r = (if r < 128 then lower_byte r else uc_lower uc r)"

definition upper_rune :: "ucase \<Rightarrow> nat \<Rightarrow> nat" where
  "upper_rune uc r = (if r < 128 then upper_byte r else uc_upper uc r)"

text \<open>
  \<open>strings.ToLower\<close> and \<open>strings.ToUpper\<close>: byte by byte on an ASCII string, otherwise
  \<open>strings.Map\<close> over the runes (an invalid byte becomes U+FFFD).
\<close>

definition to_lower :: "ucase \<Rightarrow> string \<Rightarrow> string" where
  "to_lower uc s =
    (if ascii s then map (\<lambda>c. chr (lower_byte (ord c))) s
     else concat (map (\<lambda>r. encode_rune (lower_rune uc r)) (runes s)))"

definition to_upper :: "ucase \<Rightarrow> string \<Rightarrow> string" where
  "to_upper uc s =
    (if ascii s then map (\<lambda>c. chr (upper_byte (ord c))) s
     else concat (map (\<lambda>r. encode_rune (upper_rune uc r)) (runes s)))"

text \<open>\<open>strings.EqualFold\<close>: rune by rune; two ASCII runes only by ASCII case.\<close>

definition fold_rune :: "ucase \<Rightarrow> nat \<Rightarrow> nat \<Rightarrow> bool" where
  "fold_rune uc r r' \<longleftrightarrow>
     r = r' \<or> (if r < 128 \<and> r' < 128 then lower_byte r = lower_byte r' else uc_orbit uc r r')"

definition equal_fold :: "ucase \<Rightarrow> string \<Rightarrow> string \<Rightarrow> bool" where
  "equal_fold uc s t \<longleftrightarrow> list_all2 (fold_rune uc) (runes s) (runes t)"

lemma equal_fold_refl [simp]: "equal_fold uc s s"
  by (simp add: equal_fold_def fold_rune_def list_all2_refl_on)

lemma ascii_to_lower [simp]: "ascii s \<Longrightarrow> ascii (to_lower uc s)"
  by (auto simp: ascii_def to_lower_def list_all_iff lower_byte_def)

lemma ascii_to_upper [simp]: "ascii s \<Longrightarrow> ascii (to_upper uc s)"
  by (auto simp: ascii_def to_upper_def list_all_iff upper_byte_def)

lemma length_to_lower_ascii: "ascii s \<Longrightarrow> length (to_lower uc s) = length s"
  by (simp add: to_lower_def)

lemma to_lower_idem_ascii: "ascii s \<Longrightarrow> to_lower uc (to_lower uc s) = to_lower uc s"
proof -
  assume s: "ascii s"
  have "ord c < 128 \<Longrightarrow> chr (lower_byte (ord (chr (lower_byte (ord c))))) = chr (lower_byte (ord c))" for c
    by (auto simp: lower_byte_def)
  with s ascii_to_lower [OF s, of uc] show ?thesis
    by (auto simp: to_lower_def ascii_def list_all_iff)
qed

lemma equal_fold_ascii:
  assumes "ascii s" "ascii t"
  shows "equal_fold uc s t \<longleftrightarrow> to_lower uc s = to_lower uc t"
proof -
  have lb: "lower_byte (ord c) mod 256 = lower_byte (ord c)" for c :: char
    using nat_of_char_less_256 [of c] by (auto simp: lower_byte_def)
  have "chr (lower_byte (ord c)) = chr (lower_byte (ord d)) \<longleftrightarrow>
      lower_byte (ord c) = lower_byte (ord d)" for c d
    by (metis lb of_char_of)
  with assms show ?thesis
    by (auto simp: equal_fold_def runes_ascii to_lower_def list_all2_conv_all_nth
        list_eq_iff_nth_eq ascii_def list_all_length fold_rune_def)
qed

section \<open>Trimming, prefixes, splitting\<close>

text \<open>\<open>unicode.IsSpace\<close>.\<close>

definition is_space :: "nat \<Rightarrow> bool" where
  "is_space r \<longleftrightarrow> r \<in> {9, 10, 11, 12, 13, 32, 133, 160, 5760, 8232, 8233, 8239, 8287, 12288}
     \<or> (8192 \<le> r \<and> r \<le> 8202)"

text \<open>
  \<open>strings.TrimSpace\<close>. Trimming from the right decodes backwards in Go; a valid encoding is
  found from either end, so the runes are those of \<^const>\<open>decode\<close>.
\<close>

definition trim_space :: "string \<Rightarrow> string" where
  "trim_space s =
    (let sp = (\<lambda>p. is_space (fst p))
     in concat (map snd (rev (dropWhile sp (rev (dropWhile sp (decode s)))))))"

definition has_prefix :: "string \<Rightarrow> string \<Rightarrow> bool" where
  "has_prefix s p \<longleftrightarrow> take (length p) s = p"

definition trim_prefix :: "string \<Rightarrow> string \<Rightarrow> string" where
  "trim_prefix s p = (if has_prefix s p then drop (length p) s else s)"

text \<open>\<open>strings.SplitN\<close> for a one-byte separator and \<open>n > 0\<close>: at most \<open>n\<close> parts.\<close>

fun split_n :: "string \<Rightarrow> char \<Rightarrow> nat \<Rightarrow> string list" where
  "split_n s c 0 = []"
| "split_n s c (Suc 0) = [s]"
| "split_n s c (Suc (Suc n)) =
    (if c \<in> set s
     then takeWhile (\<lambda>x. x \<noteq> c) s # split_n (tl (dropWhile (\<lambda>x. x \<noteq> c) s)) c (Suc n)
     else [s])"

lemma trim_space_Nil [simp]: "trim_space [] = []"
  by (simp add: trim_space_def)

lemma trim_prefix_append [simp]: "trim_prefix (p @ s) p = s"
  by (simp add: trim_prefix_def has_prefix_def)

lemma takeWhile_sep: "c \<notin> set s \<Longrightarrow> takeWhile (\<lambda>x. x \<noteq> c) (s @ c # t) = s"
  by (induction s) auto

lemma dropWhile_sep: "c \<notin> set s \<Longrightarrow> dropWhile (\<lambda>x. x \<noteq> c) (s @ c # t) = c # t"
  by (induction s) auto

lemma split_n_sep:
  "c \<notin> set s \<Longrightarrow> split_n (s @ c # t) c (Suc (Suc n)) = s # split_n t c (Suc n)"
  by (simp add: takeWhile_sep dropWhile_sep)

lemma length_split_n: "length (split_n s c n) \<le> n"
  by (induction s c n rule: split_n.induct) auto

lemma dropWhile_id: "xs = [] \<or> \<not> P (hd xs) \<Longrightarrow> dropWhile P xs = xs"
  by (cases xs) auto

text \<open>An ASCII string without a space at either end is left alone.\<close>

lemma trim_space_ascii_id:
  assumes "ascii s" and "s = [] \<or> (\<not> is_space (ord (hd s)) \<and> \<not> is_space (ord (last s)))"
  shows "trim_space s = s"
proof -
  have "concat (map (snd \<circ> (\<lambda>c. (ord c, [c]))) s) = s"
    by (induction s) auto
  with assms show ?thesis
    by (cases "s = []")
       (simp_all add: trim_space_def decode_ascii dropWhile_id hd_map hd_rev last_map)
qed

text \<open>
  Trimming is idempotent: a chunk of the decoded string decodes to itself, at either end.
\<close>

lemma decode_rune_take:
  assumes "snd (decode_rune s) \<le> n" "s \<noteq> []"
  shows "decode_rune (take n s) = decode_rune s"
proof -
  obtain c cs where s: "s = c # cs" using assms(2) by (cases s) auto
  obtain m where n: "n = Suc m" using assms decode_rune_width_pos [of s] by (cases n) auto
  note sizes = assms(1) s n
  show ?thesis
  proof (cases cs)
    case Nil
    then show ?thesis by (simp add: s n)
  next
    case (Cons c1 cs1)
    note cs = this
    show ?thesis
    proof (cases m)
      case 0
      then show ?thesis using sizes cs by (auto simp: Let_def split: list.splits if_splits)
    next
      case (Suc m1)
      note m = this
      show ?thesis
      proof (cases cs1)
        case Nil
        then show ?thesis by (simp add: s n cs m)
      next
        case (Cons c2 cs2)
        then show ?thesis using sizes cs m
          by (cases m1; cases "m1 - 1"; cases cs2)
             (auto simp: Let_def split: list.splits if_splits)
      qed
    qed
  qed
qed

lemma decode_rune_width_le: "snd (decode_rune s) \<le> length s"
  by (cases s) (auto simp: Let_def split: list.splits)

lemma decode_prefix:
  "decode s = ds @ es \<Longrightarrow> decode (concat (map snd ds)) = ds"
proof (induction ds arbitrary: s)
  case Nil
  then show ?case by simp
next
  case (Cons d ds)
  let ?w = "snd (decode_rune s)"
  from Cons.prems have ne: "s \<noteq> []" by auto
  then have ds: "decode s = (fst (decode_rune s), take ?w s) # decode (drop ?w s)"
    by (cases s) (simp_all add: Let_def)
  with Cons.prems have d: "d = (fst (decode_rune s), take ?w s)"
    and r: "decode (drop ?w s) = ds @ es" by auto
  let ?p = "concat (map snd (d # ds))"
  have "concat (map snd (decode (drop ?w s))) = drop ?w s" by (rule concat_decode)
  with r have "drop ?w s = concat (map snd ds) @ concat (map snd es)" by simp
  then have s: "s = ?p @ concat (map snd es)"
    using d append_take_drop_id [of ?w s] by simp
  have w: "?w \<le> length ?p" "0 < ?w"
    using d decode_rune_width_le [of s] ne by (auto simp: decode_rune_width_pos)
  have pt: "take (length ?p) s = ?p" by (subst s) simp
  have dr: "decode_rune ?p = decode_rune s"
    using decode_rune_take [OF w(1) ne] by (simp only: pt)
  from w have "0 < length ?p" by linarith
  then have "?p \<noteq> []" by (rule length_greater_0_conv [THEN iffD1])
  then have "decode ?p = (fst (decode_rune ?p), take (snd (decode_rune ?p)) ?p) # decode (drop (snd (decode_rune ?p)) ?p)"
    by (cases ?p) (simp_all add: Let_def)
  also have "\<dots> = d # decode (concat (map snd ds))"
    unfolding dr using d decode_rune_width_le [of s] by simp
  finally show ?case using Cons.IH [OF r] by simp
qed

lemma decode_suffix:
  "decode s = ds @ es \<Longrightarrow> decode (concat (map snd es)) = es"
proof (induction ds arbitrary: s)
  case Nil
  then show ?case by (metis append_Nil concat_decode)
next
  case (Cons d ds)
  then obtain t where "decode t = ds @ es"
    by (cases s) (auto simp: Let_def)
  then show ?case by (rule Cons.IH)
qed

lemma dropWhile_suffix: "\<exists>ys. xs = ys @ dropWhile P xs"
  by (metis takeWhile_dropWhile_id)

lemma rev_dropWhile_rev_prefix: "\<exists>ys. xs = rev (dropWhile P (rev xs)) @ ys"
  by (metis rev_append rev_rev_ident takeWhile_dropWhile_id)

lemma decode_trim_space:
  "decode (trim_space s) =
     rev (dropWhile (\<lambda>p. is_space (fst p)) (rev (dropWhile (\<lambda>p. is_space (fst p)) (decode s))))"
proof -
  let ?sp = "\<lambda>p :: nat \<times> string. is_space (fst p)"
  let ?m = "dropWhile ?sp (decode s)"
  obtain ys where "decode s = ys @ ?m" using dropWhile_suffix by blast
  then have m: "decode (concat (map snd ?m)) = ?m" by (rule decode_suffix)
  obtain zs where "?m = rev (dropWhile ?sp (rev ?m)) @ zs" using rev_dropWhile_rev_prefix by blast
  with m have "decode (concat (map snd ?m)) = rev (dropWhile ?sp (rev ?m)) @ zs" by simp
  then show ?thesis by (simp add: trim_space_def Let_def decode_prefix)
qed

lemma dropWhile_rev_dropWhile:
  "dropWhile P (rev (dropWhile P (rev (dropWhile P xs)))) = rev (dropWhile P (rev (dropWhile P xs)))"
proof -
  define m where "m = dropWhile P xs"
  define r where "r = rev (dropWhile P (rev m))"
  obtain zs where z: "m = r @ zs" unfolding r_def using rev_dropWhile_rev_prefix by blast
  have "m = [] \<or> \<not> P (hd m)" unfolding m_def using hd_dropWhile by blast
  with z have "r = [] \<or> \<not> P (hd r)" by (cases r) auto
  then have "dropWhile P r = r" by (rule dropWhile_id)
  then show ?thesis by (simp add: r_def m_def)
qed

lemma trim_space_idem [simp]: "trim_space (trim_space s) = trim_space s"
proof -
  have "trim_space (trim_space s) = concat (map snd (decode (trim_space s)))"
    unfolding trim_space_def [of "trim_space s"] decode_trim_space
    by (simp add: Let_def dropWhile_rev_dropWhile)
  then show ?thesis by (simp only: concat_decode)
qed

text \<open>A string that trims to nothing holds only white space.\<close>

lemma trim_space_NilD:
  assumes "trim_space s = []"
  shows "\<forall>p \<in> set (decode s). is_space (fst p)"
proof -
  define sp where "sp = (\<lambda>p :: nat \<times> string. is_space (fst p))"
  define m where "m = dropWhile sp (decode s)"
  have "decode (trim_space s) = rev (dropWhile sp (rev m))"
    unfolding m_def sp_def by (rule decode_trim_space)
  with assms have "dropWhile sp (rev m) = []" by simp
  then have all: "\<forall>p \<in> set m. sp p" by (simp add: dropWhile_eq_Nil_conv)
  have "m = []"
  proof (rule ccontr)
    assume ne: "m \<noteq> []"
    then have "sp (hd m)" using all hd_in_set by blast
    with ne show False using hd_dropWhile [of sp "decode s"] by (simp add: m_def)
  qed
  then show ?thesis by (simp add: m_def sp_def dropWhile_eq_Nil_conv)
qed

lemma trim_space_ascii_Cons:
  "ord c < 128 \<Longrightarrow> \<not> is_space (ord c) \<Longrightarrow> trim_space (c # s) \<noteq> []"
  using trim_space_NilD [of "c # s"] by (auto simp: Let_def)

section \<open>Hexadecimal\<close>

text \<open>\<open>encoding/hex\<close>: lower-case encoding, decoding of either case.\<close>

definition hexdigits :: string where
  "hexdigits = ''0123456789abcdef''"

definition hex_byte :: "nat \<Rightarrow> string" where
  "hex_byte b = [hexdigits ! (b div 16), hexdigits ! (b mod 16)]"

definition hex_encode :: "string \<Rightarrow> string" where
  "hex_encode bs = concat (map (\<lambda>c. hex_byte (ord c)) bs)"

definition from_hex_char :: "char \<Rightarrow> nat option" where
  "from_hex_char c =
    (let b = ord c in
     if 48 \<le> b \<and> b \<le> 57 then Some (b - 48)
     else if 97 \<le> b \<and> b \<le> 102 then Some (b - 87)
     else if 65 \<le> b \<and> b \<le> 70 then Some (b - 55)
     else None)"

fun hex_decode :: "string \<Rightarrow> string res" where
  "hex_decode [] = Inr []"
| "hex_decode [c] =
    (case from_hex_char c of
       None \<Rightarrow> Inl (Err ''encoding/hex: invalid byte'')
     | Some _ \<Rightarrow> Inl (Err ''encoding/hex: odd length hex string''))"
| "hex_decode (c # d # s) =
    (case (from_hex_char c, from_hex_char d) of
       (Some h, Some l) \<Rightarrow>
         (case hex_decode s of Inl e \<Rightarrow> Inl e | Inr bs \<Rightarrow> Inr (chr (16 * h + l) # bs))
     | _ \<Rightarrow> Inl (Err ''encoding/hex: invalid byte''))"

lemma hex_digit_roundtrip: "n < 16 \<Longrightarrow> from_hex_char (hexdigits ! n) = Some n"
proof -
  have "\<forall>n \<in> set [0..<16]. from_hex_char (hexdigits ! n) = Some n"
    by code_simp
  then show "n < 16 \<Longrightarrow> ?thesis" by simp
qed

lemma hex_decode_encode [simp]: "hex_decode (hex_encode bs) = Inr bs"
proof (induction bs)
  case Nil
  then show ?case by (simp add: hex_encode_def)
next
  case (Cons c bs)
  have "ord c div 16 < 16"
    by (rule less_mult_imp_div_less) simp
  moreover have "chr (16 * (ord c div 16) + ord c mod 16) = c"
    by (simp add: mult.commute [of 16])
  ultimately show ?case
    using Cons by (simp add: hex_encode_def hex_byte_def hex_digit_roundtrip)
qed

lemma length_hex_encode [simp]: "length (hex_encode bs) = 2 * length bs"
  by (induction bs) (auto simp: hex_encode_def hex_byte_def)

lemma hex_decode_length: "hex_decode s = Inr bs \<Longrightarrow> length s = 2 * length bs"
  by (induction s arbitrary: bs rule: hex_decode.induct)
     (auto split: option.splits sum.splits)

lemma from_hex_char_graph:
  assumes "from_hex_char c = Some n"
  shows "48 \<le> ord c \<and> ord c \<le> 102"
  using assms by (simp add: from_hex_char_def Let_def split: if_splits)

lemma not_space_printable: "33 \<le> r \<Longrightarrow> r < 128 \<Longrightarrow> \<not> is_space r"
  by (simp add: is_space_def)

lemma hex_decode_hd:
  assumes "hex_decode (c # s) = Inr b"
  shows "48 \<le> ord c \<and> ord c \<le> 102"
proof -
  from assms obtain n where "from_hex_char c = Some n"
    by (cases s) (auto split: option.splits)
  then show ?thesis by (rule from_hex_char_graph)
qed

lemma hex_encode_inject: "hex_encode a = hex_encode b \<Longrightarrow> a = b"
  by (metis hex_decode_encode sum.inject(2))

end
