(* ===== verification/Go_BigInt.thy ===== *)
theory Go_BigInt
  imports Go_Strings
begin

text \<open>
  Decimal text of unbounded integers, as \<open>math/big\<close> reads and writes it in base 10:
  \<open>(*big.Int).SetString(s, 10)\<close> and \<open>(*big.Int).String\<close>, and the unsigned decimal text
  of \<open>fmt\<close>. Amounts and budgets travel through the program, Redis and Postgres in this
  form.
\<close>

section \<open>Reading\<close>

definition digit_val :: "char \<Rightarrow> nat option" where
  "digit_val c = (let b = ord c in if 48 \<le> b \<and> b \<le> 57 then Some (b - 48) else None)"

fun digits_val :: "nat \<Rightarrow> string \<Rightarrow> nat option" where
  "digits_val acc [] = Some acc"
| "digits_val acc (c # cs) =
    (case digit_val c of None \<Rightarrow> None | Some d \<Rightarrow> digits_val (10 * acc + d) cs)"

text \<open>At least one digit, and nothing else up to the end of the string.\<close>

definition parse_nat :: "string \<Rightarrow> nat option" where
  "parse_nat s = (if s = [] then None else digits_val 0 s)"

text \<open>\<open>SetString(s, 10)\<close>: an optional sign, then digits; \<open>None\<close> is \<open>ok = false\<close>.\<close>

definition set_string :: "string \<Rightarrow> int option" where
  "set_string s =
    (case s of
       [] \<Rightarrow> None
     | c # cs \<Rightarrow>
         if c = CHR ''-'' then map_option (\<lambda>n. - int n) (parse_nat cs)
         else if c = CHR ''+'' then map_option int (parse_nat cs)
         else map_option int (parse_nat s))"

section \<open>Writing\<close>

fun show_nat :: "nat \<Rightarrow> string" where
  "show_nat n = (if n < 10 then [chr (48 + n)] else show_nat (n div 10) @ [chr (48 + n mod 10)])"

declare show_nat.simps [simp del]

definition show_int :: "int \<Rightarrow> string" where
  "show_int i = (if i < 0 then CHR ''-'' # show_nat (nat (- i)) else show_nat (nat i))"

section \<open>Round trip\<close>

lemma digit_val_chr: "d < 10 \<Longrightarrow> digit_val (chr (48 + d)) = Some d"
  by (simp add: digit_val_def)

lemma digits_val_append:
  "digits_val acc (xs @ ys) = (case digits_val acc xs of None \<Rightarrow> None | Some a \<Rightarrow> digits_val a ys)"
  by (induction acc xs rule: digits_val.induct) (auto split: option.splits)

lemma show_nat_nonempty [simp]: "show_nat n \<noteq> []"
  by (subst show_nat.simps) simp

lemma digits_val_show_nat: "digits_val 0 (show_nat n) = Some n"
proof (induction n rule: show_nat.induct)
  case (1 n)
  show ?case
  proof (cases "n < 10")
    case True
    then show ?thesis by (subst show_nat.simps) (simp add: digit_val_chr)
  next
    case False
    with 1 have IH: "digits_val 0 (show_nat (n div 10)) = Some (n div 10)" by simp
    have "digit_val (chr (48 + n mod 10)) = Some (n mod 10)"
      by (rule digit_val_chr) simp
    with IH False show ?thesis by (subst show_nat.simps) (simp add: digits_val_append)
  qed
qed

lemma parse_show_nat [simp]: "parse_nat (show_nat n) = Some n"
  by (simp add: parse_nat_def digits_val_show_nat)

lemma show_nat_digits: "c \<in> set (show_nat n) \<Longrightarrow> 48 \<le> ord c \<and> ord c \<le> 57"
proof (induction n rule: show_nat.induct)
  case (1 n)
  then show ?case
    by (subst (asm) (2) show_nat.simps) (auto split: if_splits)
qed

lemma show_nat_hd: "\<exists>c cs. show_nat n = c # cs \<and> c \<noteq> CHR ''-'' \<and> c \<noteq> CHR ''+''"
proof -
  obtain c cs where s: "show_nat n = c # cs"
    by (cases "show_nat n") auto
  then have "48 \<le> ord c" using show_nat_digits [of c n] by simp
  then have "c \<noteq> CHR ''-''" "c \<noteq> CHR ''+''" by auto
  with s show ?thesis by blast
qed

lemma set_string_show_int [simp]: "set_string (show_int i) = Some i"
proof (cases "i < 0")
  case True
  then show ?thesis by (simp add: show_int_def set_string_def)
next
  case False
  obtain c cs where s: "show_nat (nat i) = c # cs" and "c \<noteq> CHR ''-''" "c \<noteq> CHR ''+''"
    using show_nat_hd by blast
  moreover from s have "parse_nat (c # cs) = Some (nat i)"
    by (metis parse_show_nat)
  ultimately show ?thesis using False by (simp add: show_int_def set_string_def)
qed

lemma show_int_inject [simp]: "show_int i = show_int j \<longleftrightarrow> i = j"
  by (metis option.inject set_string_show_int)

lemma show_int_nonempty [simp]: "show_int i \<noteq> []"
  by (simp add: show_int_def)

lemma set_string_Nil [simp]: "set_string [] = None"
  by (simp add: set_string_def)

lemma show_int_chars: "c \<in> set (show_int i) \<Longrightarrow> c = CHR ''-'' \<or> (48 \<le> ord c \<and> ord c \<le> 57)"
  using show_nat_digits by (auto simp: show_int_def split: if_splits)

lemma digits_val_digits: "digits_val acc s = Some n \<Longrightarrow> c \<in> set s \<Longrightarrow> 48 \<le> ord c \<and> ord c \<le> 57"
  by (induction acc s rule: digits_val.induct)
     (auto simp: digit_val_def Let_def split: option.splits if_splits)

lemma parse_nat_digits: "parse_nat s = Some n \<Longrightarrow> c \<in> set s \<Longrightarrow> 48 \<le> ord c \<and> ord c \<le> 57"
  by (rule digits_val_digits) (auto simp: parse_nat_def split: if_splits)

lemma set_string_chars:
  "set_string s = Some i \<Longrightarrow> c \<in> set s \<Longrightarrow>
     c = CHR ''-'' \<or> c = CHR ''+'' \<or> (48 \<le> ord c \<and> ord c \<le> 57)"
  by (cases s) (auto simp: set_string_def dest: parse_nat_digits split: if_splits)

lemma set_string_no_bar: "set_string s = Some i \<Longrightarrow> CHR ''|'' \<notin> set s"
  using set_string_chars by fastforce

text \<open>A number's text begins with a sign or a digit, so it is not blank.\<close>

lemma set_string_not_blank: "set_string s = Some i \<Longrightarrow> trim_space s \<noteq> ''''"
proof (cases s)
  case (Cons c cs)
  assume "set_string s = Some i"
  with Cons have "c = CHR ''-'' \<or> c = CHR ''+'' \<or> (48 \<le> ord c \<and> ord c \<le> 57)"
    using set_string_chars [of s i c] by simp
  then have "33 \<le> ord c \<and> ord c < 128" by auto
  then show ?thesis using Cons trim_space_ascii_Cons not_space_printable by simp
qed simp

end
