(* ===== verification/Redis.thy ===== *)
theory Redis
  imports Go_BigInt
begin

text \<open>
  How the code talks to Redis. An operation of the reservation service is an interaction
  program: a tree whose nodes are the commands it sends, in order, and whose branches are the
  replies, errors included. The server behind the commands is not code of this program; it is
  a parameter \<open>R\<close>, a record of one function per command over an abstract world.

  What the code relies on is the locale \<open>redis_server\<close>: the world has a view (live keys with
  their deadlines, sorted sets, the clock, the identifiers the generator will hand out, and
  which of the next commands the network loses) on which every command acts as the Redis
  documentation says. Every program then runs on \<open>R\<close> as it runs on the view
  (\<open>run_view\<close>), so the component proofs compute on the view.
\<close>

section \<open>Commands and programs\<close>

text \<open>A reply is an error, \<open>redis.Nil\<close> for a missing key, or a value.\<close>

datatype redis_fail = Redis_Nil | Redis_Err go_error

datatype pipe_cmd =
    P_Set string string int
  | P_Del string
  | P_ZAdd string int string
  | P_ZRem string string

datatype 'a prog =
    Ret 'a
  | Now "int \<Rightarrow> 'a prog"
  | New_UUID "string \<Rightarrow> 'a prog"
  | Ping "unit res \<Rightarrow> 'a prog"
  | Get string "redis_fail + string \<Rightarrow> 'a prog"
  | Set_NX string string int "bool res \<Rightarrow> 'a prog"
  | Set_Keep_TTL string string "unit res \<Rightarrow> 'a prog"
  | Del string "unit res \<Rightarrow> 'a prog"
  | Z_Range_By_Score string int int "string list res \<Rightarrow> 'a prog"
  | Z_Range string "string list res \<Rightarrow> 'a prog"
  | Z_Rem string string "unit res \<Rightarrow> 'a prog"
  | Tx_Exec "pipe_cmd list" "unit res \<Rightarrow> 'a prog"

primrec bind_prog :: "'a prog \<Rightarrow> ('a \<Rightarrow> 'b prog) \<Rightarrow> 'b prog" where
  "bind_prog (Ret x) f = f x"
| "bind_prog (Now k) f = Now (\<lambda>r. bind_prog (k r) f)"
| "bind_prog (New_UUID k) f = New_UUID (\<lambda>r. bind_prog (k r) f)"
| "bind_prog (Ping k) f = Ping (\<lambda>r. bind_prog (k r) f)"
| "bind_prog (Get key k) f = Get key (\<lambda>r. bind_prog (k r) f)"
| "bind_prog (Set_NX key v ttl k) f = Set_NX key v ttl (\<lambda>r. bind_prog (k r) f)"
| "bind_prog (Set_Keep_TTL key v k) f = Set_Keep_TTL key v (\<lambda>r. bind_prog (k r) f)"
| "bind_prog (Del key k) f = Del key (\<lambda>r. bind_prog (k r) f)"
| "bind_prog (Z_Range_By_Score key lo hi k) f =
     Z_Range_By_Score key lo hi (\<lambda>r. bind_prog (k r) f)"
| "bind_prog (Z_Range key k) f = Z_Range key (\<lambda>r. bind_prog (k r) f)"
| "bind_prog (Z_Rem key m k) f = Z_Rem key m (\<lambda>r. bind_prog (k r) f)"
| "bind_prog (Tx_Exec cs k) f = Tx_Exec cs (\<lambda>r. bind_prog (k r) f)"

text \<open>Go's \<open>if err != nil { return err }\<close> after a call.\<close>

definition try_prog :: "'a res prog \<Rightarrow> ('a \<Rightarrow> 'b res prog) \<Rightarrow> 'b res prog" where
  "try_prog p f = bind_prog p (\<lambda>r. case r of Inl e \<Rightarrow> Ret (Inl e) | Inr x \<Rightarrow> f x)"

section \<open>The server as a parameter\<close>

record 'w redis =
  now_of :: "'w \<Rightarrow> 'w \<times> int"
  uuid_of :: "'w \<Rightarrow> 'w \<times> string"
  ping_of :: "'w \<Rightarrow> 'w \<times> unit res"
  get_of :: "string \<Rightarrow> 'w \<Rightarrow> 'w \<times> (redis_fail + string)"
  set_nx_of :: "string \<Rightarrow> string \<Rightarrow> int \<Rightarrow> 'w \<Rightarrow> 'w \<times> bool res"
  set_keep_ttl_of :: "string \<Rightarrow> string \<Rightarrow> 'w \<Rightarrow> 'w \<times> unit res"
  del_of :: "string \<Rightarrow> 'w \<Rightarrow> 'w \<times> unit res"
  z_range_by_score_of :: "string \<Rightarrow> int \<Rightarrow> int \<Rightarrow> 'w \<Rightarrow> 'w \<times> string list res"
  z_range_of :: "string \<Rightarrow> 'w \<Rightarrow> 'w \<times> string list res"
  z_rem_of :: "string \<Rightarrow> string \<Rightarrow> 'w \<Rightarrow> 'w \<times> unit res"
  tx_exec_of :: "pipe_cmd list \<Rightarrow> 'w \<Rightarrow> 'w \<times> unit res"

text \<open>One command of a program, and a whole program, against a server.\<close>

primrec run1 :: "'w redis \<Rightarrow> 'a prog \<Rightarrow> 'w \<Rightarrow> 'w \<times> 'a prog" where
  "run1 R (Ret x) w = (w, Ret x)"
| "run1 R (Now k) w = apsnd k (now_of R w)"
| "run1 R (New_UUID k) w = apsnd k (uuid_of R w)"
| "run1 R (Ping k) w = apsnd k (ping_of R w)"
| "run1 R (Get key k) w = apsnd k (get_of R key w)"
| "run1 R (Set_NX key v ttl k) w = apsnd k (set_nx_of R key v ttl w)"
| "run1 R (Set_Keep_TTL key v k) w = apsnd k (set_keep_ttl_of R key v w)"
| "run1 R (Del key k) w = apsnd k (del_of R key w)"
| "run1 R (Z_Range_By_Score key lo hi k) w = apsnd k (z_range_by_score_of R key lo hi w)"
| "run1 R (Z_Range key k) w = apsnd k (z_range_of R key w)"
| "run1 R (Z_Rem key m k) w = apsnd k (z_rem_of R key m w)"
| "run1 R (Tx_Exec cs k) w = apsnd k (tx_exec_of R cs w)"

primrec run :: "'w redis \<Rightarrow> 'a prog \<Rightarrow> 'w \<Rightarrow> 'w \<times> 'a" where
  "run R (Ret x) w = (w, x)"
| "run R (Now k) w = (case now_of R w of (w', r) \<Rightarrow> run R (k r) w')"
| "run R (New_UUID k) w = (case uuid_of R w of (w', r) \<Rightarrow> run R (k r) w')"
| "run R (Ping k) w = (case ping_of R w of (w', r) \<Rightarrow> run R (k r) w')"
| "run R (Get key k) w = (case get_of R key w of (w', r) \<Rightarrow> run R (k r) w')"
| "run R (Set_NX key v ttl k) w = (case set_nx_of R key v ttl w of (w', r) \<Rightarrow> run R (k r) w')"
| "run R (Set_Keep_TTL key v k) w = (case set_keep_ttl_of R key v w of (w', r) \<Rightarrow> run R (k r) w')"
| "run R (Del key k) w = (case del_of R key w of (w', r) \<Rightarrow> run R (k r) w')"
| "run R (Z_Range_By_Score key lo hi k) w =
     (case z_range_by_score_of R key lo hi w of (w', r) \<Rightarrow> run R (k r) w')"
| "run R (Z_Range key k) w = (case z_range_of R key w of (w', r) \<Rightarrow> run R (k r) w')"
| "run R (Z_Rem key m k) w = (case z_rem_of R key m w of (w', r) \<Rightarrow> run R (k r) w')"
| "run R (Tx_Exec cs k) w = (case tx_exec_of R cs w of (w', r) \<Rightarrow> run R (k r) w')"

lemma run_bind: "run R (bind_prog p f) w = (case run R p w of (w', x) \<Rightarrow> run R (f x) w')"
  by (induction p arbitrary: w) (auto split: prod.split)

lemma run_try:
  "run R (try_prog p f) w =
     (case run R p w of (w', Inl e) \<Rightarrow> (w', Inl e) | (w', Inr x) \<Rightarrow> run R (f x) w')"
  by (auto simp: try_prog_def run_bind split: prod.split sum.split)

lemma bind_prog_assoc: "bind_prog (bind_prog p f) g = bind_prog p (\<lambda>x. bind_prog (f x) g)"
  by (induction p) auto

section \<open>The documented behaviour, on views\<close>

text \<open>
  What can happen to a command on the network: it is served, its request is lost, or its
  reply is lost after it took effect.
\<close>

datatype fault = Served | Request_Lost | Reply_Lost

record rview =
  kv :: "string \<Rightarrow> (string \<times> int option) option"
  zset :: "string \<Rightarrow> (string \<times> int) list"
  clock :: int
  uuids :: "nat \<Rightarrow> string"
  faults :: "fault list"

definition io_error :: go_error where
  "io_error = Err ''redis: connection error''"

definition next_fault :: "rview \<Rightarrow> fault" where
  "next_fault s = (case faults s of [] \<Rightarrow> Served | f # _ \<Rightarrow> f)"

definition serve :: "(rview \<Rightarrow> rview \<times> 'r) \<Rightarrow> rview \<Rightarrow> rview \<times> 'r res" where
  "serve f s =
    (let s0 = s\<lparr>faults := tl (faults s)\<rparr> in
     case next_fault s of
       Served \<Rightarrow> (case f s0 of (s', r) \<Rightarrow> (s', Inr r))
     | Request_Lost \<Rightarrow> (s0, Inl io_error)
     | Reply_Lost \<Rightarrow> (fst (f s0), Inl io_error))"

text \<open>A time to live of zero or less means no expiry (go-redis sends no \<open>EX\<close>).\<close>

definition put :: "string \<Rightarrow> string \<Rightarrow> int \<Rightarrow> rview \<Rightarrow> rview" where
  "put k v ttl s =
     s\<lparr>kv := (kv s)(k \<mapsto> (v, if 0 < ttl then Some (clock s + ttl) else None))\<rparr>"

definition del_key :: "string \<Rightarrow> rview \<Rightarrow> rview" where
  "del_key k s = s\<lparr>kv := (kv s)(k := None), zset := (zset s)(k := [])\<rparr>"

text \<open>Sorted sets are kept by score, then by member.\<close>

definition bytes_less :: "string \<Rightarrow> string \<Rightarrow> bool" where
  "bytes_less a b \<longleftrightarrow> lexordp (\<lambda>c d. ord c < ord d) a b"

fun z_insert :: "string \<times> int \<Rightarrow> (string \<times> int) list \<Rightarrow> (string \<times> int) list" where
  "z_insert x [] = [x]"
| "z_insert x (y # ys) =
    (if snd x < snd y \<or> (snd x = snd y \<and> bytes_less (fst x) (fst y))
     then x # y # ys else y # z_insert x ys)"

definition z_without :: "string \<Rightarrow> (string \<times> int) list \<Rightarrow> (string \<times> int) list" where
  "z_without m xs = filter (\<lambda>p. fst p \<noteq> m) xs"

definition z_add :: "string \<Rightarrow> int \<Rightarrow> string \<Rightarrow> rview \<Rightarrow> rview" where
  "z_add k sc m s = s\<lparr>zset := (zset s)(k := z_insert (m, sc) (z_without m (zset s k)))\<rparr>"

definition z_remove :: "string \<Rightarrow> string \<Rightarrow> rview \<Rightarrow> rview" where
  "z_remove k m s = s\<lparr>zset := (zset s)(k := z_without m (zset s k))\<rparr>"

primrec pipe1 :: "pipe_cmd \<Rightarrow> rview \<Rightarrow> rview" where
  "pipe1 (P_Set k v ttl) s = put k v ttl s"
| "pipe1 (P_Del k) s = del_key k s"
| "pipe1 (P_ZAdd k sc m) s = z_add k sc m s"
| "pipe1 (P_ZRem k m) s = z_remove k m s"

definition v_now :: "rview \<Rightarrow> rview \<times> int" where
  "v_now s = (s, clock s)"

definition v_uuid :: "rview \<Rightarrow> rview \<times> string" where
  "v_uuid s = (s\<lparr>uuids := (\<lambda>n. uuids s (Suc n))\<rparr>, uuids s 0)"

definition v_ping :: "rview \<Rightarrow> rview \<times> unit res" where
  "v_ping = serve (\<lambda>s. (s, ()))"

definition v_get :: "string \<Rightarrow> rview \<Rightarrow> rview \<times> (redis_fail + string)" where
  "v_get k s =
    (case serve (\<lambda>s. (s, map_option fst (kv s k))) s of
       (s', Inl e) \<Rightarrow> (s', Inl (Redis_Err e))
     | (s', Inr None) \<Rightarrow> (s', Inl Redis_Nil)
     | (s', Inr (Some v)) \<Rightarrow> (s', Inr v))"

definition v_set_nx :: "string \<Rightarrow> string \<Rightarrow> int \<Rightarrow> rview \<Rightarrow> rview \<times> bool res" where
  "v_set_nx k v ttl = serve (\<lambda>s. if kv s k = None then (put k v ttl s, True) else (s, False))"

definition v_set_keep_ttl :: "string \<Rightarrow> string \<Rightarrow> rview \<Rightarrow> rview \<times> unit res" where
  "v_set_keep_ttl k v = serve (\<lambda>s.
     (s\<lparr>kv := (kv s)(k \<mapsto> (v, case kv s k of None \<Rightarrow> None | Some (_, d) \<Rightarrow> d))\<rparr>, ()))"

definition v_del :: "string \<Rightarrow> rview \<Rightarrow> rview \<times> unit res" where
  "v_del k = serve (\<lambda>s. (del_key k s, ()))"

definition v_z_range_by_score :: "string \<Rightarrow> int \<Rightarrow> int \<Rightarrow> rview \<Rightarrow> rview \<times> string list res" where
  "v_z_range_by_score k lo hi =
     serve (\<lambda>s. (s, map fst (filter (\<lambda>p. lo \<le> snd p \<and> snd p \<le> hi) (zset s k))))"

definition v_z_range :: "string \<Rightarrow> rview \<Rightarrow> rview \<times> string list res" where
  "v_z_range k = serve (\<lambda>s. (s, map fst (zset s k)))"

definition v_z_rem :: "string \<Rightarrow> string \<Rightarrow> rview \<Rightarrow> rview \<times> unit res" where
  "v_z_rem k m = serve (\<lambda>s. (z_remove k m s, ()))"

definition v_tx_exec :: "pipe_cmd list \<Rightarrow> rview \<Rightarrow> rview \<times> unit res" where
  "v_tx_exec cs = serve (\<lambda>s. (fold pipe1 cs s, ()))"

text \<open>The server whose world is the view.\<close>

definition view_redis :: "rview redis" where
  "view_redis =
    \<lparr>now_of = v_now, uuid_of = v_uuid, ping_of = v_ping, get_of = v_get, set_nx_of = v_set_nx,
     set_keep_ttl_of = v_set_keep_ttl, del_of = v_del,
     z_range_by_score_of = v_z_range_by_score, z_range_of = v_z_range,
     z_rem_of = v_z_rem, tx_exec_of = v_tx_exec\<rparr>"

lemma view_redis_simps [simp]:
  "now_of view_redis = v_now" "uuid_of view_redis = v_uuid" "ping_of view_redis = v_ping"
  "get_of view_redis = v_get" "set_nx_of view_redis = v_set_nx"
  "set_keep_ttl_of view_redis = v_set_keep_ttl" "del_of view_redis = v_del"
  "z_range_by_score_of view_redis = v_z_range_by_score" "z_range_of view_redis = v_z_range"
  "z_rem_of view_redis = v_z_rem" "tx_exec_of view_redis = v_tx_exec"
  by (simp_all add: view_redis_def)

text \<open>Time passes between operations: keys past their deadline are gone.\<close>

definition pass :: "int \<Rightarrow> rview \<Rightarrow> rview" where
  "pass d s =
    s\<lparr>clock := clock s + d,
      kv := (\<lambda>k. case kv s k of
               Some (v, Some t) \<Rightarrow> if t \<le> clock s + d then None else Some (v, Some t)
             | e \<Rightarrow> e)\<rparr>"

section \<open>The contract\<close>

locale redis_server =
  fixes R :: "'w redis" and view :: "'w \<Rightarrow> rview"
  assumes now_law: "apfst view (now_of R w) = v_now (view w)"
    and uuid_law: "apfst view (uuid_of R w) = v_uuid (view w)"
    and ping_law: "apfst view (ping_of R w) = v_ping (view w)"
    and get_law: "apfst view (get_of R k w) = v_get k (view w)"
    and set_nx_law: "apfst view (set_nx_of R k v ttl w) = v_set_nx k v ttl (view w)"
    and set_keep_ttl_law: "apfst view (set_keep_ttl_of R k v w) = v_set_keep_ttl k v (view w)"
    and del_law: "apfst view (del_of R k w) = v_del k (view w)"
    and z_range_by_score_law:
      "apfst view (z_range_by_score_of R k lo hi w) = v_z_range_by_score k lo hi (view w)"
    and z_range_law: "apfst view (z_range_of R k w) = v_z_range k (view w)"
    and z_rem_law: "apfst view (z_rem_of R k m w) = v_z_rem k m (view w)"
    and tx_exec_law: "apfst view (tx_exec_of R cs w) = v_tx_exec cs (view w)"
begin

lemmas laws = now_law uuid_law ping_law get_law set_nx_law set_keep_ttl_law del_law
  z_range_by_score_law z_range_law z_rem_law tx_exec_law

text \<open>One command, then a whole program, acts on the view as the view server does.\<close>

lemma run1_view: "apfst view (run1 R p w) = run1 view_redis p (view w)"
  by (cases p) (simp_all add: laws [symmetric] apfst_def apsnd_def map_prod_def split_beta)

lemma run_view: "apfst view (run R p w) = run view_redis p (view w)"
proof (induction p arbitrary: w)
  case (Ret x)
  then show ?case by simp
qed (simp_all add: laws [symmetric] split_beta)

lemma run_viewD: "run R p w = (w', x) \<Longrightarrow> run view_redis p (view w) = (view w', x)"
  using run_view [of p w] by simp

lemma view_run: "view (fst (run R p w)) = fst (run view_redis p (view w))"
  using run_view [of p w] by (metis fst_apfst)

lemma result_run: "snd (run R p w) = snd (run view_redis p (view w))"
  using run_view [of p w] by (metis snd_apfst)

end

interpretation view_server: redis_server view_redis "\<lambda>s. s"
  by unfold_locales (simp_all add: apfst_def map_prod_def)

end
