(* ===== verification/Reservation.thy ===== *)
theory Reservation
  imports Redis
begin

text \<open>
  \<open>internal/reservation\<close>: reservations of a session's budget in Redis. Each method of
  \<open>Service\<close> is a program over the commands it sends. The keys: \<open>reserve:<session>\<close> holds
  the aggregate a session has reserved, \<open>idem:<session>:<key>\<close> the reservation an idempotency
  key produced, \<open>resmeta:<reservation>\<close> what a release needs, and the sorted set
  \<open>reserve-expiry\<close> the reservations by the second they expire.
\<close>

section \<open>Keys and members\<close>

definition idem_key :: "string \<Rightarrow> string \<Rightarrow> string res" where
  "idem_key sessionID idempotencyKey =
    (let idempotencyKey = trim_space idempotencyKey;
         sessionID = trim_space sessionID
     in if idempotencyKey = '''' then Inl (Err ''idempotencyKey required'')
        else if sessionID = '''' then Inl (Err ''sessionId required'')
        else Inr (''idem:'' @ sessionID @ '':'' @ idempotencyKey))"

definition session_key :: "string \<Rightarrow> string" where
  "session_key sessionID = ''reserve:'' @ sessionID"

definition lock_key :: "string \<Rightarrow> string" where
  "lock_key sessionID = ''reserve-lock:'' @ sessionID"

definition reservation_meta_key :: "string \<Rightarrow> string" where
  "reservation_meta_key reservationID = ''resmeta:'' @ reservationID"

definition expiry_index_key :: string where
  "expiry_index_key = ''reserve-expiry''"

definition expiry_member :: "string \<Rightarrow> string \<Rightarrow> string \<Rightarrow> string" where
  "expiry_member reservationID sessionID amountAtomic =
     reservationID @ ''|'' @ sessionID @ ''|'' @ amountAtomic"

definition parse_expiry_member :: "string \<Rightarrow> (string \<times> string \<times> string) option" where
  "parse_expiry_member member =
    (case split_n member (CHR ''|'') 3 of
       [a, b, c] \<Rightarrow> Some (a, b, c)
     | _ \<Rightarrow> None)"

section \<open>Durations\<close>

text \<open>Times and durations are in nanoseconds, as \<open>time.Duration\<close> is.\<close>

definition second :: int where
  "second = 1000000000"

definition minute :: int where
  "minute = 60 * second"

definition hour :: int where
  "hour = 60 * minute"

definition unix :: "int \<Rightarrow> int" where
  "unix t = t div second"

section \<open>The session lock\<close>

definition budget_busy :: go_error where
  "budget_busy = Err ''BUDGET_BUSY''"

definition budget_denied :: go_error where
  "budget_denied = Err ''BUDGET_DENIED''"

text \<open>
  \<open>SetNX\<close> on the lock key, the failure paths, and \<open>defer s.rdb.Del(ctx, lock)\<close> around the
  rest of the function, as \<open>Reserve\<close> and \<open>releaseAmount\<close> both write it.
\<close>

definition with_lock :: "string \<Rightarrow> 'a res prog \<Rightarrow> 'a res prog" where
  "with_lock sessionID body =
    Set_NX (lock_key sessionID) ''1'' (10 * second) (\<lambda>r. case r of
      Inl e \<Rightarrow> Ret (Inl e)
    | Inr acquired \<Rightarrow>
        if \<not> acquired then Ret (Inl budget_busy)
        else bind_prog body (\<lambda>x. Del (lock_key sessionID) (\<lambda>_. Ret x)))"

section \<open>Releasing\<close>

definition release_body :: "string \<Rightarrow> int \<Rightarrow> unit res prog" where
  "release_body sessionID amount =
    Get (session_key sessionID) (\<lambda>r. case r of
      Inl Redis_Nil \<Rightarrow> Ret (Inr ())
    | Inl (Redis_Err e) \<Rightarrow> Ret (Inl e)
    | Inr currentStr \<Rightarrow>
        (case set_string currentStr of
           None \<Rightarrow> Ret (Inl (Err ''invalid session reserve state''))
         | Some current \<Rightarrow>
             (let next = current - amount;
                  next = (if next < 0 then 0 else next)
              in Set_Keep_TTL (session_key sessionID) (show_int next) (\<lambda>r. Ret r))))"

definition release_amount :: "string \<Rightarrow> string \<Rightarrow> unit res prog" where
  "release_amount sessionID amountAtomic =
    (case set_string amountAtomic of
       None \<Rightarrow> Ret (Inl (Err ''invalid reserved amount''))
     | Some amount \<Rightarrow> with_lock sessionID (release_body sessionID amount))"

text \<open>The index entry of a reservation: the first member that names it.\<close>

definition member_of :: "string \<Rightarrow> string \<Rightarrow> bool" where
  "member_of reservationID member \<longleftrightarrow>
     (case parse_expiry_member member of None \<Rightarrow> False | Some (i, _, _) \<Rightarrow> i = reservationID)"

definition drop_reservation :: "string \<Rightarrow> unit res prog" where
  "drop_reservation reservationID =
    Z_Range expiry_index_key (\<lambda>r.
      let rem = (case r of
          Inl _ \<Rightarrow> []
        | Inr members \<Rightarrow>
            (case find (member_of reservationID) members of
               None \<Rightarrow> []
             | Some member \<Rightarrow> [P_ZRem expiry_index_key member]))
      in Tx_Exec (P_Del (reservation_meta_key reservationID) # rem) (\<lambda>r. Ret r))"

definition commit_reservation :: "string \<Rightarrow> unit res prog" where
  "commit_reservation reservationID = drop_reservation reservationID"

definition release_reservation :: "string \<Rightarrow> unit res prog" where
  "release_reservation reservationID =
    Get (reservation_meta_key reservationID) (\<lambda>r. case r of
      Inl Redis_Nil \<Rightarrow> Ret (Inr ())
    | Inl (Redis_Err e) \<Rightarrow> Ret (Inl e)
    | Inr meta \<Rightarrow>
        (case split_n meta (CHR ''|'') 2 of
           [sessionID, amount] \<Rightarrow>
             try_prog (release_amount sessionID amount) (\<lambda>_. drop_reservation reservationID)
         | _ \<Rightarrow> Ret (Inl (Err ''invalid reservation metadata''))))"

text \<open>\<open>Ping\<close>, which only the start-up calls.\<close>

definition ping :: "unit res prog" where
  "ping = Ping Ret"

section \<open>Sweeping\<close>

definition sweep_member :: "string \<Rightarrow> unit res prog" where
  "sweep_member member =
    try_prog
      (case parse_expiry_member member of
         Some (reservationID, sessionID, amountAtomic) \<Rightarrow>
           try_prog (release_amount sessionID amountAtomic)
             (\<lambda>_. Del (reservation_meta_key reservationID) (\<lambda>_. Ret (Inr ())))
       | None \<Rightarrow> release_reservation member)
      (\<lambda>_. Z_Rem expiry_index_key member (\<lambda>r. Ret r))"

primrec sweep_members :: "string list \<Rightarrow> unit res prog" where
  "sweep_members [] = Ret (Inr ())"
| "sweep_members (m # ms) = try_prog (sweep_member m) (\<lambda>_. sweep_members ms)"

definition sweep_expired :: "int \<Rightarrow> unit res prog" where
  "sweep_expired now =
    Z_Range_By_Score expiry_index_key 0 (unix now) (\<lambda>r. case r of
      Inl e \<Rightarrow> Ret (Inl e)
    | Inr members \<Rightarrow> sweep_members members)"

section \<open>Reserving\<close>

text \<open>\<open>SetString\<close> with the \<open>ok\<close> and \<open>Sign\<close> checks on an amount.\<close>

definition positive_amount :: "string \<Rightarrow> string \<Rightarrow> int res" where
  "positive_amount what s =
    (case set_string s of
       None \<Rightarrow> Inl (Err (''invalid '' @ what))
     | Some a \<Rightarrow> if a \<le> 0 then Inl (Err (''invalid '' @ what)) else Inr a)"

definition ttl_seconds :: "int \<Rightarrow> int" where
  "ttl_seconds preSubmitTTL =
    (let ttlSec = preSubmitTTL div second in if ttlSec \<le> 0 then 300 else ttlSec)"

definition aggregate_ttl :: "int \<Rightarrow> int" where
  "aggregate_ttl ttl = (if ttl \<le> 0 then 24 * hour else ttl)"

definition reserve_tx ::
    "string \<Rightarrow> string \<Rightarrow> string \<Rightarrow> string \<Rightarrow> int \<Rightarrow> int \<Rightarrow> int \<Rightarrow> int \<Rightarrow> pipe_cmd list" where
  "reserve_tx reservationID sessionID idem amountAtomic next ttlSec aggTTL now =
    [P_Set (session_key sessionID) (show_int next) aggTTL,
     P_Set idem reservationID (ttlSec * second),
     P_Set (reservation_meta_key reservationID) (sessionID @ ''|'' @ amountAtomic)
       (ttlSec * 2 * second),
     P_ZAdd expiry_index_key (unix (now + ttlSec * second))
       (expiry_member reservationID sessionID amountAtomic)]"

text \<open>Under the lock: read the aggregate, check the cap, write the reservation.\<close>

definition reserve_body ::
    "string \<Rightarrow> string \<Rightarrow> string \<Rightarrow> int \<Rightarrow> int \<Rightarrow> int \<Rightarrow> int \<Rightarrow> string res prog" where
  "reserve_body sessionID idem amountAtomic amount maxTotal preSubmitTTL sessionAggregateTTL =
    Get (session_key sessionID) (\<lambda>r.
      case (case r of Inl Redis_Nil \<Rightarrow> Inr ''0'' | Inl (Redis_Err e) \<Rightarrow> Inl e | Inr v \<Rightarrow> Inr v) of
        Inl e \<Rightarrow> Ret (Inl e)
      | Inr currentStr \<Rightarrow>
          (let current = (case set_string currentStr of None \<Rightarrow> 0 | Some c \<Rightarrow> c);
               next = current + amount
           in if maxTotal < next then Ret (Inl budget_denied)
              else New_UUID (\<lambda>u. Now (\<lambda>now.
                let reservationID = ''res_'' @ u in
                Tx_Exec (reserve_tx reservationID sessionID idem amountAtomic next
                    (ttl_seconds preSubmitTTL) (aggregate_ttl sessionAggregateTTL) now)
                  (\<lambda>r. case r of Inl e \<Rightarrow> Ret (Inl e) | Inr _ \<Rightarrow> Ret (Inr reservationID))))))"

text \<open>
  After the sweep: the arguments are checked, a live idempotency key answers with the
  reservation it made (any other reply, an error included, goes on), then the locked part.
\<close>

definition reserve_checked ::
    "string \<Rightarrow> string \<Rightarrow> string \<Rightarrow> string \<Rightarrow> int \<Rightarrow> int \<Rightarrow> string res prog" where
  "reserve_checked sessionID idempotencyKey amountAtomic maxTotalSpend preSubmitTTL sessionAggregateTTL =
    (case idem_key sessionID idempotencyKey of
       Inl e \<Rightarrow> Ret (Inl e)
     | Inr idem \<Rightarrow>
         (case positive_amount ''amountAtomic'' amountAtomic of
            Inl e \<Rightarrow> Ret (Inl e)
          | Inr amount \<Rightarrow>
              (case positive_amount ''maxTotalSpend'' maxTotalSpend of
                 Inl e \<Rightarrow> Ret (Inl e)
               | Inr maxTotal \<Rightarrow>
                   Get idem (\<lambda>r.
                     case (case r of Inr existing \<Rightarrow> if existing \<noteq> '''' then Some existing else None
                           | Inl _ \<Rightarrow> None) of
                       Some existing \<Rightarrow> Ret (Inr existing)
                     | None \<Rightarrow> with_lock sessionID
                         (reserve_body sessionID idem amountAtomic amount maxTotal
                            preSubmitTTL sessionAggregateTTL)))))"

definition reserve ::
    "string \<Rightarrow> string \<Rightarrow> string \<Rightarrow> string \<Rightarrow> int \<Rightarrow> int \<Rightarrow> string res prog" where
  "reserve sessionID idempotencyKey amountAtomic maxTotalSpend preSubmitTTL sessionAggregateTTL =
    Now (\<lambda>now. try_prog (sweep_expired now)
      (\<lambda>_. reserve_checked sessionID idempotencyKey amountAtomic maxTotalSpend
             preSubmitTTL sessionAggregateTTL))"

section \<open>Encoding of index members\<close>

lemma parse_expiry_member:
  assumes "CHR ''|'' \<notin> set reservationID" and "CHR ''|'' \<notin> set sessionID"
  shows "parse_expiry_member (expiry_member reservationID sessionID amount)
           = Some (reservationID, sessionID, amount)"
proof -
  have "split_n (expiry_member reservationID sessionID amount) (CHR ''|'') (Suc (Suc (Suc 0)))
      = [reservationID, sessionID, amount]"
    using split_n_sep [OF assms(1)] split_n_sep [OF assms(2)]
    by (simp add: expiry_member_def del: split_n.simps(3))
  then show ?thesis by (simp add: parse_expiry_member_def numeral_3_eq_3 del: split_n.simps(3))
qed

lemma expiry_member_inject:
  assumes "CHR ''|'' \<notin> set r" "CHR ''|'' \<notin> set s" "CHR ''|'' \<notin> set r'" "CHR ''|'' \<notin> set s'"
  shows "expiry_member r s a = expiry_member r' s' a' \<longleftrightarrow> r = r' \<and> s = s' \<and> a = a'"
  using parse_expiry_member [OF assms(1,2)] parse_expiry_member [OF assms(3,4)]
  by (metis option.inject prod.inject)

lemma split_meta:
  "CHR ''|'' \<notin> set s \<Longrightarrow> split_n (s @ ''|'' @ a) (CHR ''|'') 2 = [s, a]"
  using split_n_sep [of "CHR ''|''" s a 0] by (simp add: numeral_2_eq_2)

section \<open>Keys never collide\<close>

lemma key_distinct [simp]:
  "session_key a \<noteq> lock_key b" "lock_key b \<noteq> session_key a"
  "session_key a \<noteq> reservation_meta_key b" "reservation_meta_key b \<noteq> session_key a"
  "session_key a \<noteq> expiry_index_key" "expiry_index_key \<noteq> session_key a"
  "lock_key a \<noteq> reservation_meta_key b" "reservation_meta_key b \<noteq> lock_key a"
  "lock_key a \<noteq> expiry_index_key" "expiry_index_key \<noteq> lock_key a"
  "reservation_meta_key a \<noteq> expiry_index_key" "expiry_index_key \<noteq> reservation_meta_key a"
  by (simp_all add: session_key_def lock_key_def reservation_meta_key_def expiry_index_key_def)

lemma key_inject [simp]:
  "session_key a = session_key b \<longleftrightarrow> a = b" "lock_key a = lock_key b \<longleftrightarrow> a = b"
  "reservation_meta_key a = reservation_meta_key b \<longleftrightarrow> a = b"
  by (simp_all add: session_key_def lock_key_def reservation_meta_key_def)

lemma idem_key_distinct:
  assumes "idem_key s k = Inr idem"
  shows "idem \<noteq> session_key a" "idem \<noteq> lock_key a" "idem \<noteq> reservation_meta_key a"
    "idem \<noteq> expiry_index_key"
  using assms
  by (auto simp: idem_key_def Let_def session_key_def lock_key_def reservation_meta_key_def
      expiry_index_key_def split: if_splits)

end
