(* ===== verification/Reservation_Effects.thy ===== *)
theory Reservation_Effects
  imports Reservation "HOL-Library.Multiset"
begin

text \<open>
  What the reservation programs do to the view of an idle server on a healthy network: each
  operation is executed symbolically once, command by command, into an equation between
  states. \<open>clean\<close> says that no command will be lost, no session lock is held and only the
  expiry index is a sorted set; every operation that starts clean ends clean.
\<close>

section \<open>Commands on a healthy network\<close>

definition clean :: "rview \<Rightarrow> bool" where
  "clean s \<longleftrightarrow> faults s = [] \<and> (\<forall>sid. kv s (lock_key sid) = None) \<and>
     (\<forall>k. k \<noteq> expiry_index_key \<longrightarrow> zset s k = [])"

lemma cleanD:
  assumes "clean s"
  shows "faults s = []" "kv s (lock_key sid) = None" "k \<noteq> expiry_index_key \<Longrightarrow> zset s k = []"
  using assms by (simp_all add: clean_def)

lemma serve_healthy [run_simps]:
  "faults s = [] \<Longrightarrow> serve f s = (case f s of (s', r) \<Rightarrow> (s', Inr r))"
proof -
  assume "faults s = []"
  then have "s\<lparr>faults := tl (faults s)\<rparr> = s" and "next_fault s = Served"
    by (simp_all add: next_fault_def)
  then show ?thesis by (simp only: serve_def Let_def fault.case)
qed

lemmas command_defs [run_simps] =
  v_now_def v_uuid_def v_ping_def v_get_def v_set_nx_def v_set_keep_ttl_def v_del_def
  v_z_range_by_score_def v_z_range_def v_z_rem_def v_tx_exec_def

lemma put_simps [simp]:
  "faults (put k v t s) = faults s" "zset (put k v t s) = zset s" "clock (put k v t s) = clock s"
  "uuids (put k v t s) = uuids s"
  "kv (put k v t s) = (kv s)(k \<mapsto> (v, if 0 < t then Some (clock s + t) else None))"
  by (simp_all add: put_def)

lemma del_key_simps [simp]:
  "faults (del_key k s) = faults s" "clock (del_key k s) = clock s" "uuids (del_key k s) = uuids s"
  "kv (del_key k s) = (kv s)(k := None)" "zset (del_key k s) = (zset s)(k := [])"
  by (simp_all add: del_key_def)

lemma z_add_simps [simp]:
  "faults (z_add k sc m s) = faults s" "clock (z_add k sc m s) = clock s"
  "uuids (z_add k sc m s) = uuids s" "kv (z_add k sc m s) = kv s"
  "zset (z_add k sc m s) = (zset s)(k := z_insert (m, sc) (z_without m (zset s k)))"
  by (simp_all add: z_add_def)

lemma z_remove_simps [simp]:
  "faults (z_remove k m s) = faults s" "clock (z_remove k m s) = clock s"
  "uuids (z_remove k m s) = uuids s" "kv (z_remove k m s) = kv s"
  "zset (z_remove k m s) = (zset s)(k := z_without m (zset s k))"
  by (simp_all add: z_remove_def)

lemma rview_eqI:
  fixes s t :: rview
  shows "kv s = kv t \<Longrightarrow> zset s = zset t \<Longrightarrow> clock s = clock t \<Longrightarrow> uuids s = uuids t \<Longrightarrow>
    faults s = faults t \<Longrightarrow> s = t"
  by simp

section \<open>The lock\<close>

text \<open>
  On a clean state the locked part runs with the lock key present and the key is gone
  afterwards: what the body does to the rest of the state is what remains.
\<close>

definition lock_held :: "string \<Rightarrow> rview \<Rightarrow> rview" where
  "lock_held sid s = put (lock_key sid) ''1'' (10 * second) s"

lemma run_with_lock:
  assumes "clean s" and "run view_redis body (lock_held sid s) = (t, x)" and "faults t = []"
  shows "run view_redis (with_lock sid body) s = (del_key (lock_key sid) t, x)"
  using assms
  by (simp add: with_lock_def run_simps run_bind cleanD lock_held_def)

lemma run_with_lock_busy:
  assumes "faults s = []" and "kv s (lock_key sid) = Some e"
  shows "run view_redis (with_lock sid body) s = (s, Inl budget_busy)"
  using assms by (simp add: with_lock_def run_simps)

section \<open>Releasing an amount\<close>

text \<open>The aggregate of a session: what \<open>reserve:<session>\<close> holds.\<close>

definition total :: "rview \<Rightarrow> string \<Rightarrow> int option" where
  "total s sid = (case kv s (session_key sid) of None \<Rightarrow> None | Some (v, _) \<Rightarrow> set_string v)"

definition totals_ok :: "rview \<Rightarrow> bool" where
  "totals_ok s \<longleftrightarrow>
     (\<forall>sid v d. kv s (session_key sid) = Some (v, d) \<longrightarrow> (\<exists>t. set_string v = Some t \<and> 0 \<le> t))"

definition lower_total :: "string \<Rightarrow> int \<Rightarrow> rview \<Rightarrow> rview" where
  "lower_total sid a s =
    (case kv s (session_key sid) of
       None \<Rightarrow> s
     | Some (v, d) \<Rightarrow> s\<lparr>kv := (kv s)(session_key sid \<mapsto>
           (show_int (max 0 (the (set_string v) - a)), d))\<rparr>)"

lemma lower_total_frame [simp]:
  "zset (lower_total sid a s) = zset s" "clock (lower_total sid a s) = clock s"
  "uuids (lower_total sid a s) = uuids s" "faults (lower_total sid a s) = faults s"
  "(\<And>x. k \<noteq> session_key x) \<Longrightarrow> kv (lower_total sid a s) k = kv s k"
  by (auto simp: lower_total_def split: option.split)

lemma total_lower_total:
  "totals_ok s \<Longrightarrow> total (lower_total sid a s) =
     (total s)(sid := map_option (\<lambda>t. max 0 (t - a)) (total s sid))"
  by (rule ext) (auto simp: total_def lower_total_def totals_ok_def split: option.splits; force)

lemma totals_ok_lower_total: "totals_ok s \<Longrightarrow> totals_ok (lower_total sid a s)"
  by (auto simp: totals_ok_def lower_total_def split: option.split)

lemma clean_lower_total: "clean s \<Longrightarrow> clean (lower_total sid a s)"
  by (auto simp: clean_def)

lemma run_release_amount:
  assumes "clean s" "totals_ok s" "set_string amt = Some a"
  shows "run view_redis (release_amount sid amt) s = (lower_total sid a s, Inr ())"
proof -
  let ?s = "lock_held sid s"
  have fl: "faults ?s = []" using assms(1) by (simp add: lock_held_def clean_def)
  have kv: "kv ?s (session_key sid) = kv s (session_key sid)" by (simp add: lock_held_def)
  have body: "run view_redis (release_body sid a) ?s = (lower_total sid a ?s, Inr ())"
  proof (cases "kv s (session_key sid)")
    case None
    then show ?thesis using fl kv by (simp add: release_body_def run_simps lower_total_def)
  next
    case (Some e)
    obtain v d where e: "e = (v, d)" by (cases e)
    then obtain t where "set_string v = Some t" using assms(2) Some by (auto simp: totals_ok_def)
    then show ?thesis using fl kv Some e
      by (simp add: release_body_def run_simps lower_total_def Let_def max_def)
  qed
  have "del_key (lock_key sid) (lower_total sid a ?s) = lower_total sid a s"
    using assms(1)
    by (intro rview_eqI ext) (auto simp: lower_total_def lock_held_def clean_def split: option.split)
  then show ?thesis
    using run_with_lock [OF assms(1) body] fl assms(3) by (simp add: release_amount_def)
qed

section \<open>The expiry index\<close>

text \<open>
  A good index member encodes a reservation of a positive amount, and reads back as such.
\<close>

definition good_member :: "string \<Rightarrow> bool" where
  "good_member m \<longleftrightarrow>
     (\<exists>rid sid amt a. m = expiry_member rid sid amt \<and> CHR ''|'' \<notin> set rid \<and> CHR ''|'' \<notin> set sid \<and>
        set_string amt = Some a \<and> 0 < a)"

definition rid_of :: "string \<Rightarrow> string" where
  "rid_of m = fst (the (parse_expiry_member m))"

definition sid_of :: "string \<Rightarrow> string" where
  "sid_of m = fst (snd (the (parse_expiry_member m)))"

definition amt_of :: "string \<Rightarrow> string" where
  "amt_of m = snd (snd (the (parse_expiry_member m)))"

definition amount_of :: "string \<Rightarrow> int" where
  "amount_of m = the (set_string (amt_of m))"

lemma good_memberD:
  assumes "good_member m"
  shows "parse_expiry_member m = Some (rid_of m, sid_of m, amt_of m)"
    "set_string (amt_of m) = Some (amount_of m)" "0 < amount_of m"
    "m = expiry_member (rid_of m) (sid_of m) (amt_of m)"
    "CHR ''|'' \<notin> set (rid_of m)" "CHR ''|'' \<notin> set (sid_of m)"
  using assms
  by (auto simp: good_member_def rid_of_def sid_of_def amt_of_def amount_of_def parse_expiry_member)

lemma expiry_member_parts:
  assumes "CHR ''|'' \<notin> set rid" "CHR ''|'' \<notin> set sid"
  shows "rid_of (expiry_member rid sid amt) = rid" "sid_of (expiry_member rid sid amt) = sid"
    "amt_of (expiry_member rid sid amt) = amt"
  using assms by (simp_all add: rid_of_def sid_of_def amt_of_def parse_expiry_member)

definition wf_index :: "(string \<times> int) list \<Rightarrow> bool" where
  "wf_index xs \<longleftrightarrow> (\<forall>p \<in> set xs. good_member (fst p)) \<and> distinct (map (rid_of \<circ> fst) xs)"

lemma mset_z_insert: "mset (z_insert x xs) = add_mset x (mset xs)"
  by (induction x xs rule: z_insert.induct) auto

lemma set_z_insert [simp]: "set (z_insert x xs) = insert x (set xs)"
  using arg_cong [OF mset_z_insert [of x xs], of set_mset] by simp

lemma distinct_map_z_insert:
  "distinct (map f (z_insert x xs)) \<longleftrightarrow> f x \<notin> f ` set xs \<and> distinct (map f xs)"
  by (induction x xs rule: z_insert.induct) auto

lemma wf_index_without: "wf_index xs \<Longrightarrow> wf_index (z_without m xs)"
  by (auto simp: wf_index_def z_without_def distinct_map_filter)

lemma wf_index_insert:
  assumes "wf_index xs" "good_member m" "rid_of m \<notin> (rid_of \<circ> fst) ` set xs"
  shows "wf_index (z_insert (m, sc) xs)"
  using assms by (simp add: wf_index_def distinct_map_z_insert)

lemma z_without_fresh: "rid_of m \<notin> (rid_of \<circ> fst) ` set xs \<Longrightarrow> z_without m xs = xs"
  unfolding z_without_def by (rule filter_True) force

text \<open>What the index says is pending, and how much of it belongs to a session.\<close>

definition entry :: "string \<times> int \<Rightarrow> string \<times> (string \<times> int \<times> int)" where
  "entry p = (rid_of (fst p), (sid_of (fst p), amount_of (fst p), snd p))"

definition pending_of :: "(string \<times> int) list \<Rightarrow> string \<Rightarrow> (string \<times> int \<times> int) option" where
  "pending_of xs = map_of (map entry xs)"

definition held_of :: "(string \<times> int) list \<Rightarrow> string \<Rightarrow> int" where
  "held_of xs sid = (\<Sum>p \<leftarrow> xs. if sid_of (fst p) = sid then amount_of (fst p) else 0)"

lemma entries_distinct: "wf_index xs \<Longrightarrow> distinct (map fst (map entry xs))"
  by (simp add: wf_index_def entry_def comp_def)

lemma pending_of_Some_iff:
  "wf_index xs \<Longrightarrow> pending_of xs rid = Some e \<longleftrightarrow> (\<exists>p \<in> set xs. entry p = (rid, e))"
  unfolding pending_of_def using entries_distinct [of xs]
  by (subst map_of_eq_Some_iff) (auto simp: image_iff eq_commute)

lemma pending_of_None_iff: "pending_of xs rid = None \<longleftrightarrow> rid \<notin> (rid_of \<circ> fst) ` set xs"
  by (auto simp: pending_of_def map_of_eq_None_iff entry_def image_iff)

lemma pending_of_insert:
  assumes "wf_index xs" "good_member m" "rid_of m \<notin> (rid_of \<circ> fst) ` set xs"
  shows "pending_of (z_insert (m, sc) xs) = (pending_of xs)(rid_of m \<mapsto> (sid_of m, amount_of m, sc))"
proof -
  have "map_of (map entry (z_insert (m, sc) xs)) = map_of (map entry ((m, sc) # xs))"
  proof (rule map_of_inject_set [THEN iffD2])
    show "distinct (map fst (map entry (z_insert (m, sc) xs)))"
      using entries_distinct [OF wf_index_insert [OF assms]] .
    show "distinct (map fst (map entry ((m, sc) # xs)))"
      using assms(3) entries_distinct [OF assms(1)] by (auto simp: entry_def image_iff)
  qed simp
  then show ?thesis by (simp add: pending_of_def entry_def)
qed

lemma pending_of_without:
  assumes "wf_index xs" "m \<in> fst ` set xs"
  shows "pending_of (z_without m xs) = (pending_of xs)(rid_of m := None)"
proof
  fix rid
  have inj: "p \<in> set xs \<Longrightarrow> rid_of (fst p) = rid_of m \<Longrightarrow> fst p = m" for p
    using assms by (auto simp: wf_index_def distinct_map inj_on_def)
  show "pending_of (z_without m xs) rid = ((pending_of xs)(rid_of m := None)) rid"
  proof (cases "rid = rid_of m")
    case True
    with inj show ?thesis by (auto simp: pending_of_None_iff z_without_def image_iff)
  next
    case False
    have "pending_of (z_without m xs) rid = Some e \<longleftrightarrow> pending_of xs rid = Some e" for e
      unfolding pending_of_Some_iff [OF assms(1)]
        pending_of_Some_iff [OF wf_index_without [OF assms(1)]]
      using False by (auto simp: z_without_def entry_def) force
    then have "pending_of (z_without m xs) rid = pending_of xs rid"
      by (metis not_Some_eq)
    with False show ?thesis by simp
  qed
qed

lemma held_of_insert:
  "held_of (z_insert (m, sc) xs) sid =
     held_of xs sid + (if sid_of m = sid then amount_of m else 0)"
proof -
  let ?f = "\<lambda>p :: string \<times> int. if sid_of (fst p) = sid then amount_of (fst p) else 0"
  have "sum_mset (image_mset ?f (mset (z_insert (m, sc) xs))) = ?f (m, sc) + sum_mset (image_mset ?f (mset xs))"
    by (simp add: mset_z_insert)
  then show ?thesis by (simp add: held_of_def sum_mset_sum_list [symmetric] flip: mset_map)
qed

lemma held_of_without:
  assumes "wf_index xs" "m \<in> fst ` set xs"
  shows "held_of (z_without m xs) sid = held_of xs sid - (if sid_of m = sid then amount_of m else 0)"
  using assms
proof (induction xs)
  case Nil
  then show ?case by simp
next
  case (Cons p xs)
  have wf: "wf_index xs" and r: "rid_of (fst p) \<notin> (rid_of \<circ> fst) ` set xs"
    using Cons.prems(1) by (auto simp: wf_index_def)
  show ?case
  proof (cases "fst p = m")
    case True
    with r have "z_without m xs = xs" by (intro z_without_fresh) simp
    with True show ?thesis by (simp add: held_of_def z_without_def)
  next
    case False
    with Cons.prems have "m \<in> fst ` set xs" by auto
    with False Cons.IH [OF wf] show ?thesis by (simp add: held_of_def z_without_def)
  qed
qed

lemma held_of_nonneg: "wf_index xs \<Longrightarrow> 0 \<le> held_of xs sid"
  unfolding held_of_def
  by (rule sum_list_nonneg) (fastforce simp: wf_index_def dest: good_memberD(3))

section \<open>Committing, releasing, sweeping\<close>

text \<open>The state an operation relies on between operations.\<close>

definition index :: "rview \<Rightarrow> (string \<times> int) list" where
  "index s = zset s expiry_index_key"

definition meta_ok :: "rview \<Rightarrow> bool" where
  "meta_ok s \<longleftrightarrow>
     (\<forall>rid v d. kv s (reservation_meta_key rid) = Some (v, d) \<longrightarrow>
        (\<exists>p \<in> set (index s). rid_of (fst p) = rid \<and>
           v = sid_of (fst p) @ ''|'' @ amt_of (fst p)))"

definition idle :: "rview \<Rightarrow> bool" where
  "idle s \<longleftrightarrow> clean s \<and> totals_ok s \<and> wf_index (index s) \<and> meta_ok s"

lemma idleD:
  assumes "idle s"
  shows "clean s" "totals_ok s" "wf_index (index s)" "meta_ok s"
  using assms by (simp_all add: idle_def)

lemma index_simps [simp]:
  "index (lower_total sid a s) = index s"
  "index (put k v t s) = index s"
  "k \<noteq> expiry_index_key \<Longrightarrow> index (del_key k s) = index s"
  "index (z_remove expiry_index_key m s) = z_without m (index s)"
  "index (z_add expiry_index_key sc m s) = z_insert (m, sc) (z_without m (index s))"
  by (simp_all add: index_def)

text \<open>Forgetting a reservation: its metadata and its index entry go.\<close>

definition forget :: "string \<Rightarrow> rview \<Rightarrow> rview" where
  "forget rid s =
    (let s = del_key (reservation_meta_key rid) s in
     case find (member_of rid) (map fst (index s)) of
       None \<Rightarrow> s
     | Some m \<Rightarrow> z_remove expiry_index_key m s)"

lemma run_drop_reservation:
  assumes "faults s = []"
  shows "run view_redis (drop_reservation rid) s = (forget rid s, Inr ())"
proof (cases "find (member_of rid) (map fst (index s))")
  case None
  then show ?thesis using assms
    by (simp add: drop_reservation_def forget_def run_simps index_def Let_def)
next
  case (Some m)
  then show ?thesis using assms
    by (simp add: drop_reservation_def forget_def run_simps index_def Let_def)
qed

lemma member_of_iff: "good_member m \<Longrightarrow> member_of rid m \<longleftrightarrow> rid_of m = rid"
  by (auto simp: member_of_def good_memberD(1))

lemma find_member:
  assumes "wf_index xs"
  shows "find (member_of rid) (map fst xs) = Some m \<Longrightarrow> m \<in> fst ` set xs \<and> rid_of m = rid"
    and "find (member_of rid) (map fst xs) = None \<longleftrightarrow> rid \<notin> (rid_of \<circ> fst) ` set xs"
proof -
  have good: "p \<in> set xs \<Longrightarrow> member_of rid (fst p) \<longleftrightarrow> rid_of (fst p) = rid" for p
    using assms by (simp add: wf_index_def member_of_iff)
  show "find (member_of rid) (map fst xs) = Some m \<Longrightarrow> m \<in> fst ` set xs \<and> rid_of m = rid"
    using good by (fastforce dest!: find_Some_set)
  show "find (member_of rid) (map fst xs) = None \<longleftrightarrow> rid \<notin> (rid_of \<circ> fst) ` set xs"
    using good by (auto simp: find_None_iff)
qed

lemma forget_frame [simp]:
  "faults (forget rid s) = faults s" "clock (forget rid s) = clock s" "uuids (forget rid s) = uuids s"
  "kv (forget rid s) = (kv s)(reservation_meta_key rid := None)"
  "total (forget rid s) = total s"
  by (auto simp: forget_def Let_def total_def split: option.split)

lemma pending_forget:
  assumes "wf_index (index s)"
  shows "pending_of (index (forget rid s)) = (pending_of (index s))(rid := None)"
proof (cases "find (member_of rid) (map fst (index s))")
  case None
  then have "pending_of (index s) rid = None"
    using find_member(2) [OF assms] by (simp add: pending_of_None_iff)
  then show ?thesis using None by (auto simp: forget_def Let_def)
next
  case (Some m)
  then have "m \<in> fst ` set (index s)" "rid_of m = rid" using find_member(1) [OF assms] by auto
  then show ?thesis using Some pending_of_without [OF assms, of m] by (simp add: forget_def Let_def)
qed

text \<open>
  Only the entry that is forgotten leaves the index; with its metadata gone too, the state
  is idle again.
\<close>

lemma set_index_forget:
  assumes "wf_index (index s)"
  shows "set (index (forget rid s)) = {p \<in> set (index s). rid_of (fst p) \<noteq> rid}"
proof (cases "find (member_of rid) (map fst (index s))")
  case None
  then have "rid \<notin> (rid_of \<circ> fst) ` set (index s)" using find_member(2) [OF assms] by simp
  then show ?thesis using None by (auto simp: forget_def Let_def)
next
  case (Some m)
  have m: "m \<in> fst ` set (index s)" "rid_of m = rid" using find_member(1) [OF assms Some] by auto
  have "p \<in> set (index s) \<Longrightarrow> rid_of (fst p) = rid \<Longrightarrow> fst p = m" for p
    using assms m by (auto simp: wf_index_def distinct_map inj_on_def)
  then show ?thesis using Some m by (auto simp: forget_def Let_def z_without_def)
qed

lemma wf_index_forget: "wf_index (index s) \<Longrightarrow> wf_index (index (forget rid s))"
  by (auto simp: forget_def Let_def wf_index_without split: option.split)

lemma totals_ok_forget: "totals_ok s \<Longrightarrow> totals_ok (forget rid s)"
  by (simp add: totals_ok_def)

lemma clean_forget: "clean s \<Longrightarrow> clean (forget rid s)"
  by (auto simp: clean_def forget_def Let_def split: option.split)

lemma meta_ok_forget:
  assumes "wf_index (index s)" "meta_ok s"
  shows "meta_ok (forget rid s)"
  unfolding meta_ok_def
proof (intro allI impI)
  fix r v d
  assume "kv (forget rid s) (reservation_meta_key r) = Some (v, d)"
  then have "r \<noteq> rid" "kv s (reservation_meta_key r) = Some (v, d)" by (auto split: if_splits)
  with assms(2) obtain p where "p \<in> set (index s)" "rid_of (fst p) = r"
      "v = sid_of (fst p) @ ''|'' @ amt_of (fst p)"
    unfolding meta_ok_def by blast
  with \<open>r \<noteq> rid\<close> show "\<exists>p \<in> set (index (forget rid s)). rid_of (fst p) = r \<and>
      v = sid_of (fst p) @ ''|'' @ amt_of (fst p)"
    unfolding set_index_forget [OF assms(1)] by blast
qed

lemma idle_forget: "idle s \<Longrightarrow> idle (forget rid s)"
  by (simp add: idle_def clean_forget totals_ok_forget wf_index_forget meta_ok_forget)

lemma idle_lower_total: "idle s \<Longrightarrow> idle (lower_total sid a s)"
  by (auto simp: idle_def clean_lower_total totals_ok_lower_total meta_ok_def)

theorem run_commit_reservation:
  "idle s \<Longrightarrow> run view_redis (commit_reservation rid) s = (forget rid s, Inr ())"
  by (simp add: commit_reservation_def run_drop_reservation idle_def clean_def)

text \<open>A release does something as long as the reservation's metadata is there.\<close>

definition released :: "string \<Rightarrow> rview \<Rightarrow> rview" where
  "released rid s =
    (case kv s (reservation_meta_key rid) of
       None \<Rightarrow> s
     | Some _ \<Rightarrow>
         (case pending_of (index s) rid of
            None \<Rightarrow> s
          | Some (sid, a, _) \<Rightarrow> forget rid (lower_total sid a s)))"

theorem run_release_reservation:
  assumes "idle s"
  shows "run view_redis (release_reservation rid) s = (released rid s, Inr ())"
proof (cases "kv s (reservation_meta_key rid)")
  case None
  then show ?thesis using idleD(1) [OF assms]
    by (simp add: release_reservation_def released_def run_simps clean_def)
next
  case (Some e)
  then obtain v d where e: "kv s (reservation_meta_key rid) = Some (v, d)" by (cases e) auto
  then obtain p where p: "p \<in> set (index s)" "rid_of (fst p) = rid"
      "v = sid_of (fst p) @ ''|'' @ amt_of (fst p)"
    using idleD(4) [OF assms] unfolding meta_ok_def by blast
  let ?m = "fst p"
  have g: "good_member ?m" using idleD(3) [OF assms] p(1) by (simp add: wf_index_def)
  have pend: "pending_of (index s) rid = Some (sid_of ?m, amount_of ?m, snd p)"
    using pending_of_Some_iff [OF idleD(3) [OF assms]] p by (auto simp: entry_def)
  have meta: "split_n v (CHR ''|'') 2 = [sid_of ?m, amt_of ?m]"
    unfolding p(3) by (rule split_meta) (rule good_memberD(6) [OF g])
  have get: "v_get (reservation_meta_key rid) s = (s, Inr v)"
    using idleD(1) [OF assms] e by (simp add: run_simps clean_def)
  have "run view_redis (release_reservation rid) s =
      run view_redis (try_prog (release_amount (sid_of ?m) (amt_of ?m)) (\<lambda>_. drop_reservation rid)) s"
    by (simp add: release_reservation_def get meta)
  also have "\<dots> = (forget rid (lower_total (sid_of ?m) (amount_of ?m) s), Inr ())"
    using run_release_amount [OF idleD(1,2) [OF assms] good_memberD(2) [OF g]] idleD(1) [OF assms]
    by (simp add: run_try run_drop_reservation clean_def)
  finally show ?thesis using e pend by (simp add: released_def)
qed

lemma idle_released: "idle s \<Longrightarrow> idle (released rid s)"
  by (auto simp: released_def idle_forget idle_lower_total split: option.split)

text \<open>Sweeping one member releases its amount and forgets it.\<close>

definition swept1 :: "string \<Rightarrow> rview \<Rightarrow> rview" where
  "swept1 m s = forget (rid_of m) (lower_total (sid_of m) (amount_of m) s)"

lemma find_self:
  assumes "wf_index xs" "m \<in> fst ` set xs"
  shows "find (member_of (rid_of m)) (map fst xs) = Some m"
proof (cases "find (member_of (rid_of m)) (map fst xs)")
  case None
  with assms show ?thesis using find_member(2) [OF assms(1), of "rid_of m"] by force
next
  case (Some m')
  then have "m' \<in> fst ` set xs" "rid_of m' = rid_of m" using find_member(1) [OF assms(1)] by auto
  moreover have "p \<in> set xs \<Longrightarrow> q \<in> set xs \<Longrightarrow> rid_of (fst p) = rid_of (fst q) \<Longrightarrow> fst p = fst q"
    for p q
    using assms(1) by (auto simp: wf_index_def distinct_map inj_on_def)
  ultimately have "m' = m" using assms(2) by fastforce
  with Some show ?thesis by simp
qed

lemma run_sweep_member:
  assumes "idle s" "m \<in> fst ` set (index s)"
  shows "run view_redis (sweep_member m) s = (swept1 m s, Inr ())"
proof -
  have g: "good_member m" using assms idleD(3) [OF assms(1)] by (auto simp: wf_index_def)
  let ?t = "lower_total (sid_of m) (amount_of m) s"
  have "run view_redis (release_amount (sid_of m) (amt_of m)) s = (?t, Inr ())"
    by (rule run_release_amount [OF idleD(1,2) [OF assms(1)] good_memberD(2) [OF g]])
  then have "run view_redis (sweep_member m) s =
      (z_remove expiry_index_key m (del_key (reservation_meta_key (rid_of m)) ?t), Inr ())"
    using idleD(1) [OF assms(1)]
    by (simp add: sweep_member_def good_memberD(1) [OF g] run_try run_simps clean_def)
  moreover have "find (member_of (rid_of m)) (map fst (index s)) = Some m"
    by (rule find_self [OF idleD(3) [OF assms(1)] assms(2)])
  ultimately show ?thesis by (simp add: swept1_def forget_def Let_def)
qed

lemma idle_swept1: "idle s \<Longrightarrow> idle (swept1 m s)"
  by (simp add: swept1_def idle_forget idle_lower_total)

lemma swept1_frame [simp]:
  "clock (swept1 m s) = clock s" "uuids (swept1 m s) = uuids s"
  by (simp_all add: swept1_def)

lemma set_index_swept1:
  "idle s \<Longrightarrow> set (index (swept1 m s)) = {p \<in> set (index s). rid_of (fst p) \<noteq> rid_of m}"
  by (simp add: swept1_def set_index_forget idle_def)

lemma total_swept1:
  "idle s \<Longrightarrow> total (swept1 m s) =
     (total s)(sid_of m := map_option (\<lambda>t. max 0 (t - amount_of m)) (total s (sid_of m)))"
  by (simp add: swept1_def total_lower_total idle_def)

lemma index_swept1_rest:
  assumes "idle s" "set (m # ms) \<subseteq> fst ` set (index s)" "distinct (map rid_of (m # ms))"
  shows "set ms \<subseteq> fst ` set (index (swept1 m s))"
proof
  fix x assume x: "x \<in> set ms"
  then obtain p where "p \<in> set (index s)" "fst p = x" using assms(2) by auto
  moreover have "rid_of x \<noteq> rid_of m"
    using x assms(3) by (metis distinct.simps(2) image_eqI list.map(2) list.set_map)
  ultimately show "x \<in> fst ` set (index (swept1 m s))"
    unfolding set_index_swept1 [OF assms(1)] by auto
qed

lemma run_sweep_members:
  assumes "idle s" "set ms \<subseteq> fst ` set (index s)" "distinct (map rid_of ms)"
  shows "run view_redis (sweep_members ms) s = (fold swept1 ms s, Inr ())"
  using assms
proof (induction ms arbitrary: s)
  case Nil
  then show ?case by simp
next
  case (Cons m ms)
  then show ?case
    using Cons.IH [OF idle_swept1 [OF Cons.prems(1)] index_swept1_rest [OF Cons.prems]]
    by (simp add: run_try run_sweep_member)
qed

text \<open>The members due at a time, and the state after they are swept.\<close>

definition due :: "int \<Rightarrow> rview \<Rightarrow> string list" where
  "due now s = map fst (filter (\<lambda>p. 0 \<le> snd p \<and> snd p \<le> unix now) (index s))"

definition swept :: "int \<Rightarrow> rview \<Rightarrow> rview" where
  "swept now s = fold swept1 (due now s) s"

lemma due_members: "set (due now s) \<subseteq> fst ` set (index s)"
  by (auto simp: due_def)

lemma due_distinct: "wf_index (index s) \<Longrightarrow> distinct (map rid_of (due now s))"
  by (simp add: wf_index_def due_def distinct_map_filter comp_def)

theorem run_sweep_expired:
  assumes "idle s"
  shows "run view_redis (sweep_expired now) s = (swept now s, Inr ())"
proof -
  have "run view_redis (sweep_expired now) s = run view_redis (sweep_members (due now s)) s"
    using idleD(1) [OF assms]
    by (simp add: sweep_expired_def run_simps clean_def due_def index_def)
  then show ?thesis
    using run_sweep_members [OF assms due_members due_distinct] idleD(3) [OF assms]
    by (simp add: swept_def)
qed

lemma fold_swept1:
  assumes "idle s"
  shows "idle (fold swept1 ms s) \<and> clock (fold swept1 ms s) = clock s \<and>
    uuids (fold swept1 ms s) = uuids s \<and>
    set (index (fold swept1 ms s)) = {p \<in> set (index s). rid_of (fst p) \<notin> rid_of ` set ms}"
  using assms
proof (induction ms arbitrary: s)
  case (Cons m ms)
  from Cons.IH [OF idle_swept1 [OF Cons.prems]] show ?case
    by (auto simp: set_index_swept1 [OF Cons.prems])
qed simp

lemma idle_swept: "idle s \<Longrightarrow> idle (swept now s)"
  and swept_frame [simp]: "idle s \<Longrightarrow> clock (swept now s) = clock s"
    "idle s \<Longrightarrow> uuids (swept now s) = uuids s"
  using fold_swept1 by (simp_all add: swept_def)

text \<open>Exactly the entries due are gone.\<close>

lemma set_index_swept:
  assumes "idle s"
  shows "set (index (swept now s)) = {p \<in> set (index s). \<not> (0 \<le> snd p \<and> snd p \<le> unix now)}"
proof -
  have rid: "p \<in> set (index s) \<Longrightarrow> rid_of (fst p) \<in> rid_of ` set (due now s) \<longleftrightarrow>
      0 \<le> snd p \<and> snd p \<le> unix now" for p
  proof
    assume p: "p \<in> set (index s)" and "rid_of (fst p) \<in> rid_of ` set (due now s)"
    then obtain q where "q \<in> set (index s)" "0 \<le> snd q \<and> snd q \<le> unix now"
        "rid_of (fst q) = rid_of (fst p)"
      by (auto simp: due_def)
    moreover have "inj_on (rid_of \<circ> fst) (set (index s))"
      using idleD(3) [OF assms] by (simp add: wf_index_def distinct_map)
    ultimately show "0 \<le> snd p \<and> snd p \<le> unix now" using p by (auto simp: inj_on_def)
  qed (force simp: due_def)
  then show ?thesis
    using fold_swept1 [OF assms, of "due now s"] by (auto simp: swept_def)
qed

text \<open>
  A sweep takes from each aggregate what was due in its session, and never goes below zero.
\<close>

definition due_amount :: "int \<Rightarrow> rview \<Rightarrow> string \<Rightarrow> int" where
  "due_amount now s sid = (\<Sum>m \<leftarrow> due now s. if sid_of m = sid then amount_of m else 0)"

lemma total_nonneg: "totals_ok s \<Longrightarrow> total s sid = Some t \<Longrightarrow> 0 \<le> t"
  by (force simp: total_def totals_ok_def split: option.splits)

lemma total_fold_swept1:
  assumes "idle s" "\<forall>m \<in> set ms. 0 \<le> amount_of m"
  shows "total (fold swept1 ms s) sid =
    map_option (\<lambda>t. max 0 (t - (\<Sum>m \<leftarrow> ms. if sid_of m = sid then amount_of m else 0))) (total s sid)"
  using assms
proof (induction ms arbitrary: s)
  case Nil
  then show ?case
    using total_nonneg [OF idleD(2) [OF Nil.prems(1)]] by (cases "total s sid") auto
next
  case (Cons m ms)
  have nn: "0 \<le> (\<Sum>m \<leftarrow> ms. if sid_of m = sid then amount_of m else 0)"
    using Cons.prems(2) by (intro sum_list_nonneg) auto
  show ?case
    using Cons.IH [OF idle_swept1 [OF Cons.prems(1)]] Cons.prems nn
    by (cases "total s sid") (auto simp: total_swept1 max_def)
qed

lemma total_swept:
  assumes "idle s"
  shows "total (swept now s) sid = map_option (\<lambda>t. max 0 (t - due_amount now s sid)) (total s sid)"
proof -
  have "\<forall>m \<in> set (due now s). 0 \<le> amount_of m"
    using idleD(3) [OF assms] due_members [of now s]
    by (fastforce simp: wf_index_def dest: good_memberD(3))
  then show ?thesis using total_fold_swept1 [OF assms] by (simp add: swept_def due_amount_def)
qed

section \<open>Reserving\<close>

text \<open>The identifier the next reservation gets, and the state once it is written.\<close>

definition next_rid :: "rview \<Rightarrow> string" where
  "next_rid s = ''res_'' @ uuids s 0"

definition fresh :: "rview \<Rightarrow> bool" where
  "fresh s \<longleftrightarrow> CHR ''|'' \<notin> set (uuids s 0) \<and> next_rid s \<notin> (rid_of \<circ> fst) ` set (index s)"

definition reserved ::
    "string \<Rightarrow> string \<Rightarrow> string \<Rightarrow> int \<Rightarrow> int \<Rightarrow> int \<Rightarrow> rview \<Rightarrow> rview" where
  "reserved sid idem amt next ttl agg s =
     fold pipe1 (reserve_tx (next_rid s) sid idem amt next ttl agg (clock s))
       (s\<lparr>uuids := (\<lambda>n. uuids s (Suc n))\<rparr>)"

definition current_total :: "rview \<Rightarrow> string \<Rightarrow> int" where
  "current_total s sid = (case total s sid of None \<Rightarrow> 0 | Some t \<Rightarrow> t)"

lemma run_reserve_body:
  assumes "clean s" "totals_ok s" "idem_key sid key = Inr idem"
  shows "run view_redis (with_lock sid (reserve_body sid idem amt a maxTotal pre agg)) s =
    (let next = current_total s sid + a in
     if maxTotal < next then (s, Inl budget_denied)
     else (reserved sid idem amt next (ttl_seconds pre) (aggregate_ttl agg) s, Inr (next_rid s)))"
proof -
  let ?s = "lock_held sid s" and ?next = "current_total s sid + a"
  let ?res = "\<lambda>s. reserved sid idem amt ?next (ttl_seconds pre) (aggregate_ttl agg) s"
  note idem = idem_key_distinct [OF assms(3)]
  have fl: "faults ?s = []" using assms(1) by (simp add: lock_held_def clean_def)
  have kv: "kv ?s (session_key sid) = kv s (session_key sid)" by (simp add: lock_held_def)
  have uu: "next_rid ?s = next_rid s" "uuids ?s = uuids s" "clock ?s = clock s"
    by (simp_all add: lock_held_def next_rid_def)
  have str: "set_string ''0'' = Some 0" by (simp add: set_string_def parse_nat_def digit_val_def)
  have body: "run view_redis (reserve_body sid idem amt a maxTotal pre agg) ?s =
      (if maxTotal < ?next then (?s, Inl budget_denied) else (?res ?s, Inr (next_rid s)))"
    using fl kv assms(2) str
    by (cases "kv s (session_key sid)")
       (force simp: reserve_body_def run_simps current_total_def total_def totals_ok_def
         reserved_def next_rid_def uu Let_def)+
  have "del_key (lock_key sid) ?s = s"
    using assms(1) by (intro rview_eqI ext) (auto simp: lock_held_def clean_def)
  moreover have "del_key (lock_key sid) (?res ?s) = ?res s"
    using assms(1) idem(2) [of sid]
    by (intro rview_eqI ext) (auto simp: reserved_def reserve_tx_def lock_held_def clean_def next_rid_def)
  moreover have "faults (?res ?s) = []" using fl by (simp add: reserved_def reserve_tx_def)
  ultimately show ?thesis
    using run_with_lock [OF assms(1) body [THEN trans]] fl body
    by (cases "maxTotal < ?next") (auto simp: Let_def intro!: run_with_lock [OF assms(1), THEN trans])
qed

text \<open>What a reservation answers on an idle, swept state.\<close>

definition live_reservation :: "rview \<Rightarrow> string \<Rightarrow> string option" where
  "live_reservation s idem =
    (case kv s idem of None \<Rightarrow> None | Some (v, _) \<Rightarrow> if v = '''' then None else Some v)"

definition reserve_outcome ::
    "string \<Rightarrow> string \<Rightarrow> string \<Rightarrow> string \<Rightarrow> int \<Rightarrow> int \<Rightarrow> rview \<Rightarrow> rview \<times> string res" where
  "reserve_outcome sid key amt cap pre agg s =
    (case idem_key sid key of Inl e \<Rightarrow> (s, Inl e) | Inr idem \<Rightarrow>
     case positive_amount ''amountAtomic'' amt of Inl e \<Rightarrow> (s, Inl e) | Inr a \<Rightarrow>
     case positive_amount ''maxTotalSpend'' cap of Inl e \<Rightarrow> (s, Inl e) | Inr maxTotal \<Rightarrow>
     case live_reservation s idem of
       Some existing \<Rightarrow> (s, Inr existing)
     | None \<Rightarrow>
         (let next = current_total s sid + a in
          if maxTotal < next then (s, Inl budget_denied)
          else (reserved sid idem amt next (ttl_seconds pre) (aggregate_ttl agg) s, Inr (next_rid s))))"

lemma run_reserve_checked:
  assumes "clean s" "totals_ok s"
  shows "run view_redis (reserve_checked sid key amt cap pre agg) s
           = reserve_outcome sid key amt cap pre agg s"
proof (cases "idem_key sid key")
  case (Inr idem)
  have get: "v_get idem s = (s, case kv s idem of None \<Rightarrow> Inl Redis_Nil | Some (v, _) \<Rightarrow> Inr v)"
    using assms(1) by (auto simp: run_simps clean_def split: option.split)
  show ?thesis
    using run_reserve_body [OF assms Inr] Inr
    by (auto simp: reserve_checked_def reserve_outcome_def get live_reservation_def
        split: sum.split option.split)
qed (simp add: reserve_checked_def reserve_outcome_def)

theorem run_reserve:
  assumes "idle s"
  shows "run view_redis (reserve sid key amt cap pre agg) s
           = reserve_outcome sid key amt cap pre agg (swept (clock s) s)"
proof -
  have "clean (swept (clock s) s)" "totals_ok (swept (clock s) s)"
    using idle_swept [OF assms] idleD by blast+
  then show ?thesis
    by (simp add: reserve_def v_now_def run_try run_sweep_expired [OF assms] run_reserve_checked)
qed

section \<open>What a successful reservation changes\<close>

lemma positive_amount_Inr:
  "positive_amount w s = Inr a \<longleftrightarrow> set_string s = Some a \<and> 0 < a"
  by (auto simp: positive_amount_def split: option.splits)

lemma ttl_seconds_pos [simp]: "0 < ttl_seconds d" "0 \<le> ttl_seconds d"
  by (simp_all add: ttl_seconds_def Let_def)

lemma aggregate_ttl_pos [simp]: "0 < aggregate_ttl d"
  by (simp add: aggregate_ttl_def hour_def minute_def second_def)

lemma second_pos [simp]: "0 < second"
  by (simp add: second_def)

lemma reserved_frame [simp]:
  "faults (reserved sid idem amt n ttl agg s) = faults s"
  "clock (reserved sid idem amt n ttl agg s) = clock s"
  "uuids (reserved sid idem amt n ttl agg s) = (\<lambda>k. uuids s (Suc k))"
  by (simp_all add: reserved_def reserve_tx_def)

lemma reserved_kv:
  "kv (reserved sid idem amt n ttl agg s) =
     (kv s)(session_key sid \<mapsto> (show_int n, if 0 < agg then Some (clock s + agg) else None),
            idem \<mapsto> (next_rid s, if 0 < ttl * second then Some (clock s + ttl * second) else None),
            reservation_meta_key (next_rid s) \<mapsto>
              (sid @ ''|'' @ amt, if 0 < ttl * 2 * second then Some (clock s + ttl * 2 * second) else None))"
  by (simp add: reserved_def reserve_tx_def)

definition new_member :: "rview \<Rightarrow> string \<Rightarrow> string \<Rightarrow> string" where
  "new_member s sid amt = expiry_member (next_rid s) sid amt"

lemma reserved_zset:
  "zset (reserved sid idem amt n ttl agg s) =
     (zset s)(expiry_index_key := z_insert (new_member s sid amt, unix (clock s + ttl * second))
        (z_without (new_member s sid amt) (index s)))"
  by (simp add: reserved_def reserve_tx_def index_def new_member_def)

lemma next_rid_no_bar: "fresh s \<Longrightarrow> CHR ''|'' \<notin> set (next_rid s)"
  by (simp add: fresh_def next_rid_def)

lemma new_member:
  assumes "fresh s" "CHR ''|'' \<notin> set sid" "set_string amt = Some a" "0 < a"
  shows "good_member (new_member s sid amt)" "rid_of (new_member s sid amt) = next_rid s"
    "sid_of (new_member s sid amt) = sid" "amount_of (new_member s sid amt) = a"
    "amt_of (new_member s sid amt) = amt"
  using assms next_rid_no_bar [OF assms(1)]
  by (auto simp: new_member_def expiry_member_parts amount_of_def good_member_def)

text \<open>
  The four writes of the transaction, read back: the aggregate, the idempotency key, the
  metadata and the index entry; nothing else moves.
\<close>

lemma reserved_effect:
  fixes agg ttl :: int
  assumes "idle s" "fresh s" "CHR ''|'' \<notin> set sid" "set_string amt = Some a" "0 < a"
    and "idem_key sid key = Inr idem" "0 \<le> n"
  defines "t \<equiv> reserved sid idem amt n ttl agg s"
  shows "total t = (total s)(sid \<mapsto> n)"
    and "index t = z_insert (new_member s sid amt, unix (clock s + ttl * second)) (index s)"
    and "pending_of (index t) =
           (pending_of (index s))(next_rid s \<mapsto> (sid, a, unix (clock s + ttl * second)))"
    and "held_of (index t) x = held_of (index s) x + (if sid = x then a else 0)"
    and "idle t"
proof -
  note m = new_member [OF assms(2-5)]
  note idem = idem_key_distinct [OF assms(6)] idem_key_distinct [OF assms(6), symmetric]
  have fr: "rid_of (new_member s sid amt) \<notin> (rid_of \<circ> fst) ` set (index s)"
    using assms(2) m(2) by (simp add: fresh_def)
  show tot: "total t = (total s)(sid \<mapsto> n)"
    by (intro ext) (auto simp: t_def total_def reserved_kv idem)
  show idx: "index t = z_insert (new_member s sid amt, unix (clock s + ttl * second)) (index s)"
    by (simp add: t_def index_def reserved_zset z_without_fresh [OF fr [unfolded index_def]])
  show "pending_of (index t) =
      (pending_of (index s))(next_rid s \<mapsto> (sid, a, unix (clock s + ttl * second)))"
    using pending_of_insert [OF idleD(3) [OF assms(1)] m(1) fr] m by (simp add: idx)
  show "held_of (index t) x = held_of (index s) x + (if sid = x then a else 0)"
    using m by (auto simp: idx held_of_insert)
  have "clean t"
    using idleD(1) [OF assms(1)] by (auto simp: t_def clean_def reserved_kv reserved_zset idem)
  moreover have "totals_ok t"
    using idleD(2) [OF assms(1)] assms(7)
    by (auto simp: t_def totals_ok_def reserved_kv idem)
  moreover have "wf_index (index t)"
    unfolding idx by (rule wf_index_insert [OF idleD(3) [OF assms(1)] m(1) fr])
  moreover have "meta_ok t"
    unfolding meta_ok_def idx using idleD(4) [OF assms(1)] m
    by (auto simp: meta_ok_def t_def reserved_kv idem split: if_splits)
  ultimately show "idle t" by (simp add: idle_def)
qed

end
