(* ===== verification/Ledger.thy ===== *)
theory Ledger
  imports Reservation_Effects
begin

text \<open>
  The contract of the reservation service. A ledger records, per session, what has been spent
  for good (committed) and which reservations are pending; its operations are what the
  methods of \<open>Service\<close> promise. The Redis programs refine it as long as the aggregate key
  outlives the session (\<open>matches\<close>): the aggregate is then exactly what was spent plus what
  is on hold, so a session never exceeds its cap, whatever sequence of calls and pauses.
\<close>

section \<open>The abstract ledger\<close>

record ledger =
  spent :: "string \<Rightarrow> int"
  pending :: "string \<Rightarrow> (string \<times> int \<times> int) option"

text \<open>A pending reservation is its session, its amount and the second it falls due.\<close>

definition on_hold :: "(string \<Rightarrow> (string \<times> int \<times> int) option) \<Rightarrow> string \<Rightarrow> int" where
  "on_hold P sid =
    (\<Sum>rid \<in> dom P. if fst (the (P rid)) = sid then fst (snd (the (P rid))) else 0)"

definition balance :: "ledger \<Rightarrow> string \<Rightarrow> int" where
  "balance l sid = spent l sid + on_hold (pending l) sid"

definition l_reserve ::
    "int \<Rightarrow> string \<Rightarrow> string \<Rightarrow> int \<Rightarrow> int \<Rightarrow> ledger \<Rightarrow> ledger option" where
  "l_reserve cap rid sid a due_at l =
    (if cap < balance l sid + a then None
     else Some (l\<lparr>pending := (pending l)(rid \<mapsto> (sid, a, due_at))\<rparr>))"

definition l_commit :: "string \<Rightarrow> ledger \<Rightarrow> ledger" where
  "l_commit rid l =
    (case pending l rid of
       None \<Rightarrow> l
     | Some (sid, a, _) \<Rightarrow>
         l\<lparr>spent := (spent l)(sid := spent l sid + a), pending := (pending l)(rid := None)\<rparr>)"

definition l_release :: "string \<Rightarrow> ledger \<Rightarrow> ledger" where
  "l_release rid l = l\<lparr>pending := (pending l)(rid := None)\<rparr>"

definition l_sweep :: "int \<Rightarrow> ledger \<Rightarrow> ledger" where
  "l_sweep now l =
     l\<lparr>pending := (\<lambda>rid. case pending l rid of
         Some (sid, a, t) \<Rightarrow> if t \<le> now then None else Some (sid, a, t)
       | None \<Rightarrow> None)\<rparr>"

section \<open>Ledger arithmetic\<close>

definition ledger_ok :: "ledger \<Rightarrow> bool" where
  "ledger_ok l \<longleftrightarrow> finite (dom (pending l)) \<and> (\<forall>sid. 0 \<le> spent l sid) \<and>
     (\<forall>e \<in> ran (pending l). 0 < fst (snd e))"

lemma ran_upd: "ran (m(k \<mapsto> v)) \<subseteq> insert v (ran m)" "ran (m(k := None)) \<subseteq> ran m"
  by (auto simp: ran_def)

lemma on_hold_upd:
  assumes "finite (dom P)" "P rid = None"
  shows "on_hold (P(rid \<mapsto> e)) sid = on_hold P sid + (if fst e = sid then fst (snd e) else 0)"
proof -
  have "rid \<notin> dom P" using assms(2) by blast
  then show ?thesis using assms(1)
    by (auto simp: on_hold_def intro!: sum.cong)
qed

lemma on_hold_drop:
  assumes "finite (dom P)" "P rid = Some e"
  shows "on_hold (P(rid := None)) sid = on_hold P sid - (if fst e = sid then fst (snd e) else 0)"
  using on_hold_upd [of "P(rid := None)" rid e sid] assms by (simp add: fun_upd_idem)

lemma on_hold_nonneg: "\<forall>e \<in> ran P. 0 < fst (snd e) \<Longrightarrow> 0 \<le> on_hold P sid"
  unfolding on_hold_def by (rule sum_nonneg) (force simp: ran_def)

lemma on_hold_le:
  assumes "P \<subseteq>\<^sub>m Q" "finite (dom Q)" "\<forall>e \<in> ran Q. 0 < fst (snd e)"
  shows "on_hold P sid \<le> on_hold Q sid"
proof -
  have "on_hold P sid = (\<Sum>rid \<in> dom P. if fst (the (Q rid)) = sid then fst (snd (the (Q rid))) else 0)"
    unfolding on_hold_def using assms(1) by (intro sum.cong) (auto simp: map_le_def)
  also have "\<dots> \<le> on_hold Q sid"
    unfolding on_hold_def using assms by (intro sum_mono2) (auto simp: map_le_implies_dom_le, force simp: ran_def)
  finally show ?thesis .
qed

lemma balance_commit: "ledger_ok l \<Longrightarrow> balance (l_commit rid l) = balance l"
  by (rule ext, cases "pending l rid")
     (auto simp: balance_def l_commit_def ledger_ok_def on_hold_drop)

lemma ledger_ok_commit: "ledger_ok l \<Longrightarrow> ledger_ok (l_commit rid l)"
  using ran_upd(2) [of "pending l" rid]
  by (auto simp: ledger_ok_def l_commit_def ranI order_less_imp_le split: option.split)
     (metis ranI fst_conv snd_conv order_less_imp_le add_nonneg_nonneg)

lemma ledger_ok_release: "ledger_ok l \<Longrightarrow> ledger_ok (l_release rid l)"
  using ran_upd(2) [of "pending l" rid] by (auto simp: ledger_ok_def l_release_def)

lemma sweep_le: "pending (l_sweep now l) \<subseteq>\<^sub>m pending l"
  by (auto simp: l_sweep_def map_le_def split: option.splits if_splits)

lemma ledger_ok_sweep:
  assumes "ledger_ok l"
  shows "ledger_ok (l_sweep now l)"
proof -
  have "finite (dom (pending (l_sweep now l)))"
    using assms by (intro finite_subset [OF map_le_implies_dom_le [OF sweep_le]]) (simp add: ledger_ok_def)
  moreover have "ran (pending (l_sweep now l)) \<subseteq> ran (pending l)"
    using sweep_le [of now l] by (force simp: map_le_def ran_def dom_def)
  ultimately show ?thesis using assms by (auto simp: ledger_ok_def) (simp add: l_sweep_def)
qed

lemma l_reserve_Some_iff:
  "l_reserve cap rid sid a t l = Some l' \<longleftrightarrow>
     balance l sid + a \<le> cap \<and> l' = l\<lparr>pending := (pending l)(rid \<mapsto> (sid, a, t))\<rparr>"
  by (auto simp: l_reserve_def)

lemma ledger_ok_reserve:
  "ledger_ok l \<Longrightarrow> 0 < a \<Longrightarrow> l_reserve cap rid sid a t l = Some l' \<Longrightarrow> ledger_ok l'"
  using ran_upd(1) [of "pending l" rid "(sid, a, t)"] by (auto simp: ledger_ok_def l_reserve_Some_iff)

lemma balance_reserve:
  "ledger_ok l \<Longrightarrow> pending l rid = None \<Longrightarrow> l_reserve cap rid sid a t l = Some l' \<Longrightarrow>
     balance l' x = balance l x + (if sid = x then a else 0)"
  by (auto simp: ledger_ok_def l_reserve_Some_iff balance_def on_hold_upd)

lemma balance_release:
  "ledger_ok l \<Longrightarrow> balance (l_release rid l) sid = balance l sid -
     (case pending l rid of None \<Rightarrow> 0 | Some (s, a, _) \<Rightarrow> if s = sid then a else 0)"
  by (cases "pending l rid")
     (auto simp: balance_def l_release_def ledger_ok_def on_hold_drop fun_upd_idem)

lemma balance_sweep_le: "ledger_ok l \<Longrightarrow> balance (l_sweep now l) sid \<le> balance l sid"
  using on_hold_le [OF sweep_le] by (auto simp: balance_def ledger_ok_def) (simp add: l_sweep_def)

lemma balance_nonneg: "ledger_ok l \<Longrightarrow> 0 \<le> balance l sid"
  using on_hold_nonneg [of "pending l" sid] by (simp add: balance_def ledger_ok_def)

section \<open>What a Redis state says about the ledger\<close>

text \<open>
  \<open>hz sid\<close> is when the session stops accepting reservations. While it is open the aggregate
  is the ledger's balance, and its key does not expire before that moment.
\<close>

definition genuine :: "rview \<Rightarrow> bool" where
  "genuine s \<longleftrightarrow> inj (uuids s) \<and>
     (\<forall>n. CHR ''|'' \<notin> set (uuids s n) \<and> ''res_'' @ uuids s n \<notin> (rid_of \<circ> fst) ` set (index s))"

definition keeps :: "(string \<Rightarrow> int) \<Rightarrow> rview \<Rightarrow> bool" where
  "keeps hz s \<longleftrightarrow> (\<forall>sid v d. clock s < hz sid \<longrightarrow>
     kv s (session_key sid) = Some (v, Some d) \<longrightarrow> hz sid \<le> d)"

definition matches :: "(string \<Rightarrow> int) \<Rightarrow> rview \<Rightarrow> ledger \<Rightarrow> bool" where
  "matches hz s l \<longleftrightarrow> idle s \<and> genuine s \<and> keeps hz s \<and> ledger_ok l \<and> 0 \<le> clock s \<and>
     (\<forall>p \<in> set (index s). 0 \<le> snd p) \<and> pending l = pending_of (index s) \<and>
     (\<forall>sid. clock s < hz sid \<longrightarrow> current_total s sid = balance l sid)"

lemma matchesD:
  assumes "matches hz s l"
  shows "idle s" "genuine s" "keeps hz s" "ledger_ok l" "0 \<le> clock s"
    "p \<in> set (index s) \<Longrightarrow> 0 \<le> snd p" "pending l = pending_of (index s)"
    "clock s < hz sid \<Longrightarrow> current_total s sid = balance l sid"
  using assms by (simp_all add: matches_def)

lemma genuine_fresh: "genuine s \<Longrightarrow> fresh s"
  by (simp add: genuine_def fresh_def next_rid_def)

lemma genuine_mono:
  "genuine s \<Longrightarrow> uuids t = uuids s \<Longrightarrow> set (index t) \<subseteq> set (index s) \<Longrightarrow> genuine t"
  by (auto simp: genuine_def)

lemma keeps_lower_total: "keeps hz s \<Longrightarrow> keeps hz (lower_total sid a s)"
  by (auto simp: keeps_def lower_total_def split: option.splits if_splits)

lemma keeps_forget: "keeps hz s \<Longrightarrow> keeps hz (forget rid s)"
  by (simp add: keeps_def)

lemma current_total_lower:
  assumes "totals_ok s" "0 < a" "x = sid \<Longrightarrow> a \<le> current_total s sid"
  shows "current_total (lower_total sid a s) x = current_total s x - (if sid = x then a else 0)"
  using assms by (auto simp: current_total_def total_lower_total split: option.splits)

lemma current_total_forget [simp]: "current_total (forget rid s) = current_total s"
  by (rule ext) (simp add: current_total_def)

section \<open>The programs implement the ledger\<close>

lemma matches_commit:
  assumes "matches hz s l"
  shows "matches hz (forget rid s) (l_commit rid l)"
  unfolding matches_def
proof (intro conjI)
  note m = matchesD [OF assms]
  have wf: "wf_index (index s)" using idleD(3) [OF m(1)] .
  have sub: "set (index (forget rid s)) \<subseteq> set (index s)" by (auto simp: set_index_forget [OF wf])
  show "idle (forget rid s)" "ledger_ok (l_commit rid l)" "keeps hz (forget rid s)"
    using m idle_forget ledger_ok_commit keeps_forget by auto
  show "genuine (forget rid s)" by (rule genuine_mono [OF m(2) _ sub]) simp
  show "0 \<le> clock (forget rid s)" using m(5) by simp
  show "\<forall>p \<in> set (index (forget rid s)). 0 \<le> snd p" using m(6) sub by auto
  show "pending (l_commit rid l) = pending_of (index (forget rid s))"
    unfolding pending_forget [OF wf]
    using m(7) by (auto simp: l_commit_def fun_upd_idem split: option.split)
  show "\<forall>sid. clock (forget rid s) < hz sid \<longrightarrow>
      current_total (forget rid s) sid = balance (l_commit rid l) sid"
    using m(8) by (simp add: balance_commit [OF m(4)])
qed

lemma matches_drop:
  assumes "matches hz s l" "pending l rid = Some (sid, a, t)"
  shows "matches hz (forget rid (lower_total sid a s)) (l_release rid l)"
  unfolding matches_def
proof (intro conjI)
  note m = matchesD [OF assms(1)]
  let ?s = "lower_total sid a s"
  have wf: "wf_index (index ?s)" using idleD(3) [OF m(1)] by simp
  have sub: "set (index (forget rid ?s)) \<subseteq> set (index s)" by (auto simp: set_index_forget [OF wf])
  show "idle (forget rid ?s)" "ledger_ok (l_release rid l)" "keeps hz (forget rid ?s)"
    using m idle_forget idle_lower_total ledger_ok_release keeps_forget keeps_lower_total by auto
  show "genuine (forget rid ?s)" by (rule genuine_mono [OF m(2) _ sub]) simp
  show "0 \<le> clock (forget rid ?s)" using m(5) by simp
  show "\<forall>p \<in> set (index (forget rid ?s)). 0 \<le> snd p" using m(6) sub by auto
  show "pending (l_release rid l) = pending_of (index (forget rid ?s))"
    unfolding pending_forget [OF wf] using m(7) by (simp add: l_release_def)
  have a: "0 < a" using assms(2) m(4) by (force simp: ledger_ok_def ran_def)
  have "a \<le> balance l sid"
    using balance_release [OF m(4), of rid sid] balance_nonneg [OF ledger_ok_release [OF m(4)], of rid sid] assms(2)
    by simp
  then have "clock s < hz x \<Longrightarrow>
      current_total ?s x = current_total s x - (if sid = x then a else 0)" for x
    using m(8) by (intro current_total_lower [OF idleD(2) [OF m(1)] a]) simp
  then show "\<forall>x. clock (forget rid ?s) < hz x \<longrightarrow>
      current_total (forget rid ?s) x = balance (l_release rid l) x"
    using m(8) assms(2) by (auto simp: balance_release [OF m(4)])
qed

lemma matches_release:
  assumes "matches hz s l"
  shows "matches hz (released rid s)
    (if kv s (reservation_meta_key rid) = None then l else l_release rid l)"
proof (cases "kv s (reservation_meta_key rid)")
  case None
  then show ?thesis using assms by (simp add: released_def)
next
  case (Some e)
  show ?thesis
  proof (cases "pending l rid")
    case None
    then have "l_release rid l = l" by (simp add: l_release_def fun_upd_idem)
    with None show ?thesis using assms matchesD(7) [OF assms]
      by (simp add: released_def split: option.split)
  next
    case (Some f)
    obtain sid a t where f: "f = (sid, a, t)" by (cases f) auto
    then show ?thesis using \<open>kv s (reservation_meta_key rid) = Some e\<close> Some
        matches_drop [OF assms, of rid sid a t] matchesD(7) [OF assms]
      by (simp add: released_def)
  qed
qed

lemma matches_swept1:
  assumes "matches hz s l" "m \<in> fst ` set (index s)"
  shows "matches hz (swept1 m s) (l_release (rid_of m) l)"
proof -
  obtain p where p: "p \<in> set (index s)" "fst p = m" using assms(2) by auto
  then have "pending l (rid_of m) = Some (sid_of m, amount_of m, snd p)"
    using pending_of_Some_iff [OF idleD(3) [OF matchesD(1) [OF assms(1)]]]
    by (auto simp: matchesD(7) [OF assms(1)] entry_def)
  then show ?thesis unfolding swept1_def by (rule matches_drop [OF assms(1)])
qed

lemma matches_fold_swept1:
  assumes "matches hz s l" "set ms \<subseteq> fst ` set (index s)" "distinct (map rid_of ms)"
  shows "matches hz (fold swept1 ms s) (fold (\<lambda>m. l_release (rid_of m)) ms l)"
  using assms
proof (induction ms arbitrary: s l)
  case (Cons m ms)
  have "set ms \<subseteq> fst ` set (index (swept1 m s))"
    by (rule index_swept1_rest [OF matchesD(1) [OF Cons.prems(1)] Cons.prems(2,3)])
  then show ?case
    using Cons.IH [OF matches_swept1 [OF Cons.prems(1)]] Cons.prems by simp
qed simp

lemma fold_release: "spent (fold (\<lambda>m. l_release (rid_of m)) ms l) = spent l"
  by (induction ms arbitrary: l) (simp_all add: l_release_def)

lemma pending_sweep_Some_iff:
  "pending (l_sweep now l) rid = Some e \<longleftrightarrow> pending l rid = Some e \<and> now < snd (snd e)"
  by (cases e) (auto simp: l_sweep_def split: option.splits if_splits)

lemma pending_swept:
  assumes "matches hz s l"
  shows "pending_of (index (swept now s)) = pending (l_sweep (unix now) l)"
proof
  fix rid
  note m = matchesD [OF assms]
  have "pending_of (index (swept now s)) rid = Some e \<longleftrightarrow> pending (l_sweep (unix now) l) rid = Some e" for e
  proof -
    have "pending_of (index (swept now s)) rid = Some e \<longleftrightarrow>
        (\<exists>p \<in> set (index s). entry p = (rid, e) \<and> unix now < snd p)"
      unfolding pending_of_Some_iff [OF idleD(3) [OF idle_swept [OF m(1)]]] set_index_swept [OF m(1)]
      using m(6) by force
    also have "\<dots> \<longleftrightarrow> pending l rid = Some e \<and> unix now < snd (snd e)"
      unfolding m(7) pending_of_Some_iff [OF idleD(3) [OF m(1)]] by (auto simp: entry_def)
    finally show ?thesis by (simp only: pending_sweep_Some_iff)
  qed
  then show "pending_of (index (swept now s)) rid = pending (l_sweep (unix now) l) rid"
    by (metis not_Some_eq)
qed

lemma matches_sweep:
  assumes "matches hz s l"
  shows "matches hz (swept now s) (l_sweep (unix now) l)"
proof -
  note wf = idleD(3) [OF matchesD(1) [OF assms]]
  let ?l = "fold (\<lambda>m. l_release (rid_of m)) (due now s) l"
  have m: "matches hz (swept now s) ?l"
    unfolding swept_def by (rule matches_fold_swept1 [OF assms due_members due_distinct [OF wf]])
  have "?l = l_sweep (unix now) l"
    using matchesD(7) [OF m] pending_swept [OF assms, of now] fold_release [of "due now s" l]
    by (simp add: l_sweep_def)
  with m show ?thesis by simp
qed

text \<open>A reservation within the cap enters the ledger under its fresh identifier.\<close>

lemma genuine_reserved:
  assumes "genuine s" "uuids t = (\<lambda>n. uuids s (Suc n))"
    and "fst ` set (index t) = insert m (fst ` set (index s))" "rid_of m = next_rid s"
  shows "genuine t"
proof -
  have inj: "inj (uuids s)" using assms(1) by (simp add: genuine_def)
  then have "inj (uuids t)" unfolding assms(2) by (auto simp: inj_def)
  moreover have "uuids s (Suc n) \<noteq> uuids s 0" for n
    using inj by (metis injD nat.distinct(1))
  moreover have "(rid_of \<circ> fst) ` set (index t) = insert (next_rid s) ((rid_of \<circ> fst) ` set (index s))"
    using arg_cong [OF assms(3), of "\<lambda>S. rid_of ` S"] assms(4) by (simp add: image_comp)
  ultimately show ?thesis
    using assms(1) by (auto simp: genuine_def assms(2) next_rid_def)
qed

lemma matches_reserve:
  fixes s :: rview and agg ttl :: int
  assumes "matches hz s l" "idem_key sid key = Inr idem" "CHR ''|'' \<notin> set sid"
    and "set_string amt = Some a" "0 < a" "hz sid \<le> clock s + agg" "0 < agg" "0 < ttl"
    and "n = current_total s sid + a"
  shows "pending l (next_rid s) = None"
    and "matches hz (reserved sid idem amt n ttl agg s)
          (l\<lparr>pending := (pending l)(next_rid s \<mapsto> (sid, a, unix (clock s + ttl * second)))\<rparr>)"
proof -
  note m = matchesD [OF assms(1)]
  let ?t = "reserved sid idem amt n ttl agg s" and ?e = "(sid, a, unix (clock s + ttl * second))"
  let ?l = "l\<lparr>pending := (pending l)(next_rid s \<mapsto> ?e)\<rparr>"
  have fr: "fresh s" by (rule genuine_fresh [OF m(2)])
  show none: "pending l (next_rid s) = None"
    using fr by (simp add: m(7) pending_of_None_iff fresh_def)
  have n: "0 \<le> n"
    using total_nonneg [OF idleD(2) [OF m(1)]] assms(5,9)
    by (fastforce simp: current_total_def split: option.split)
  note eff = reserved_effect [OF m(1) fr assms(3,4,5,2) n, of ttl agg]
  note mem = new_member [OF fr assms(3,4,5)]
  have sc: "0 \<le> unix (clock s + ttl * second)"
    using m(5) assms(8) by (simp add: unix_def pos_imp_zdiv_nonneg_iff second_def)
  note idem = idem_key_distinct(1) [OF assms(2)]
  show "matches hz ?t ?l"
    unfolding matches_def
  proof (intro conjI)
    show "idle ?t" by (rule eff(5))
    show "genuine ?t"
      by (rule genuine_reserved [OF m(2), of _ "new_member s sid amt"]) (simp_all add: eff(2) mem)
    show "keeps hz ?t"
      using m(3) assms(6) idem [symmetric] by (auto simp: keeps_def reserved_kv)
    show "ledger_ok ?l"
      using m(4) assms(5) ran_upd(1) [of "pending l" "next_rid s" ?e] by (auto simp: ledger_ok_def)
    show "0 \<le> clock ?t" using m(5) by simp
    show "\<forall>p \<in> set (index ?t). 0 \<le> snd p" using m(6) sc by (auto simp: eff(2))
    show "pending ?l = pending_of (index ?t)" by (simp add: eff(3) m(7))
    have "balance ?l x = balance l x + (if sid = x then a else 0)" for x
      using m(4) none by (simp add: balance_def ledger_ok_def on_hold_upd)
    moreover have "current_total ?t x = (if sid = x then n else current_total s x)" for x
      by (simp add: current_total_def eff(1))
    ultimately show "\<forall>x. clock ?t < hz x \<longrightarrow> current_total ?t x = balance ?l x"
      using m(8) assms(9) by simp
  qed
qed

text \<open>Time passes: identifiers, index and open sessions keep their meaning.\<close>

lemma pass_simps [simp]:
  "clock (pass d s) = clock s + d" "zset (pass d s) = zset s" "uuids (pass d s) = uuids s"
  "faults (pass d s) = faults s" "index (pass d s) = index s"
  by (simp_all add: pass_def index_def)

lemma kv_pass:
  "kv (pass d s) k = Some (v, e) \<longleftrightarrow>
     kv s k = Some (v, e) \<and> (\<forall>t. e = Some t \<longrightarrow> clock s + d < t)"
  by (auto simp: pass_def split: option.splits)

lemma kv_pass_None:
  "kv (pass d s) k = None \<longleftrightarrow> (\<forall>v e. kv s k = Some (v, e) \<longrightarrow> (\<exists>t. e = Some t \<and> t \<le> clock s + d))"
  by (auto simp: pass_def split: option.splits)

lemma idle_pass: "idle s \<Longrightarrow> idle (pass d s)"
  unfolding idle_def clean_def totals_ok_def meta_ok_def kv_pass kv_pass_None
  by (simp only: pass_simps simp_thms) (metis option.distinct(1))

lemma matches_pass:
  assumes "matches hz s l" "0 \<le> d"
  shows "matches hz (pass d s) l"
  unfolding matches_def
proof (intro conjI)
  note m = matchesD [OF assms(1)]
  show "idle (pass d s)" by (rule idle_pass [OF m(1)])
  show "genuine (pass d s)" using m(2) by (simp add: genuine_def)
  show "keeps hz (pass d s)" using m(3) assms(2) by (auto simp: keeps_def kv_pass)
  have "current_total (pass d s) sid = current_total s sid" if "clock s + d < hz sid" for sid
  proof -
    have "kv (pass d s) (session_key sid) = kv s (session_key sid)"
    proof (cases "kv s (session_key sid)")
      case (Some p)
      then obtain v e where e: "kv s (session_key sid) = Some (v, e)" by (cases p) auto
      moreover have "clock s + d < t" if "e = Some t" for t
      proof -
        have "clock s < hz sid" using \<open>clock s + d < hz sid\<close> assms(2) by simp
        then have "hz sid \<le> t" using m(3) e that unfolding keeps_def by blast
        with \<open>clock s + d < hz sid\<close> show ?thesis by simp
      qed
      ultimately show ?thesis by (simp add: kv_pass)
    qed (simp add: kv_pass_None)
    then show ?thesis by (simp add: current_total_def total_def)
  qed
  then show "\<forall>sid. clock (pass d s) < hz sid \<longrightarrow> current_total (pass d s) sid = balance l sid"
    using m(8) assms(2) by simp
qed (use matchesD [OF assms(1)] assms(2) in auto)

end
