(* ===== verification/Ledger_Runs.thy ===== *)
theory Ledger_Runs
  imports Ledger
begin

text \<open>
  Runs of the reservation service: any sequence of calls and pauses, on any server that keeps
  the Redis contract, simulates a run of the abstract ledger.
\<close>

section \<open>Runs of the ledger\<close>

inductive ledger_run :: "(string \<Rightarrow> int) \<Rightarrow> ledger \<Rightarrow> bool" for cap where
  lr_start: "ledger_run cap \<lparr>spent = (\<lambda>_. 0), pending = Map.empty\<rparr>"
| lr_reserve: "ledger_run cap l \<Longrightarrow> pending l rid = None \<Longrightarrow> 0 < a \<Longrightarrow>
    l_reserve (cap sid) rid sid a t l = Some l' \<Longrightarrow> ledger_run cap l'"
| lr_commit: "ledger_run cap l \<Longrightarrow> ledger_run cap (l_commit rid l)"
| lr_release: "ledger_run cap l \<Longrightarrow> ledger_run cap (l_release rid l)"
| lr_sweep: "ledger_run cap l \<Longrightarrow> ledger_run cap (l_sweep now l)"

lemma ledger_run_ok: "ledger_run cap l \<Longrightarrow> ledger_ok l"
  by (induction rule: ledger_run.induct)
     (auto intro: ledger_ok_reserve ledger_ok_commit ledger_ok_release ledger_ok_sweep,
      simp add: ledger_ok_def)

text \<open>A ledger never exceeds a session's cap.\<close>

lemma ledger_run_cap:
  assumes "ledger_run cap l" "0 \<le> cap sid"
  shows "balance l sid \<le> cap sid"
  using assms
proof (induction rule: ledger_run.induct)
  case lr_start
  then show ?case by (simp add: balance_def on_hold_def)
next
  case (lr_reserve l rid a sid' t l')
  then show ?case
    using balance_reserve [OF ledger_run_ok [OF lr_reserve.hyps(1)] lr_reserve.hyps(2,4), of sid]
    by (auto simp: l_reserve_Some_iff)
next
  case (lr_release l rid)
  have "balance (l_release rid l) sid \<le> balance l sid"
    using balance_release [OF ledger_run_ok [OF lr_release.hyps], of rid sid]
      ledger_run_ok [OF lr_release.hyps]
    by (auto simp: ledger_ok_def ran_def split: option.splits if_splits)
       (metis (no_types, lifting) fst_conv le_add_same_cancel1 order_less_imp_le snd_conv)
  then show ?case using lr_release by simp
next
  case (lr_sweep l now)
  then show ?case using balance_sweep_le [OF ledger_run_ok, of cap l now sid] by simp
qed (simp add: balance_commit [OF ledger_run_ok])

section \<open>Runs of the service\<close>

text \<open>
  The cap and the end of each session are fixed (they are columns of its row). A reservation
  call is made while its session is open, with the session's cap and an aggregate time to
  live that reaches the session's end; commits, releases and sweeps come at any time.
\<close>

definition start_view :: "rview \<Rightarrow> bool" where
  "start_view s \<longleftrightarrow> kv s = Map.empty \<and> zset s = (\<lambda>_. []) \<and> faults s = [] \<and> 0 \<le> clock s \<and>
     inj (uuids s) \<and> (\<forall>n. CHR ''|'' \<notin> set (uuids s n))"

inductive service_run ::
    "'w redis \<Rightarrow> ('w \<Rightarrow> rview) \<Rightarrow> (string \<Rightarrow> int) \<Rightarrow> (string \<Rightarrow> int) \<Rightarrow> 'w \<Rightarrow> bool"
  for R view cap hz where
  sr_start: "start_view (view w) \<Longrightarrow> service_run R view cap hz w"
| sr_reserve: "service_run R view cap hz w \<Longrightarrow>
    run R (reserve sid key amt maxTotal pre agg) w = (w', r) \<Longrightarrow> CHR ''|'' \<notin> set sid \<Longrightarrow>
    set_string maxTotal = Some (cap sid) \<Longrightarrow> hz sid \<le> clock (view w) + aggregate_ttl agg \<Longrightarrow>
    clock (view w) < hz sid \<Longrightarrow> service_run R view cap hz w'"
| sr_commit: "service_run R view cap hz w \<Longrightarrow> run R (commit_reservation rid) w = (w', r) \<Longrightarrow>
    service_run R view cap hz w'"
| sr_release: "service_run R view cap hz w \<Longrightarrow> run R (release_reservation rid) w = (w', r) \<Longrightarrow>
    service_run R view cap hz w'"
| sr_sweep: "service_run R view cap hz w \<Longrightarrow> run R (sweep_expired now) w = (w', r) \<Longrightarrow>
    service_run R view cap hz w'"
| sr_pass: "service_run R view cap hz w \<Longrightarrow> view w' = pass d (view w) \<Longrightarrow> 0 \<le> d \<Longrightarrow>
    service_run R view cap hz w'"

section \<open>Simulation\<close>

lemma start_matches:
  assumes "start_view s"
  shows "matches hz s \<lparr>spent = (\<lambda>_. 0), pending = Map.empty\<rparr>"
  using assms
  by (auto simp: matches_def start_view_def idle_def clean_def totals_ok_def wf_index_def meta_ok_def
      index_def genuine_def keeps_def ledger_ok_def pending_of_def current_total_def total_def
      balance_def on_hold_def)

text \<open>
  What \<open>Reserve\<close> does on the ledger: it sweeps, then answers an earlier reservation, refuses,
  or enters a new one; a refusal or an invalid argument changes nothing more.
\<close>

lemma reserve_simulates:
  fixes pre agg :: int
  assumes m: "matches hz s l" and bar: "CHR ''|'' \<notin> set sid"
    and cap: "set_string maxTotal = Some (cap sid)"
    and open_session: "hz sid \<le> clock s + aggregate_ttl agg"  "clock s < hz sid"
    and run: "run view_redis (reserve sid key amt maxTotal pre agg) s = (s', r)"
  defines "l1 \<equiv> l_sweep (unix (clock s)) l"
  shows "matches hz s' l1 \<and> (\<forall>a. set_string amt = Some a \<longrightarrow> r = Inl budget_denied \<longrightarrow> cap sid < balance l1 sid + a) \<or>
    (\<exists>rid a t l2. r = Inr rid \<and> set_string amt = Some a \<and> 0 < a \<and> pending l1 rid = None \<and>
       l_reserve (cap sid) rid sid a t l1 = Some l2 \<and> matches hz s' l2)"
proof -
  let ?s = "swept (clock s) s"
  note idle = matchesD(1) [OF m]
  have m1: "matches hz ?s l1" unfolding l1_def by (rule matches_sweep [OF m])
  have clk: "clock ?s = clock s" by (simp add: idle)
  have out: "reserve_outcome sid key amt maxTotal pre agg ?s = (s', r)"
    using run by (simp add: run_reserve [OF idle])
  have bal: "current_total ?s sid = balance l1 sid"
    using matchesD(8) [OF m1, of sid] open_session(2) clk by simp
  show ?thesis
  proof (cases "r = Inr (next_rid ?s) \<and> s' \<noteq> ?s")
    case True
    then obtain idem a where i: "idem_key sid key = Inr idem" "set_string amt = Some a" "0 < a"
        "current_total ?s sid + a \<le> cap sid"
        "s' = reserved sid idem amt (current_total ?s sid + a) (ttl_seconds pre) (aggregate_ttl agg) ?s"
      using out cap
      by (auto simp: reserve_outcome_def Let_def positive_amount_def
          split: sum.splits option.splits if_splits)
    note r = matches_reserve [OF m1 i(1) bar i(2,3) _ aggregate_ttl_pos ttl_seconds_pos(1) refl]
    have "hz sid \<le> clock ?s + aggregate_ttl agg" using open_session(1) clk by simp
    from r [OF this] i True bal show ?thesis by (auto simp: l_reserve_Some_iff)
  next
    case False
    have "s' = ?s \<and> (\<forall>a. set_string amt = Some a \<longrightarrow> r = Inl budget_denied \<longrightarrow> cap sid < balance l1 sid + a)"
      using out cap bal False
      by (auto simp: reserve_outcome_def Let_def positive_amount_def idem_key_def budget_denied_def
          split: sum.splits option.splits if_splits)
    with m1 show ?thesis by simp
  qed
qed

lemma service_simulates_view:
  assumes "service_run view_redis (\<lambda>s. s) cap hz s"
  shows "\<exists>l. ledger_run cap l \<and> matches hz s l"
  using assms
proof (induction rule: service_run.induct)
  case (sr_start s)
  then show ?case using start_matches lr_start by blast
next
  case (sr_reserve s sid key amt maxTotal pre agg s' r)
  then obtain l where l: "ledger_run cap l" "matches hz s l" by blast
  show ?case
    using reserve_simulates [where cap = cap and hz = hz, OF l(2) sr_reserve.hyps(3,4,5,6,2)]
      lr_sweep [OF l(1)] lr_reserve by metis
next
  case (sr_commit s rid s' r)
  then obtain l where l: "ledger_run cap l" "matches hz s l" by blast
  then show ?case
    using sr_commit.hyps(2) run_commit_reservation [OF matchesD(1) [OF l(2)]]
      matches_commit [OF l(2), of rid] lr_commit [OF l(1), of rid] by auto
next
  case (sr_release s rid s' r)
  then obtain l where l: "ledger_run cap l" "matches hz s l" by blast
  then show ?case
    using sr_release.hyps(2) run_release_reservation [OF matchesD(1) [OF l(2)]]
      matches_release [OF l(2), of rid] lr_release [OF l(1), of rid] by (auto split: if_splits)
next
  case (sr_sweep s now s' r)
  then obtain l where l: "ledger_run cap l" "matches hz s l" by blast
  then show ?case
    using sr_sweep.hyps(2) run_sweep_expired [OF matchesD(1) [OF l(2)]]
      matches_sweep [OF l(2), of now] lr_sweep [OF l(1), of "unix now"] by auto
next
  case (sr_pass s s' d)
  then show ?case using matches_pass by blast
qed

context redis_server
begin

lemma service_run_view:
  "service_run R view cap hz w \<Longrightarrow> service_run view_redis (\<lambda>s. s) cap hz (view w)"
proof (induction rule: service_run.induct)
  case (sr_start w)
  then show ?case by (rule service_run.sr_start)
next
  case (sr_reserve w sid key amt maxTotal pre agg w' r)
  then show ?case
    using service_run.sr_reserve [OF sr_reserve.IH run_viewD [OF sr_reserve.hyps(2)]] by simp
next
  case (sr_commit w rid w' r)
  show ?case by (rule service_run.sr_commit [OF sr_commit.IH run_viewD [OF sr_commit.hyps(2)]])
next
  case (sr_release w rid w' r)
  show ?case by (rule service_run.sr_release [OF sr_release.IH run_viewD [OF sr_release.hyps(2)]])
next
  case (sr_sweep w now w' r)
  show ?case by (rule service_run.sr_sweep [OF sr_sweep.IH run_viewD [OF sr_sweep.hyps(2)]])
next
  case (sr_pass w w' d)
  show ?case by (rule service_run.sr_pass [OF sr_pass.IH sr_pass.hyps(2,3)])
qed

lemma service_simulates:
  "service_run R view cap hz w \<Longrightarrow> \<exists>l. ledger_run cap l \<and> matches hz (view w) l"
  by (rule service_simulates_view [OF service_run_view])

end

end
