(* ===== verification/Reservation_Props.thy ===== *)
theory Reservation_Props
  imports Ledger_Runs
begin

text \<open>
  The properties of the reservation service, stated for any server that keeps the contract
  \<^const>\<open>redis_server\<close> and shown on the server whose world is the view.
\<close>

section \<open>A sample server\<close>

definition sample_start :: rview where
  "sample_start =
    \<lparr>kv = Map.empty, zset = (\<lambda>_. []), clock = 0, uuids = (\<lambda>n. replicate n CHR ''u''), faults = []\<rparr>"

definition sample_reserve :: "string res prog" where
  "sample_reserve = reserve ''s'' ''k'' ''10'' ''25'' (5 * minute) hour"

definition sample_after :: rview where
  "sample_after = fst (run view_redis sample_reserve sample_start)"

lemma sample_start_view: "start_view sample_start"
proof -
  have "inj (\<lambda>n. replicate n CHR ''u'')" by (rule injI) (metis length_replicate)
  then show ?thesis by (simp add: start_view_def sample_start_def)
qed

lemma sample_clock [simp]: "clock sample_start = 0"
  by (simp add: sample_start_def)

lemma sample_amounts: "set_string ''10'' = Some 10" "set_string ''25'' = Some 25"
  by code_simp+

lemma sample_run: "service_run view_redis (\<lambda>s. s) (\<lambda>_. 25) (\<lambda>_. hour) sample_after"
proof -
  obtain r where r: "run view_redis (reserve ''s'' ''k'' ''10'' ''25'' (5 * minute) hour) sample_start
      = (sample_after, r)"
    unfolding sample_after_def sample_reserve_def by (metis prod.collapse)
  show ?thesis
    by (rule service_run.sr_reserve [where cap = "\<lambda>_. 25", OF service_run.sr_start r])
       (rule sample_start_view, simp_all add: sample_amounts sample_clock aggregate_ttl_def hour_def
          minute_def second_def)
qed

lemma sample_start_idle: "idle sample_start"
  using start_matches [OF sample_start_view] matchesD(1) by blast

lemma sample_after_idle: "idle sample_after"
  using view_server.service_simulates [OF sample_run] matchesD(1) by blast

section \<open>The budget\<close>





lemma sample_idem_key: "idem_key ''s'' ''k'' = Inr ''idem:s:k''"
proof -
  have "trim_space ''s'' = ''s''" "trim_space ''k'' = ''k''"
    by (rule trim_space_ascii_id; simp add: is_space_def)+
  then show ?thesis by (simp add: idem_key_def)
qed

lemma set_string_zero: "set_string ''0'' = Some 0"
  by code_simp

lemma sample_swept: "swept now sample_start = sample_start"
  by (simp add: swept_def due_def index_def sample_start_def)

lemma sample_fresh: "fresh sample_start"
  by (simp add: fresh_def index_def sample_start_def)

lemma sample_live: "live_reservation sample_start k = None"
  by (simp add: live_reservation_def sample_start_def)

lemma sample_reserved: "run view_redis sample_reserve sample_start = (sample_after, Inr ''res_'')"
proof -
  have "current_total sample_start ''s'' = 0"
    by (simp add: current_total_def total_def sample_start_def)
  moreover have "next_rid sample_start = ''res_''" by (simp add: next_rid_def sample_start_def)
  ultimately have "snd (run view_redis sample_reserve sample_start) = Inr ''res_''"
    by (simp add: sample_reserve_def run_reserve [OF sample_start_idle] sample_swept reserve_outcome_def
        sample_idem_key positive_amount_def sample_amounts sample_live)
  then show ?thesis by (metis prod.collapse sample_after_def)
qed

section \<open>Reserving, releasing, retrying\<close>

lemma kv_swept1:
  assumes "\<And>x. k \<noteq> session_key x" "\<And>x. k \<noteq> reservation_meta_key x"
  shows "kv (swept1 m s) k = kv s k"
  using assms by (simp add: swept1_def)

lemma live_swept:
  assumes "idem_key sid key = Inr idem"
  shows "live_reservation (swept now s) idem = live_reservation s idem"
proof -
  have "kv (fold swept1 ms s) idem = kv s idem" for ms
    using idem_key_distinct [OF assms] by (induction ms arbitrary: s) (simp_all add: kv_swept1)
  then show ?thesis by (simp add: live_reservation_def swept_def)
qed



text \<open>What a new reservation leaves behind, on the swept state.\<close>

lemma new_reservation:
  assumes "idle s" "CHR ''|'' \<notin> set sid" "fresh s"
    and "idem_key sid key = Inr idem" "live_reservation s idem = None"
    and "run view_redis (reserve sid key amt cap pre agg) s = (t, Inr rid)"
  obtains a n where "set_string amt = Some a" "0 < a"
    "n = current_total (swept (clock s) s) sid + a"
    "t = reserved sid idem amt n (ttl_seconds pre) (aggregate_ttl agg) (swept (clock s) s)"
    "rid = next_rid s" "fresh (swept (clock s) s)" "0 \<le> n"
proof -
  let ?s = "swept (clock s) s"
  have idle: "idle ?s" by (rule idle_swept [OF assms(1)])
  have rid: "next_rid ?s = next_rid s" using assms(1) by (simp add: next_rid_def)
  have fr: "fresh ?s"
    using assms(1,3) by (auto simp: fresh_def next_rid_def set_index_swept)
  have out: "reserve_outcome sid key amt cap pre agg ?s = (t, Inr rid)"
    using assms(6) by (simp add: run_reserve [OF assms(1)])
  then obtain a where "set_string amt = Some a" "0 < a" "rid = next_rid ?s"
      "t = reserved sid idem amt (current_total ?s sid + a) (ttl_seconds pre) (aggregate_ttl agg) ?s"
    using assms(4,5) live_swept [OF assms(4)]
    by (auto simp: reserve_outcome_def Let_def positive_amount_def split: sum.splits option.splits if_splits)
  moreover have "0 \<le> current_total ?s sid + a"
    using total_nonneg [OF idleD(2) [OF idle]] calculation(2)
    by (fastforce simp: current_total_def split: option.split)
  ultimately show thesis using that rid fr by auto
qed

lemma release_new:
  fixes ttl agg :: int
  assumes "idle s" "fresh s" "CHR ''|'' \<notin> set sid" "set_string amt = Some a" "0 < a"
    and "idem_key sid key = Inr idem" "n = current_total s sid + a" "0 \<le> n" 
  defines "t \<equiv> reserved sid idem amt n ttl agg s"
  shows "released (next_rid s) t = forget (next_rid s) (lower_total sid a t)"
    and "current_total (released (next_rid s) t) x = current_total s x"
    and "pending_of (index (released (next_rid s) t)) = pending_of (index s)"
proof -
  note eff = reserved_effect [OF assms(1-6,8), of ttl agg, folded t_def]
  have meta: "kv t (reservation_meta_key (next_rid s)) \<noteq> None" by (simp add: t_def reserved_kv)
  then show rel: "released (next_rid s) t = forget (next_rid s) (lower_total sid a t)"
    by (auto simp: released_def eff(3))
  have "totals_ok t" using idleD(2) [OF eff(5)] .
  moreover have "0 \<le> current_total s x" for x
    using total_nonneg [OF idleD(2) [OF assms(1)]] by (fastforce simp: current_total_def split: option.split)
  ultimately show "current_total (released (next_rid s) t) x = current_total s x"
    using assms(5,7)
    by (auto simp: rel current_total_def total_lower_total eff(1) split: option.split)
  have none: "pending_of (index s) (next_rid s) = None"
    using assms(2) by (simp add: fresh_def pending_of_None_iff)
  have "wf_index (index (lower_total sid a t))" using idleD(3) [OF eff(5)] by simp
  then show "pending_of (index (released (next_rid s) t)) = pending_of (index s)"
    using none by (simp add: rel pending_forget eff(3) fun_upd_idem)
qed

text \<open>
  C25: a reservation that is made and then released leaves no trace in the budget: every
  session's aggregate and the pending reservations are those after the sweep that precedes
  the reservation.
\<close>

theorem release_undoes_reserve:
  assumes "redis_server R view" and "idle (view w)" and "fresh (view w)" and "CHR ''|'' \<notin> set sid"
    and "idem_key sid key = Inr idem" and "live_reservation (view w) idem = None"
    and "run R (reserve sid key amt cap pre agg) w = (w1, Inr rid)"
    and "run R (release_reservation rid) w1 = (w2, r)"
  shows "r = Inr () \<and>
    current_total (view w2) x = current_total (swept (clock (view w)) (view w)) x \<and>
    pending_of (index (view w2)) = pending_of (index (swept (clock (view w)) (view w)))"
proof -
  let ?s = "swept (clock (view w)) (view w)"
  have idle: "idle ?s" by (rule idle_swept [OF assms(2)])
  obtain a n where a: "set_string amt = Some a" "0 < a" "n = current_total ?s sid + a" "0 \<le> n"
      "rid = next_rid ?s" "fresh ?s" 
      "view w1 = reserved sid idem amt n (ttl_seconds pre) (aggregate_ttl agg) ?s"
    using new_reservation [OF assms(2,4,3,5,6) redis_server.run_viewD [OF assms(1,7)]] assms(2)
    by (metis next_rid_def swept_frame(2))
  note eff = reserved_effect [OF idle a(6) assms(4) a(1,2) assms(5) a(4)]
  have "run view_redis (release_reservation rid) (view w1) = (view w2, r)"
    by (rule redis_server.run_viewD [OF assms(1,8)])
  moreover have "run view_redis (release_reservation rid) (view w1) = (released rid (view w1), Inr ())"
    by (rule run_release_reservation) (unfold a(7), rule eff(5))
  ultimately have "r = Inr ()" "view w2 = released rid (view w1)" by simp_all
  then show ?thesis
    using release_new [OF idle a(6) assms(4) a(1,2) assms(5) a(3,4)] by (simp add: a(5,7))
qed

theorem release_undoes_reserve_witness:
  "current_total (fst (run view_redis (release_reservation ''res_'') sample_after)) ''s'' = 0"
proof -
  obtain t r where t: "run view_redis (release_reservation ''res_'') sample_after = (t, r)"
    by fastforce
  have "current_total sample_start ''s'' = 0"
    by (simp add: current_total_def total_def sample_start_def)
  then show ?thesis
    using release_undoes_reserve [OF view_server.redis_server_axioms sample_start_idle sample_fresh _
        sample_idem_key sample_live sample_reserved [unfolded sample_reserve_def] t, of "''s''"] t
    by (simp add: sample_swept)
qed

text \<open>
  \<open>Reserve\<close> is idempotent while the key of a reservation lives: a retry with the same
  session and idempotency key, whatever its amount, returns the same identifier and, apart
  from the sweep, changes nothing.
\<close>

theorem retry_returns_reservation:
  assumes "redis_server R view" and "idle (view w)"
    and "idem_key sid key = Inr idem" and "live_reservation (view w) idem = Some rid"
    and "positive_amount ''amountAtomic'' amt = Inr a"
    and "positive_amount ''maxTotalSpend'' cap = Inr maxTotal"
    and "run R (reserve sid key amt cap pre agg) w = (w', r)"
  shows "r = Inr rid \<and> view w' = swept (clock (view w)) (view w)"
  using redis_server.run_viewD [OF assms(1,7)]
  by (simp add: run_reserve [OF assms(2)] reserve_outcome_def assms(3-6) live_swept [OF assms(3)])

lemma sample_after_live: "live_reservation sample_after ''idem:s:k'' = Some ''res_''"
proof -
  obtain a n where eq: "sample_after =
      reserved ''s'' ''idem:s:k'' ''10'' n (ttl_seconds (5 * minute)) (aggregate_ttl hour) sample_start"
    using new_reservation [OF sample_start_idle _ sample_fresh sample_idem_key sample_live
        sample_reserved [unfolded sample_reserve_def]] sample_swept by auto
  show ?thesis
    unfolding eq
    by (simp add: live_reservation_def reserved_kv reservation_meta_key_def next_rid_def sample_start_def)
qed

theorem retry_returns_reservation_witness:
  "snd (run view_redis sample_reserve sample_after) = Inr ''res_''"
proof -
  obtain t r where t: "run view_redis sample_reserve sample_after = (t, r)" by fastforce
  have p: "positive_amount ''amountAtomic'' ''10'' = Inr 10" "positive_amount ''maxTotalSpend'' ''25'' = Inr 25"
    by (simp_all add: positive_amount_def sample_amounts)
  show ?thesis
    using retry_returns_reservation [OF view_server.redis_server_axioms sample_after_idle sample_idem_key
        sample_after_live p t [unfolded sample_reserve_def]] t by simp
qed

lemma kv_released:
  assumes "\<And>x. k \<noteq> session_key x" "\<And>x. k \<noteq> reservation_meta_key x"
  shows "kv (released rid s) k = kv s k"
  using assms by (auto simp: released_def split: option.split)

text \<open>
  C26: a release leaves the idempotency key behind, so a retry of a reservation that was
  released is answered with the released identifier although nothing is held for it: the
  call succeeds, the reservation is not pending and the aggregate does not count it.
\<close>

theorem retry_after_release_holds_nothing:
  assumes "redis_server R view" and "idle (view w)" and "fresh (view w)" and "CHR ''|'' \<notin> set sid"
    and "idem_key sid key = Inr idem" and "live_reservation (view w) idem = None"
    and "run R (reserve sid key amt cap pre agg) w = (w1, Inr rid)"
    and "run R (release_reservation rid) w1 = (w2, r)"
    and "run R (reserve sid key amt cap pre agg) w2 = (w3, r')"
  shows "r' = Inr rid \<and> pending_of (index (view w3)) rid = None"
proof -
  note idem = idem_key_distinct [OF assms(5)]
  let ?s = "swept (clock (view w)) (view w)" and ?t = "view w1" and ?u = "view w2"
  obtain a n where a: "set_string amt = Some a" "0 < a" "0 \<le> n" "rid = next_rid ?s" "fresh ?s"
      "?t = reserved sid idem amt n (ttl_seconds pre) (aggregate_ttl agg) ?s"
    using new_reservation [OF assms(2,4,3,5,6) redis_server.run_viewD [OF assms(1,7)]] assms(2)
    by (metis next_rid_def swept_frame(2))
  have t: "idle ?t"
    unfolding a(6) by (rule reserved_effect(5) [OF idle_swept [OF assms(2)] a(5) assms(4) a(1,2) assms(5) a(3)])
  have u: "?u = released rid ?t"
    using redis_server.run_viewD [OF assms(1,8)] run_release_reservation [OF t, of rid] by simp
  have "kv ?t idem \<noteq> None \<and> fst (the (kv ?t idem)) = rid"
    unfolding a(6) using idem by (simp add: reserved_kv a(4))
  moreover have "rid \<noteq> ''''" by (simp add: a(4) next_rid_def)
  ultimately have live: "live_reservation ?u idem = Some rid"
    using idem by (auto simp: u live_reservation_def kv_released split: option.split)
  have iu: "idle ?u" unfolding u by (rule idle_released [OF t])
  obtain c where c: "positive_amount ''maxTotalSpend'' cap = Inr c" "positive_amount ''amountAtomic'' amt = Inr a"
    using redis_server.run_viewD [OF assms(1,7)] a(1,2) assms(5)
    by (auto simp: run_reserve [OF assms(2)] reserve_outcome_def positive_amount_def
        split: option.splits if_splits)
  have "r' = Inr rid \<and> view w3 = swept (clock ?u) ?u"
    using redis_server.run_viewD [OF assms(1,9)]
    by (simp add: run_reserve [OF iu] reserve_outcome_def assms(5) c live_swept [OF assms(5)] live)
  moreover have "pending_of (index ?u) rid = None"
  proof -
    have "kv ?t (reservation_meta_key rid) \<noteq> None" unfolding a(4,6) by (simp add: reserved_kv)
    then show ?thesis
      using idleD(3) [OF t] by (auto simp: u released_def pending_forget split: option.split)
  qed
  ultimately show ?thesis
    using set_index_swept [OF iu] by (auto simp: pending_of_None_iff)
qed

theorem retry_after_release_holds_nothing_witness:
  "pending_of (index (fst (run view_redis sample_reserve
     (fst (run view_redis (release_reservation ''res_'') sample_after))))) ''res_'' = None"
proof -
  obtain t r where t: "run view_redis (release_reservation ''res_'') sample_after = (t, r)" by fastforce
  obtain u r' where u: "run view_redis sample_reserve t = (u, r')" by fastforce
  show ?thesis
    using retry_after_release_holds_nothing [OF view_server.redis_server_axioms sample_start_idle
        sample_fresh _ sample_idem_key sample_live sample_reserved [unfolded sample_reserve_def] t
        u [unfolded sample_reserve_def]] t u by simp
qed

section \<open>Sweeping, committing, locking\<close>

text \<open>
  C27: a sweep on an idle server succeeds, removes from the index exactly the reservations
  whose second has come, and lowers each session's aggregate by what it removed of that
  session (never below zero).
\<close>

theorem sweep_releases_exactly_due:
  assumes "redis_server R view" and "idle (view w)" and "run R (sweep_expired now) w = (w', r)"
  shows "r = Inr () \<and>
    set (index (view w')) = {p \<in> set (index (view w)). \<not> (0 \<le> snd p \<and> snd p \<le> unix now)} \<and>
    total (view w') sid =
      map_option (\<lambda>t. max 0 (t - due_amount now (view w) sid)) (total (view w) sid)"
proof -
  have "view w' = swept now (view w)" "r = Inr ()"
    using redis_server.run_viewD [OF assms(1,3)] by (simp_all add: run_sweep_expired [OF assms(2)])
  then show ?thesis by (simp add: set_index_swept [OF assms(2)] total_swept [OF assms(2)])
qed

theorem sweep_releases_exactly_due_witness:
  "set (index (fst (run view_redis (sweep_expired (10 * minute)) sample_after)))
     = {p \<in> set (index sample_after). \<not> (0 \<le> snd p \<and> snd p \<le> 600)}"
proof -
  have "unix (10 * minute) = 600" by (simp add: unix_def minute_def second_def)
  then show ?thesis
    using sweep_releases_exactly_due [OF view_server.redis_server_axioms sample_after_idle prod.collapse [symmetric]]
    by simp
qed

text \<open>
  A commit makes the spending final: the reservation is no longer pending, so no later
  sweep or release returns its amount, and every aggregate stays as it was.
\<close>

theorem commit_is_final:
  assumes "redis_server R view" and "idle (view w)"
    and "run R (commit_reservation rid) w = (w1, r1)"
    and "run R (release_reservation rid) w1 = (w2, r2)"
  shows "r1 = Inr () \<and> r2 = Inr () \<and> total (view w1) = total (view w) \<and> total (view w2) = total (view w) \<and>
    pending_of (index (view w1)) = (pending_of (index (view w)))(rid := None)"
proof -
  have 1: "view w1 = forget rid (view w) \<and> r1 = Inr ()"
    using redis_server.run_viewD [OF assms(1,3)] by (simp add: run_commit_reservation [OF assms(2)])
  then have "idle (view w1)" using idle_forget [OF assms(2)] by simp
  then have "view w2 = released rid (view w1) \<and> r2 = Inr ()"
    using redis_server.run_viewD [OF assms(1,4)] by (simp add: run_release_reservation)
  then show ?thesis
    using 1 pending_forget [OF idleD(3) [OF assms(2)]] by (simp add: released_def)
qed

theorem commit_is_final_witness:
  "total (fst (run view_redis (release_reservation ''res_'')
     (fst (run view_redis (commit_reservation ''res_'') sample_after)))) = total sample_after"
proof -
  obtain t r where t: "run view_redis (commit_reservation ''res_'') sample_after = (t, r)" by fastforce
  obtain u r' where u: "run view_redis (release_reservation ''res_'') t = (u, r')" by fastforce
  show ?thesis
    using commit_is_final [OF view_server.redis_server_axioms sample_after_idle t u] t u by simp
qed

text \<open>
  While a session's lock is held nobody else gets into its critical section: whatever
  the section would do, the caller is told \<open>BUDGET_BUSY\<close> and the server is left unchanged.
\<close>

theorem lock_excludes:
  assumes "redis_server R view" and "faults (view w) = []" and "kv (view w) (lock_key sid) = Some e"
    and "run R (with_lock sid body) w = (w', r)"
  shows "r = Inl budget_busy \<and> view w' = view w"
  using redis_server.run_viewD [OF assms(1,4)] run_with_lock_busy [OF assms(2,3), of body] by simp

theorem lock_excludes_witness:
  "snd (run view_redis (with_lock ''s'' (release_body ''s'' 5)) (lock_held ''s'' sample_start))
     = Inl budget_busy"
proof -
  obtain t r where t: "run view_redis (with_lock ''s'' (release_body ''s'' 5)) (lock_held ''s'' sample_start) = (t, r)"
    by fastforce
  have "faults (lock_held ''s'' sample_start) = []"
    "kv (lock_held ''s'' sample_start) (lock_key ''s'') = Some (''1'', Some (10 * second))"
    by (simp_all add: lock_held_def sample_start_def second_def)
  from lock_excludes [OF view_server.redis_server_axioms this t] t show ?thesis by simp
qed

end
