(* ===== verification/Concurrency.thy ===== *)
theory Concurrency
  imports Reservation_Props
begin

text \<open>
  Interleavings: two calls in flight on one server, command by command. The sequential
  guarantees rest on the session lock; the executions below are what two concurrent callers
  can do around it, because the idempotency check and the listing of due members come before
  the lock is taken.
\<close>

section \<open>Two programs in flight\<close>

datatype move = First | Second

fun interleave ::
    "'w redis \<Rightarrow> move list \<Rightarrow> 'a prog \<Rightarrow> 'b prog \<Rightarrow> 'w \<Rightarrow> 'w \<times> 'a prog \<times> 'b prog" where
  "interleave R [] p q w = (w, p, q)"
| "interleave R (First # ms) p q w = (case run1 R p w of (w', p') \<Rightarrow> interleave R ms p' q w')"
| "interleave R (Second # ms) p q w = (case run1 R q w of (w', q') \<Rightarrow> interleave R ms p q' w')"

lemma interleave_append:
  "interleave R (ms @ ms') p q w =
     (case interleave R ms p q w of (w', p', q') \<Rightarrow> interleave R ms' p' q' w')"
  by (induction R ms p q w rule: interleave.induct) (auto split: prod.split)

lemma run1_run: "run1 R p w = (w', p') \<Longrightarrow> run R p w = run R p' w'"
  by (cases p) (auto simp: apsnd_def map_prod_def split: prod.splits)

text \<open>How many commands a program sends when it runs undisturbed.\<close>

primrec steps :: "'w redis \<Rightarrow> 'a prog \<Rightarrow> 'w \<Rightarrow> nat" where
  "steps R (Ret x) w = 0"
| "steps R (Now k) w = Suc (case now_of R w of (w', r) \<Rightarrow> steps R (k r) w')"
| "steps R (New_UUID k) w = Suc (case uuid_of R w of (w', r) \<Rightarrow> steps R (k r) w')"
| "steps R (Ping k) w = Suc (case ping_of R w of (w', r) \<Rightarrow> steps R (k r) w')"
| "steps R (Get key k) w = Suc (case get_of R key w of (w', r) \<Rightarrow> steps R (k r) w')"
| "steps R (Set_NX key v ttl k) w = Suc (case set_nx_of R key v ttl w of (w', r) \<Rightarrow> steps R (k r) w')"
| "steps R (Set_Keep_TTL key v k) w = Suc (case set_keep_ttl_of R key v w of (w', r) \<Rightarrow> steps R (k r) w')"
| "steps R (Del key k) w = Suc (case del_of R key w of (w', r) \<Rightarrow> steps R (k r) w')"
| "steps R (Z_Range_By_Score key lo hi k) w =
     Suc (case z_range_by_score_of R key lo hi w of (w', r) \<Rightarrow> steps R (k r) w')"
| "steps R (Z_Range key k) w = Suc (case z_range_of R key w of (w', r) \<Rightarrow> steps R (k r) w')"
| "steps R (Z_Rem key m k) w = Suc (case z_rem_of R key m w of (w', r) \<Rightarrow> steps R (k r) w')"
| "steps R (Tx_Exec cs k) w = Suc (case tx_exec_of R cs w of (w', r) \<Rightarrow> steps R (k r) w')"

lemma interleave_first:
  "interleave R (replicate (steps R p w) First) p q w = (fst (run R p w), Ret (snd (run R p w)), q)"
  by (induction p arbitrary: w) (simp_all add: apsnd_def map_prod_def split_beta)

lemma interleave_second:
  "interleave R (replicate (steps R q w) Second) p q w = (fst (run R q w), p, Ret (snd (run R q w)))"
  by (induction q arbitrary: w) (simp_all add: apsnd_def map_prod_def split_beta)

text \<open>The second caller may run to its end at any point of the first.\<close>

lemma interleave_around:
  assumes "interleave R ms p q w = (w1, p', q)" and "run R q w1 = (w2, y)" and "run R p' w2 = (w3, x)"
  shows "interleave R (ms @ replicate (steps R q w1) Second @ replicate (steps R p' w2) First) p q w
    = (w3, Ret x, Ret y)"
  using assms by (simp add: interleave_append interleave_first interleave_second)

section \<open>One idempotency key, two reservations\<close>

lemma v_get_healthy:
  "faults s = [] \<Longrightarrow> v_get k s = (s, case kv s k of None \<Rightarrow> Inl Redis_Nil | Some (v, _) \<Rightarrow> Inr v)"
  by (auto simp: run_simps split: option.split)

lemma reserve_up_to_lock:
  assumes "idle s" "due (clock s) s = []"
    and "idem_key sid key = Inr idem" "live_reservation s idem = None"
    and "positive_amount ''amountAtomic'' amt = Inr a" "positive_amount ''maxTotalSpend'' cap = Inr c"
  shows "interleave view_redis [First, First, First] (reserve sid key amt cap pre agg) q s
    = (s, with_lock sid (reserve_body sid idem amt a c pre agg), q)"
proof -
  have f: "faults s = []" using idleD(1) [OF assms(1)] by (simp add: clean_def)
  have r: "map fst (filter (\<lambda>p. 0 \<le> snd p \<and> snd p \<le> unix (clock s)) (zset s expiry_index_key)) = []"
    using assms(2) by (simp add: due_def index_def)
  have z: "v_z_range_by_score expiry_index_key 0 (unix (clock s)) s = (s, Inr [])"
    unfolding v_z_range_by_score_def using f by (simp add: serve_healthy r)
  have g: "v_get idem s = (s, Inl Redis_Nil) \<or> v_get idem s = (s, Inr '''')"
    using assms(4) by (auto simp: v_get_healthy [OF f] live_reservation_def split: option.splits if_splits)
  show ?thesis
    using g
    by (auto simp: reserve_def sweep_expired_def try_prog_def v_now_def z reserve_checked_def assms(3,5,6))
qed

lemma current_total_Some: "total s sid = Some n \<Longrightarrow> current_total s sid = n"
  by (simp add: current_total_def)

lemma swept_nothing: "due now s = [] \<Longrightarrow> swept now s = s"
  by (simp add: swept_def)

text \<open>
  C28: the idempotency key is looked up before the lock is taken, so two concurrent calls
  with one key can both reserve: an execution exists in which both succeed with different
  identifiers and the session's aggregate has grown by twice the amount.
\<close>

theorem one_key_two_reservations:
  assumes "idle s" and "genuine s" and "due (clock s) s = []" and "CHR ''|'' \<notin> set sid"
    and "idem_key sid key = Inr idem" and "live_reservation s idem = None"
    and "set_string amt = Some a" and "0 < a"
    and "set_string cap = Some c" and "current_total s sid + 2 * a \<le> c"
  shows "\<exists>ms t rid1 rid2.
    interleave view_redis ms (reserve sid key amt cap pre agg) (reserve sid key amt cap pre agg) s
      = (t, Ret (Inr rid1), Ret (Inr rid2)) \<and> rid1 \<noteq> rid2 \<and>
    current_total t sid = current_total s sid + 2 * a"
proof -
  let ?p = "reserve sid key amt cap pre agg"
  have tot: "0 \<le> current_total s sid"
    using total_nonneg [OF idleD(2) [OF assms(1)]]
    by (fastforce simp: current_total_def split: option.split)
  have pos: "positive_amount ''amountAtomic'' amt = Inr a" "positive_amount ''maxTotalSpend'' cap = Inr c"
    using assms(7-10) tot by (simp_all add: positive_amount_Inr)
  let ?res = "\<lambda>n. reserved sid idem amt n (ttl_seconds pre) (aggregate_ttl agg)"
  let ?t1 = "?res (current_total s sid + a) s"
  have fr: "fresh s" by (rule genuine_fresh [OF assms(2)])
  have n: "0 \<le> current_total s sid + a" using tot assms(8) by simp
  have 2: "run view_redis ?p s = (?t1, Inr (next_rid s))"
    using assms(8,10) by (simp add: run_reserve [OF assms(1)] swept_nothing [OF assms(3)]
        reserve_outcome_def assms(5,6) pos Let_def)
  note eff = reserved_effect [OF assms(1) fr assms(4,7,8,5) n, of "ttl_seconds pre" "aggregate_ttl agg"]
  have ct: "current_total ?t1 sid = current_total s sid + a"
    by (rule current_total_Some) (simp add: eff(1))
  let ?t2 = "?res (current_total s sid + a + a) ?t1"
  have 1: "run view_redis (with_lock sid (reserve_body sid idem amt a c pre agg)) ?t1 = (?t2, Inr (next_rid ?t1))"
    using run_reserve_body [OF idleD(1,2) [OF eff(5)] assms(5), of amt a c pre agg] assms(10)
    by (simp add: ct Let_def)
  have "uuids s 1 \<noteq> uuids s 0"
    using assms(2) by (auto simp: genuine_def dest: injD)
  then have ids: "next_rid ?t1 \<noteq> next_rid s" by (simp add: next_rid_def)
  note idem = idem_key_distinct(1) [OF assms(5)]
  have "current_total ?t2 sid = current_total s sid + 2 * a"
    using idem [symmetric] by (intro current_total_Some) (simp add: total_def reserved_kv)
  with interleave_around [OF reserve_up_to_lock [OF assms(1,3,5,6) pos] 2 1] ids show ?thesis by blast
qed

theorem one_key_two_reservations_witness:
  "\<exists>ms t rid1 rid2. interleave view_redis ms sample_reserve sample_reserve sample_start
      = (t, Ret (Inr rid1), Ret (Inr rid2)) \<and> rid1 \<noteq> rid2 \<and> current_total t ''s'' = 20"
proof -
  have "genuine sample_start" using start_matches [OF sample_start_view] matchesD(2) by blast
  moreover have "due (clock sample_start) sample_start = []" by (simp add: due_def index_def sample_start_def)
  moreover have "current_total sample_start ''s'' = 0"
    by (simp add: current_total_def total_def sample_start_def)
  ultimately show ?thesis
    using one_key_two_reservations [OF sample_start_idle _ _ _ sample_idem_key sample_live sample_amounts(1)
        _ sample_amounts(2)]
    by (simp add: sample_reserve_def)
qed

section \<open>Two sweeps\<close>

lemma sweep_up_to_members:
  assumes "faults s = []"
  shows "interleave view_redis [First] (sweep_expired now) q s = (s, sweep_members (due now s), q)"
  using assms by (simp add: sweep_expired_def run_simps due_def index_def)

text \<open>Sweeping a member that has left the index still lowers the aggregate.\<close>

lemma run_sweep_gone:
  assumes "idle s" "good_member m" "rid_of m \<notin> (rid_of \<circ> fst) ` set (index s)"
  shows "run view_redis (sweep_member m) s = (lower_total (sid_of m) (amount_of m) s, Inr ())"
proof -
  let ?t = "lower_total (sid_of m) (amount_of m) s"
  have "run view_redis (release_amount (sid_of m) (amt_of m)) s = (?t, Inr ())"
    by (rule run_release_amount [OF idleD(1,2) [OF assms(1)] good_memberD(2) [OF assms(2)]])
  then have run: "run view_redis (sweep_member m) s =
      (z_remove expiry_index_key m (del_key (reservation_meta_key (rid_of m)) ?t), Inr ())"
    using idleD(1) [OF assms(1)]
    by (simp add: sweep_member_def good_memberD(1) [OF assms(2)] run_try run_simps clean_def)
  have "kv s (reservation_meta_key (rid_of m)) = None"
    using idleD(4) [OF assms(1)] assms(3) unfolding meta_ok_def
    by (cases "kv s (reservation_meta_key (rid_of m))") force+
  moreover have "z_without m (index s) = index s" by (rule z_without_fresh [OF assms(3)])
  ultimately have "z_remove expiry_index_key m (del_key (reservation_meta_key (rid_of m)) ?t) = ?t"
    using idleD(1) [OF assms(1)]
    by (intro rview_eqI ext) (auto simp: clean_def index_def)
  with run show ?thesis by simp
qed

text \<open>
  Two concurrent sweeps can release the same reservation twice: both list it before
  either removes it, each lowers the aggregate by its amount, and budget of other pending
  reservations is given back that is still in use.
\<close>

theorem two_sweeps_release_twice:
  assumes "idle s" and "due now s = [m]" and "total s (sid_of m) = Some t"
  shows "\<exists>ms s'. interleave view_redis ms (sweep_expired now) (sweep_expired now) s
      = (s', Ret (Inr ()), Ret (Inr ())) \<and>
    total s' (sid_of m) = Some (max 0 (t - 2 * amount_of m)) \<and>
    pending_of (index s') = (pending_of (index s))(rid_of m := None)"
proof -
  have m: "m \<in> fst ` set (index s)" using due_members [of now s] assms(2) by simp
  then have g: "good_member m" using idleD(3) [OF assms(1)] by (auto simp: wf_index_def)
  have f: "faults s = []" using idleD(1) [OF assms(1)] by (simp add: clean_def)
  have 2: "run view_redis (sweep_expired now) s = (swept1 m s, Inr ())"
    by (simp add: run_sweep_expired [OF assms(1)] swept_def assms(2))
  let ?s1 = "swept1 m s"
  have idle: "idle ?s1" by (rule idle_swept1 [OF assms(1)])
  have gone: "rid_of m \<notin> (rid_of \<circ> fst) ` set (index ?s1)" by (auto simp: set_index_swept1 [OF assms(1)])
  let ?s2 = "lower_total (sid_of m) (amount_of m) ?s1"
  have 1: "run view_redis (sweep_members (due now s)) ?s1 = (?s2, Inr ())"
    by (simp add: assms(2) run_try run_sweep_gone [OF idle g gone])
  have "0 \<le> t" using total_nonneg [OF idleD(2) [OF assms(1)] assms(3)] .
  then have "total ?s2 (sid_of m) = Some (max 0 (t - 2 * amount_of m))"
    using good_memberD(3) [OF g] assms(3)
    by (simp add: total_lower_total [OF idleD(2) [OF idle]] total_swept1 [OF assms(1)])
  moreover have "wf_index (index (lower_total (sid_of m) (amount_of m) s))" using idleD(3) [OF assms(1)] by simp
  then have "pending_of (index ?s2) = (pending_of (index s))(rid_of m := None)"
    by (simp add: swept1_def pending_forget)
  ultimately show ?thesis
    using interleave_around [OF sweep_up_to_members [OF f] 2 1] by blast
qed

lemma sample_after_entry:
  "index sample_after = [(expiry_member ''res_'' ''s'' ''10'', 300)] \<and> total sample_after ''s'' = Some 10"
proof -
  have bar: "CHR ''|'' \<notin> set ''s''" by simp
  obtain a n where a: "set_string ''10'' = Some a" "0 < a" "n = current_total sample_start ''s'' + a"
      "sample_after = reserved ''s'' ''idem:s:k'' ''10'' n (ttl_seconds (5 * minute)) (aggregate_ttl hour) sample_start"
    by (rule new_reservation [OF sample_start_idle bar sample_fresh sample_idem_key sample_live
        sample_reserved [unfolded sample_reserve_def]]) (unfold sample_swept, blast)
  have n: "n = 10" "0 \<le> n" "a = 10"
    using a(1,3) sample_amounts(1) by (simp_all add: current_total_def total_def sample_start_def)
  note eff = reserved_effect [OF sample_start_idle sample_fresh _ a(1,2) sample_idem_key n(2),
      of "ttl_seconds (5 * minute)" "aggregate_ttl hour", folded a(4)]
  show ?thesis
    using n by (simp add: eff(1,2) new_member_def next_rid_def ttl_seconds_def unix_def minute_def second_def)
      (simp add: sample_start_def index_def)
qed

theorem two_sweeps_release_twice_witness:
  "\<exists>ms s'. interleave view_redis ms (sweep_expired (10 * minute)) (sweep_expired (10 * minute)) sample_after
      = (s', Ret (Inr ()), Ret (Inr ())) \<and> total s' ''s'' = Some 0"
proof -
  let ?m = "expiry_member ''res_'' ''s'' ''10''"
  have parts: "sid_of ?m = ''s''" "amt_of ?m = ''10''" by (rule expiry_member_parts; simp)+
  then have "amount_of ?m = 10" by (simp add: amount_of_def sample_amounts)
  moreover have "due (10 * minute) sample_after = [?m]"
    using sample_after_entry by (simp add: due_def unix_def minute_def second_def)
  ultimately show ?thesis
    using two_sweeps_release_twice [OF sample_after_idle, of "10 * minute" ?m 10] sample_after_entry parts
    by auto
qed

end
