(* ===== verification/Locking.thy ===== *)
theory Locking
  imports Concurrency
begin

text \<open>
  Any number of \<open>Reserve\<close> calls in flight at once, on any sessions, command by command, while
  time passes and the network loses commands. What the session lock is for is proved here: as
  long as no lock outlives its ten seconds, no interleaving of the calls breaks a cap.
\<close>

section \<open>Calls in flight\<close>

record call =
  ca_session :: string
  ca_key :: string
  ca_amount :: string
  ca_cap :: string
  ca_pre :: int
  ca_agg :: int

definition prog_of :: "call \<Rightarrow> string res prog" where
  "prog_of c = reserve (ca_session c) (ca_key c) (ca_amount c) (ca_cap c) (ca_pre c) (ca_agg c)"

text \<open>One command of one of the calls, or time passing up to \<open>T\<close>.\<close>

inductive pool_step ::
    "'w redis \<Rightarrow> ('w \<Rightarrow> rview) \<Rightarrow> int \<Rightarrow> 'w \<times> string res prog list \<Rightarrow> 'w \<times> string res prog list \<Rightarrow> bool"
  for R view T where
  command: "i < length ps \<Longrightarrow> run1 R (ps ! i) w = (w', p) \<Longrightarrow> pool_step R view T (w, ps) (w', ps[i := p])"
| tick: "0 \<le> d \<Longrightarrow> view w' = pass d (view w) \<Longrightarrow> clock (view w') \<le> T \<Longrightarrow> pool_step R view T (w, ps) (w', ps)"

abbreviation pool_run ::
    "'w redis \<Rightarrow> ('w \<Rightarrow> rview) \<Rightarrow> int \<Rightarrow> 'w \<times> string res prog list \<Rightarrow> 'w \<times> string res prog list \<Rightarrow> bool" where
  "pool_run R view T \<equiv> (pool_step R view T)\<^sup>*\<^sup>*"

section \<open>Where a call is\<close>

text \<open>
  The points between two commands of \<open>Reserve\<close> when nothing is due: what has been read so far
  is part of the point. From \<open>Reading\<close> to \<open>Unlocking\<close> a call holds the lock.
\<close>

datatype point =
    Start
  | Listing int
  | Checking
  | Locking
  | Reading
  | Naming int
  | Timing int string
  | Writing int string int
  | Unlocking "string res"
  | Finished "string res"

fun holds_lock :: "point \<Rightarrow> bool" where
  "holds_lock Reading \<longleftrightarrow> True"
| "holds_lock (Naming _) \<longleftrightarrow> True"
| "holds_lock (Timing _ _) \<longleftrightarrow> True"
| "holds_lock (Writing _ _ _) \<longleftrightarrow> True"
| "holds_lock (Unlocking _) \<longleftrightarrow> True"
| "holds_lock _ \<longleftrightarrow> False"

text \<open>The checked arguments of a call.\<close>

definition idem_of :: "call \<Rightarrow> string" where
  "idem_of c = (case idem_key (ca_session c) (ca_key c) of Inl _ \<Rightarrow> '''' | Inr i \<Rightarrow> i)"

definition value_of :: "string \<Rightarrow> int" where
  "value_of s = (case set_string s of None \<Rightarrow> 0 | Some n \<Rightarrow> n)"

definition valid_call :: "call \<Rightarrow> bool" where
  "valid_call c \<longleftrightarrow>
     idem_key (ca_session c) (ca_key c) = Inr (idem_of c) \<and>
     positive_amount ''amountAtomic'' (ca_amount c) = Inr (value_of (ca_amount c)) \<and>
     positive_amount ''maxTotalSpend'' (ca_cap c) = Inr (value_of (ca_cap c))"

definition unlock :: "call \<Rightarrow> string res \<Rightarrow> string res prog" where
  "unlock c x = Del (lock_key (ca_session c)) (\<lambda>_. Ret x)"

definition body_of_call :: "call \<Rightarrow> string res prog" where
  "body_of_call c = reserve_body (ca_session c) (idem_of c) (ca_amount c) (value_of (ca_amount c))
     (value_of (ca_cap c)) (ca_pre c) (ca_agg c)"

definition checked_prog :: "call \<Rightarrow> string res prog" where
  "checked_prog c = reserve_checked (ca_session c) (ca_key c) (ca_amount c) (ca_cap c) (ca_pre c) (ca_agg c)"

definition write_of :: "call \<Rightarrow> int \<Rightarrow> string \<Rightarrow> int \<Rightarrow> pipe_cmd list" where
  "write_of c n u now = reserve_tx (''res_'' @ u) (ca_session c) (idem_of c) (ca_amount c) n
     (ttl_seconds (ca_pre c)) (aggregate_ttl (ca_agg c)) now"

definition writing_prog :: "call \<Rightarrow> int \<Rightarrow> string \<Rightarrow> int \<Rightarrow> string res prog" where
  "writing_prog c n u now = Tx_Exec (write_of c n u now)
     (\<lambda>r. unlock c (case r of Inl e \<Rightarrow> Inl e | Inr _ \<Rightarrow> Inr (''res_'' @ u)))"

primrec code_at :: "call \<Rightarrow> point \<Rightarrow> string res prog" where
  "code_at c Start = prog_of c"
| "code_at c (Listing now) = try_prog (sweep_expired now) (\<lambda>_. checked_prog c)"
| "code_at c Checking = checked_prog c"
| "code_at c Locking = with_lock (ca_session c) (body_of_call c)"
| "code_at c Reading = bind_prog (body_of_call c) (unlock c)"
| "code_at c (Naming n) = New_UUID (\<lambda>u. Now (\<lambda>now. writing_prog c n u now))"
| "code_at c (Timing n u) = Now (\<lambda>now. writing_prog c n u now)"
| "code_at c (Writing n u now) = writing_prog c n u now"
| "code_at c (Unlocking x) = unlock c x"
| "code_at c (Finished x) = Ret x"

section \<open>The invariant\<close>

text \<open>
  Until \<open>T\<close> nothing in the index falls due and no aggregate expires; identifiers carry no bar.
\<close>

definition calm :: "int \<Rightarrow> rview \<Rightarrow> bool" where
  "calm T v \<longleftrightarrow> totals_ok v \<and> (\<forall>n. CHR ''|'' \<notin> set (uuids v n)) \<and>
     (\<forall>p \<in> set (index v). good_member (fst p) \<and> unix T < snd p) \<and>
     (\<forall>sid x d. kv v (session_key sid) = Some (x, Some d) \<longrightarrow> T < d)"

definition within_caps :: "(string \<Rightarrow> int) \<Rightarrow> rview \<Rightarrow> bool" where
  "within_caps cap v \<longleftrightarrow>
     (\<forall>sid. held_of (index v) sid \<le> current_total v sid \<and> current_total v sid \<le> cap sid)"

text \<open>The calls: times to live beyond the lock's, the cap of the session.\<close>

definition call_ok :: "(string \<Rightarrow> int) \<Rightarrow> call \<Rightarrow> bool" where
  "call_ok cap c \<longleftrightarrow> CHR ''|'' \<notin> set (ca_session c) \<and> 11 \<le> ttl_seconds (ca_pre c) \<and>
     10 * second \<le> aggregate_ttl (ca_agg c) \<and> value_of (ca_cap c) \<le> cap (ca_session c)"

definition lock_live :: "int \<Rightarrow> rview \<Rightarrow> string \<Rightarrow> bool" where
  "lock_live T v sid \<longleftrightarrow> (\<exists>x d. kv v (lock_key sid) = Some (x, Some d) \<and> T < d)"

fun point_ok :: "int \<Rightarrow> int \<Rightarrow> rview \<Rightarrow> call \<Rightarrow> point \<Rightarrow> bool" where
  "point_ok t0 T v c (Listing now) \<longleftrightarrow> now \<le> T"
| "point_ok t0 T v c Locking \<longleftrightarrow> valid_call c"
| "point_ok t0 T v c Reading \<longleftrightarrow> valid_call c"
| "point_ok t0 T v c (Naming n) \<longleftrightarrow> valid_call c \<and>
     n = current_total v (ca_session c) + value_of (ca_amount c) \<and> n \<le> value_of (ca_cap c)"
| "point_ok t0 T v c (Timing n u) \<longleftrightarrow> valid_call c \<and> CHR ''|'' \<notin> set u \<and>
     n = current_total v (ca_session c) + value_of (ca_amount c) \<and> n \<le> value_of (ca_cap c)"
| "point_ok t0 T v c (Writing n u now) \<longleftrightarrow> valid_call c \<and> CHR ''|'' \<notin> set u \<and>
     n = current_total v (ca_session c) + value_of (ca_amount c) \<and> n \<le> value_of (ca_cap c) \<and> t0 \<le> now"
| "point_ok t0 T v c _ \<longleftrightarrow> True"

text \<open>
  Every call is at a point whose readings still hold, a call in the locked part has the lock,
  and two calls of one session are not both in it.
\<close>

definition pool_ok ::
    "int \<Rightarrow> int \<Rightarrow> (string \<Rightarrow> int) \<Rightarrow> call list \<Rightarrow> rview \<Rightarrow> point list \<Rightarrow> bool" where
  "pool_ok t0 T cap cs v pts \<longleftrightarrow>
     calm T v \<and> within_caps cap v \<and> t0 \<le> clock v \<and> clock v \<le> T \<and> length pts = length cs \<and>
     (\<forall>i < length cs. point_ok t0 T v (cs ! i) (pts ! i) \<and>
        (holds_lock (pts ! i) \<longrightarrow> lock_live T v (ca_session (cs ! i)))) \<and>
     (\<forall>i < length cs. \<forall>j < length cs. holds_lock (pts ! i) \<longrightarrow> holds_lock (pts ! j) \<longrightarrow>
        ca_session (cs ! i) = ca_session (cs ! j) \<longrightarrow> i = j)"

section \<open>What a command leaves alone\<close>

text \<open>The same keys, the same index, the same time; identifiers may have been used up.\<close>

definition same_store :: "rview \<Rightarrow> rview \<Rightarrow> bool" where
  "same_store v v' \<longleftrightarrow> kv v' = kv v \<and> zset v' = zset v \<and> clock v' = clock v \<and>
     (\<forall>n. \<exists>m. uuids v' n = uuids v m)"

lemma same_store_simps [simp]:
  "same_store v v" "same_store v (v\<lparr>faults := f\<rparr>)" "same_store v (v\<lparr>uuids := (\<lambda>n. uuids v (Suc n))\<rparr>)"
  by (auto simp: same_store_def)

lemma same_storeD:
  assumes "same_store v v'"
  shows "calm T v \<Longrightarrow> calm T v'" "within_caps cap v' = within_caps cap v" "current_total v' = current_total v"
    "lock_live T v' = lock_live T v" "clock v' = clock v" "index v' = index v"
proof -
  have e: "kv v' = kv v" "zset v' = zset v" "clock v' = clock v" "\<forall>n. \<exists>m. uuids v' n = uuids v m"
    using assms by (simp_all add: same_store_def)
  show "clock v' = clock v" "index v' = index v" using e by (simp_all add: index_def)
  show "calm T v \<Longrightarrow> calm T v'" using e by (auto simp: calm_def totals_ok_def index_def) (metis e(4))
  show t: "current_total v' = current_total v" by (rule ext) (simp add: current_total_def total_def e)
  show "within_caps cap v' = within_caps cap v" by (simp add: within_caps_def t index_def e)
  show "lock_live T v' = lock_live T v" by (rule ext) (simp add: lock_live_def e)
qed

lemma point_ok_cong:
  "(holds_lock p \<Longrightarrow> current_total v' (ca_session c) = current_total v (ca_session c)) \<Longrightarrow>
     point_ok t0 T v c p \<Longrightarrow> point_ok t0 T v' c p"
  by (cases p) simp_all

text \<open>A command is served, lost before it acts, or its reply is lost.\<close>

lemma serve_cases:
  assumes "serve f v = (v', r)"
  obtains (lost) "v' = v\<lparr>faults := tl (faults v)\<rparr>" "r = Inl io_error"
  | (served) x where "f (v\<lparr>faults := tl (faults v)\<rparr>) = (v', x)" "r = Inr x"
  | (silent) x where "f (v\<lparr>faults := tl (faults v)\<rparr>) = (v', x)" "r = Inl io_error"
  using assms by (cases "next_fault v"; cases "f (v\<lparr>faults := tl (faults v)\<rparr>)") (auto simp: serve_def Let_def)

text \<open>One call moves to its next point; the others keep theirs.\<close>

lemma pool_ok_move:
  assumes "pool_ok t0 T cap cs v pts" and i: "i < length cs"
    and "calm T v'" "within_caps cap v'" "clock v' = clock v"
    and q: "point_ok t0 T v' (cs ! i) q" "holds_lock q \<Longrightarrow> lock_live T v' (ca_session (cs ! i))"
    and free: "holds_lock q \<Longrightarrow> \<not> holds_lock (pts ! i) \<Longrightarrow> \<not> lock_live T v (ca_session (cs ! i))"
    and frame: "\<And>sid. sid \<noteq> ca_session (cs ! i) \<or> \<not> holds_lock (pts ! i) \<Longrightarrow>
      current_total v' sid = current_total v sid \<and> (lock_live T v sid \<longrightarrow> lock_live T v' sid)"
  shows "pool_ok t0 T cap cs v' (pts[i := q])"
proof -
  have len: "length pts = length cs" and t: "t0 \<le> clock v" "clock v \<le> T"
    and at: "\<And>j. j < length cs \<Longrightarrow> point_ok t0 T v (cs ! j) (pts ! j)"
    and live: "\<And>j. j < length cs \<Longrightarrow> holds_lock (pts ! j) \<Longrightarrow> lock_live T v (ca_session (cs ! j))"
    and one: "\<And>j k. j < length cs \<Longrightarrow> k < length cs \<Longrightarrow> holds_lock (pts ! j) \<Longrightarrow> holds_lock (pts ! k) \<Longrightarrow>
      ca_session (cs ! j) = ca_session (cs ! k) \<Longrightarrow> j = k"
    using assms(1) unfolding pool_ok_def by blast+
  have apart: "ca_session (cs ! j) \<noteq> ca_session (cs ! i) \<or> \<not> holds_lock (pts ! i)"
    if "j < length cs" "j \<noteq> i" "holds_lock (pts ! j)" for j
    using one [OF that(1) i that(3)] that(2) by blast
  have others: "point_ok t0 T v' (cs ! j) (pts ! j) \<and> (holds_lock (pts ! j) \<longrightarrow> lock_live T v' (ca_session (cs ! j)))"
    if "j < length cs" "j \<noteq> i" for j
    using point_ok_cong [OF _ at [OF that(1)], of v'] frame apart [OF that] live [OF that(1)] by blast
  have once: "j = i" if "j < length cs" "holds_lock (pts ! j)" "holds_lock q" "ca_session (cs ! j) = ca_session (cs ! i)" for j
  proof (cases "holds_lock (pts ! i)")
    case True
    then show ?thesis using one that i by blast
  next
    case False
    then show ?thesis using free [OF that(3)] live [OF that(1,2)] that(4) by simp
  qed
  show ?thesis
    unfolding pool_ok_def
  proof (intro conjI allI impI)
    show "calm T v'" "within_caps cap v'" "t0 \<le> clock v'" "clock v' \<le> T" "length (pts[i := q]) = length cs"
      using assms(3-5) t len by simp_all
    fix j assume j: "j < length cs"
    show "point_ok t0 T v' (cs ! j) (pts[i := q] ! j)" using others [OF j] q(1) len j by (cases "j = i") simp_all
    show "lock_live T v' (ca_session (cs ! j))" if "holds_lock (pts[i := q] ! j)"
      using others [OF j] q(2) len j that by (cases "j = i") simp_all
    fix k assume k: "k < length cs"
    show "j = k" if "holds_lock (pts[i := q] ! j)" "holds_lock (pts[i := q] ! k)" "ca_session (cs ! j) = ca_session (cs ! k)"
      using that one [OF j k] once [OF j] once [OF k] len j k
      by (cases "j = i"; cases "k = i") (simp_all add: nth_list_update)
  qed
qed

text \<open>The commands that read.\<close>

lemma pool_ok_quiet:
  assumes "pool_ok t0 T cap cs v pts" "i < length cs" "same_store v v'"
    and "point_ok t0 T v (cs ! i) q" "holds_lock q \<longleftrightarrow> holds_lock (pts ! i)"
  shows "pool_ok t0 T cap cs v' (pts[i := q])"
proof (rule pool_ok_move [OF assms(1,2)])
  note s = same_storeD [OF assms(3)]
  show "calm T v'" "within_caps cap v'" "clock v' = clock v"
    using assms(1) s by (simp_all add: pool_ok_def)
  show "point_ok t0 T v' (cs ! i) q" by (rule point_ok_cong [OF _ assms(4)]) (simp add: s)
  show "holds_lock q \<Longrightarrow> lock_live T v' (ca_session (cs ! i))"
    using assms(1,2,5) by (simp add: s pool_ok_def)
qed (use assms(5) same_storeD [OF assms(3)] in simp_all)

section \<open>One command at each point\<close>

text \<open>Next point \<open>q\<close>, next state \<open>v'\<close>: what a command of call \<open>c\<close> at \<open>pt\<close> does.\<close>

lemma start_command:
  assumes "run1 view_redis (code_at c Start) v = (v', p)"
  shows "v' = v \<and> p = code_at c (Listing (clock v))"
  using assms by (auto simp: prog_of_def reserve_def checked_prog_def v_now_def)

lemma nothing_due: "calm T v \<Longrightarrow> now \<le> T \<Longrightarrow> filter (\<lambda>p. 0 \<le> snd p \<and> snd p \<le> unix now) (zset v expiry_index_key) = []"
proof -
  assume c: "calm T v" and "now \<le> T"
  then have "unix now \<le> unix T" by (simp add: unix_def zdiv_mono1)
  then show ?thesis using c by (fastforce simp: calm_def index_def filter_empty_conv)
qed

lemma listing_command:
  assumes "calm T v" "now \<le> T" "run1 view_redis (code_at c (Listing now)) v = (v', p)"
  shows "same_store v v' \<and> (\<exists>q. p = code_at c q \<and> q \<in> {Checking, Finished (Inl io_error)})"
proof -
  obtain r where r: "v_z_range_by_score expiry_index_key 0 (unix now) v = (v', r)"
    and p: "p = bind_prog (case r of Inl e \<Rightarrow> Ret (Inl e) | Inr ms \<Rightarrow> sweep_members ms)
      (\<lambda>r. case r of Inl e \<Rightarrow> Ret (Inl e) | Inr _ \<Rightarrow> checked_prog c)"
    using assms(3) by (auto simp: sweep_expired_def try_prog_def apsnd_def map_prod_def split: prod.splits)
  have none: "filter (\<lambda>p. 0 \<le> snd p \<and> snd p \<le> unix now) (zset (v\<lparr>faults := f\<rparr>) expiry_index_key) = []" for f
    using nothing_due [OF assms(1,2)] by simp
  from r [unfolded v_z_range_by_score_def] show ?thesis
    by (rule serve_cases) (use p none in \<open>auto intro: exI [of _ "Finished (Inl io_error)"] exI [of _ Checking]\<close>)
qed

lemma checking_command:
  assumes "run1 view_redis (code_at c Checking) v = (v', p)"
  shows "same_store v v' \<and> (\<exists>q. p = code_at c q \<and> \<not> holds_lock q \<and> point_ok t0 T v c q)"
proof (cases "valid_call c")
  case True
  then have code: "checked_prog c = Get (idem_of c) (\<lambda>r.
      case (case r of Inr existing \<Rightarrow> if existing \<noteq> '''' then Some existing else None | Inl _ \<Rightarrow> None) of
        Some existing \<Rightarrow> Ret (Inr existing)
      | None \<Rightarrow> with_lock (ca_session c) (body_of_call c))"
    unfolding body_of_call_def by (simp add: checked_prog_def reserve_checked_def valid_call_def)
  obtain r where r: "v_get (idem_of c) v = (v', r)"
    and p: "p = (case (case r of Inr existing \<Rightarrow> if existing \<noteq> '''' then Some existing else None | Inl _ \<Rightarrow> None) of
        Some existing \<Rightarrow> Ret (Inr existing)
      | None \<Rightarrow> with_lock (ca_session c) (body_of_call c))"
    using assms by (auto simp: code apsnd_def map_prod_def split: prod.splits)
  have "same_store v v'"
    using r by (auto simp: v_get_def elim!: serve_cases split: prod.splits sum.splits option.splits)
  moreover have "\<exists>q. p = code_at c q \<and> \<not> holds_lock q \<and> point_ok t0 T v c q"
  proof (cases "case r of Inr existing \<Rightarrow> if existing \<noteq> '''' then Some existing else None | Inl _ \<Rightarrow> None")
    case None
    then show ?thesis using p True by (intro exI [of _ Locking]) simp
  next
    case (Some e)
    then show ?thesis using p by (intro exI [of _ "Finished (Inr e)"]) simp
  qed
  ultimately show ?thesis by blast
next
  case False
  have val: "positive_amount w x = Inr n \<Longrightarrow> value_of x = n" for w x n
    by (simp add: positive_amount_Inr value_of_def)
  obtain e where code: "checked_prog c = Ret (Inl e)"
  proof (cases "idem_key (ca_session c) (ca_key c)")
    case key: (Inr i)
    then have i: "idem_of c = i" by (simp add: idem_of_def)
    show thesis
    proof (cases "positive_amount ''amountAtomic'' (ca_amount c)")
      case amt: (Inr n)
      show thesis
      proof (cases "positive_amount ''maxTotalSpend'' (ca_cap c)")
        case (Inr m)
        then show thesis using False key Inr amt i val [OF amt] val [OF Inr] by (simp add: valid_call_def)
      qed (use that key amt in \<open>simp add: checked_prog_def reserve_checked_def\<close>)
    qed (use that key in \<open>simp add: checked_prog_def reserve_checked_def\<close>)
  qed (use that in \<open>simp add: checked_prog_def reserve_checked_def\<close>)
  then show ?thesis using assms by (intro conjI exI [of _ "Finished (Inl e)"]) simp_all
qed

lemma locking_command:
  assumes "run1 view_redis (code_at c Locking) v = (v', p)"
  obtains (kept) x where "same_store v v'" "p = code_at c (Finished x)"
  | (locked) q where "kv v (lock_key (ca_session c)) = None" "same_store (lock_held (ca_session c) v) v'"
      "p = code_at c q" "q = Reading \<or> q = Finished (Inl io_error)"
proof -
  let ?k = "lock_key (ca_session c)"
  obtain r where r: "v_set_nx ?k ''1'' (10 * second) v = (v', r)"
    and p: "p = (case r of Inl e \<Rightarrow> Ret (Inl e) | Inr acquired \<Rightarrow>
        if \<not> acquired then Ret (Inl budget_busy)
        else bind_prog (body_of_call c) (\<lambda>x. Del ?k (\<lambda>_. Ret x)))"
    using assms by (auto simp: with_lock_def apsnd_def map_prod_def split: prod.splits)
  have code: "bind_prog (body_of_call c) (\<lambda>x. Del ?k (\<lambda>_. Ret x)) = code_at c Reading"
    by (simp add: unlock_def [abs_def])
  have put: "same_store (lock_held (ca_session c) v) (put ?k ''1'' (10 * second) (v\<lparr>faults := f\<rparr>))" for f
    by (auto simp: same_store_def lock_held_def)
  let ?v = "v\<lparr>faults := tl (faults v)\<rparr>"
  from r [unfolded v_set_nx_def] show thesis
  proof (cases rule: serve_cases)
    case lost
    then show ?thesis using kept [of "Inl io_error"] p by simp
  next
    case (served x)
    show ?thesis
    proof (cases "kv v ?k")
      case None
      then show ?thesis using served p code put locked [of Reading] by auto
    next
      case (Some e)
      then show ?thesis using served p kept [of "Inl budget_busy"] by auto
    qed
  next
    case (silent x)
    show ?thesis
    proof (cases "kv v ?k")
      case None
      then show ?thesis using silent p put locked [of "Finished (Inl io_error)"] by auto
    next
      case (Some e)
      then show ?thesis using silent p kept [of "Inl io_error"] by auto
    qed
  qed
qed

lemma reading_command:
  assumes "totals_ok v" "valid_call c" "run1 view_redis (code_at c Reading) v = (v', p)"
  shows "same_store v v' \<and> (\<exists>q. p = code_at c q \<and> holds_lock q \<and> point_ok t0 T v c q)"
proof -
  let ?next = "\<lambda>s. (case set_string s of None \<Rightarrow> 0 | Some n \<Rightarrow> n) + value_of (ca_amount c)"
  let ?rest = "\<lambda>s. if value_of (ca_cap c) < ?next s then Ret (Inl budget_denied)
    else New_UUID (\<lambda>u. Now (\<lambda>now. Tx_Exec (write_of c (?next s) u now)
      (\<lambda>r. case r of Inl e \<Rightarrow> Ret (Inl e) | Inr _ \<Rightarrow> Ret (Inr (''res_'' @ u)))))"
  obtain r where r: "v_get (session_key (ca_session c)) v = (v', r)"
    and p: "p = bind_prog (case (case r of Inl Redis_Nil \<Rightarrow> Inr ''0'' | Inl (Redis_Err e) \<Rightarrow> Inl e | Inr v \<Rightarrow> Inr v) of
        Inl e \<Rightarrow> Ret (Inl e) | Inr s \<Rightarrow> ?rest s) (unlock c)"
    using assms(3) unfolding code_at.simps body_of_call_def reserve_body_def write_of_def Let_def
    by (auto simp: apsnd_def map_prod_def split: prod.splits)
  have code: "bind_prog (?rest s) (unlock c) =
      (if value_of (ca_cap c) < ?next s then code_at c (Unlocking (Inl budget_denied)) else code_at c (Naming (?next s)))" for s
    by (auto simp: writing_prog_def unlock_def sum.case_distrib [of "\<lambda>p. bind_prog p f" for f] cong: sum.case_cong
        intro!: ext split: sum.split)
  have cur: "r = Inl Redis_Nil \<and> current_total v (ca_session c) = 0 \<or>
      (\<exists>e. r = Inl (Redis_Err e)) \<or> (\<exists>s. r = Inr s \<and> set_string s = Some (current_total v (ca_session c)))"
    and same: "same_store v v'"
    using r assms(1)
    by (auto simp: v_get_def current_total_def total_def totals_ok_def elim!: serve_cases
        split: prod.splits sum.splits option.splits) force+
  have zero: "set_string ''0'' = Some 0" by (rule set_string_zero)
  have "\<exists>q. p = code_at c q \<and> holds_lock q \<and> point_ok t0 T v c q"
    using cur
  proof (elim disjE exE conjE)
    assume "r = Inl Redis_Nil" "current_total v (ca_session c) = 0"
    then show ?thesis using p code [of "''0''"] zero assms(2)
      by (cases "value_of (ca_cap c) < value_of (ca_amount c)")
        (auto intro: exI [of _ "Unlocking (Inl budget_denied)"] exI [of _ "Naming (value_of (ca_amount c))"])
  next
    fix e assume "r = Inl (Redis_Err e)"
    then show ?thesis using p by (intro exI [of _ "Unlocking (Inl e)"]) simp
  next
    fix s assume "r = Inr s" "set_string s = Some (current_total v (ca_session c))"
    then show ?thesis using p code [of s] assms(2)
      by (cases "value_of (ca_cap c) < ?next s")
        (auto intro: exI [of _ "Unlocking (Inl budget_denied)"] exI [of _ "Naming (?next s)"])
  qed
  then show ?thesis using same by blast
qed

lemma naming_command:
  assumes "calm T v" "point_ok t0 T v c (Naming n)" "run1 view_redis (code_at c (Naming n)) v = (v', p)"
  shows "same_store v v' \<and> (\<exists>u. p = code_at c (Timing n u) \<and> point_ok t0 T v c (Timing n u))"
  using assms by (auto simp: v_uuid_def calm_def)

lemma timing_command:
  assumes "t0 \<le> clock v" "point_ok t0 T v c (Timing n u)" "run1 view_redis (code_at c (Timing n u)) v = (v', p)"
  shows "v' = v \<and> p = code_at c (Writing n u (clock v)) \<and> point_ok t0 T v c (Writing n u (clock v))"
  using assms by (auto simp: v_now_def)

text \<open>The transaction, as one change of the store.\<close>

definition written :: "call \<Rightarrow> int \<Rightarrow> string \<Rightarrow> int \<Rightarrow> rview \<Rightarrow> rview" where
  "written c n u now v = fold pipe1 (write_of c n u now) v"

lemma writing_command:
  assumes "run1 view_redis (code_at c (Writing n u now)) v = (v', p)"
  shows "\<exists>x. p = code_at c (Unlocking x) \<and> (same_store v v' \<or> (\<exists>f. v' = written c n u now (v\<lparr>faults := f\<rparr>)))"
proof -
  obtain r where r: "v_tx_exec (write_of c n u now) v = (v', r)"
    and p: "p = unlock c (case r of Inl e \<Rightarrow> Inl e | Inr _ \<Rightarrow> Inr (''res_'' @ u))"
    using assms by (auto simp: writing_prog_def apsnd_def map_prod_def split: prod.splits)
  have "same_store v v' \<or> (\<exists>f. v' = written c n u now (v\<lparr>faults := f\<rparr>))"
    using r [unfolded v_tx_exec_def] by (rule serve_cases) (auto simp: written_def)
  then show ?thesis using p by auto
qed

lemma unlocking_command:
  assumes "run1 view_redis (code_at c (Unlocking x)) v = (v', p)"
  shows "p = code_at c (Finished x) \<and>
    (same_store v v' \<or> (\<exists>f. v' = del_key (lock_key (ca_session c)) (v\<lparr>faults := f\<rparr>)))"
proof -
  obtain r where r: "v_del (lock_key (ca_session c)) v = (v', r)" and p: "p = Ret x"
    using assms by (auto simp: unlock_def apsnd_def map_prod_def split: prod.splits)
  have "same_store v v' \<or> (\<exists>f. v' = del_key (lock_key (ca_session c)) (v\<lparr>faults := f\<rparr>))"
    using r [unfolded v_del_def] by (rule serve_cases) auto
  then show ?thesis using p by simp
qed

section \<open>What the writes do\<close>

lemma held_of_without_le:
  assumes "\<forall>p \<in> set xs. good_member (fst p)"
  shows "held_of (z_without m xs) sid \<le> held_of xs sid"
  using assms
proof (induction xs)
  case (Cons p xs)
  have "0 < amount_of (fst p)" using Cons.prems good_memberD(3) by simp
  then show ?case using Cons by (auto simp: held_of_def z_without_def)
qed (simp add: z_without_def)

lemma written_frame:
  "clock (written c n u now v) = clock v" "uuids (written c n u now v) = uuids v"
  "index (written c n u now v) =
     z_insert (expiry_member (''res_'' @ u) (ca_session c) (ca_amount c),
         unix (now + ttl_seconds (ca_pre c) * second))
       (z_without (expiry_member (''res_'' @ u) (ca_session c) (ca_amount c)) (index v))"
  by (simp_all add: written_def write_of_def reserve_tx_def index_def)

lemma written_kv:
  assumes "valid_call c"
  shows "kv (written c n u now v) (session_key sid) =
      (if sid = ca_session c then Some (show_int n, Some (clock v + aggregate_ttl (ca_agg c))) else kv v (session_key sid))"
    and "kv (written c n u now v) (lock_key sid) = kv v (lock_key sid)"
proof -
  have i: "idem_key (ca_session c) (ca_key c) = Inr (idem_of c)" using assms by (simp add: valid_call_def)
  note d = idem_key_distinct [OF i] idem_key_distinct [OF i, symmetric]
  show "kv (written c n u now v) (session_key sid) =
      (if sid = ca_session c then Some (show_int n, Some (clock v + aggregate_ttl (ca_agg c))) else kv v (session_key sid))"
    "kv (written c n u now v) (lock_key sid) = kv v (lock_key sid)"
    by (simp_all add: written_def write_of_def reserve_tx_def d)
qed

lemma current_total_nonneg: "totals_ok v \<Longrightarrow> 0 \<le> current_total v sid"
  using total_nonneg by (fastforce simp: current_total_def split: option.split)

lemma written_ok:
  assumes v: "calm T v" "within_caps cap v" and c: "call_ok cap c" and at: "point_ok t0 T v c (Writing n u now)"
    and t: "T < t0 + 10 * second" "t0 \<le> clock v"
  shows "calm T (written c n u now v)" "within_caps cap (written c n u now v)"
    and "sid \<noteq> ca_session c \<Longrightarrow> current_total (written c n u now v) sid = current_total v sid"
    and "lock_live T (written c n u now v) = lock_live T v"
proof -
  let ?w = "written c n u now v"
  let ?m = "expiry_member (''res_'' @ u) (ca_session c) (ca_amount c)"
  have at': "valid_call c" "CHR ''|'' \<notin> set u" "n = current_total v (ca_session c) + value_of (ca_amount c)"
    "n \<le> value_of (ca_cap c)" "t0 \<le> now" using at by simp_all
  have ca: "CHR ''|'' \<notin> set (ca_session c)" "11 \<le> ttl_seconds (ca_pre c)"
    "10 * second \<le> aggregate_ttl (ca_agg c)" "value_of (ca_cap c) \<le> cap (ca_session c)" using c by (simp_all add: call_ok_def)
  have amt: "set_string (ca_amount c) = Some (value_of (ca_amount c))" "0 < value_of (ca_amount c)"
    using at'(1) by (simp_all add: valid_call_def positive_amount_Inr)
  have ok: "totals_ok v" and good: "\<forall>p \<in> set (index v). good_member (fst p)" using v(1) by (simp_all add: calm_def)
  have n: "0 \<le> n" using current_total_nonneg [OF ok] amt(2) at'(3) by (simp add: add_increasing)
  have bar: "CHR ''|'' \<notin> set (''res_'' @ u)" using at'(2) by simp
  have m: "good_member ?m" "sid_of ?m = ca_session c" "amount_of ?m = value_of (ca_amount c)"
    using amt bar ca(1) unfolding good_member_def amount_of_def expiry_member_parts [OF bar ca(1)]
    by (blast, simp_all)
  have tot: "total ?w sid = (if sid = ca_session c then Some n else total v sid)" for sid
    by (simp add: total_def written_kv [OF at'(1)])
  then have cur: "current_total ?w sid = (if sid = ca_session c then n else current_total v sid)" for sid
    by (simp add: current_total_def)
  show "sid \<noteq> ca_session c \<Longrightarrow> current_total ?w sid = current_total v sid" by (simp add: cur)
  show "lock_live T ?w = lock_live T v" by (rule ext) (simp add: lock_live_def written_kv [OF at'(1)])
  have late: "unix T < unix (now + ttl_seconds (ca_pre c) * second)"
  proof -
    have "unix T \<le> unix (t0 + 10 * second)" using t(1) by (simp add: unix_def zdiv_mono1)
    also have "\<dots> < unix (t0 + 11 * second)" by (simp add: unix_def second_def)
    also have "\<dots> \<le> unix (now + ttl_seconds (ca_pre c) * second)"
      using at'(5) ca(2) unfolding unix_def by (intro zdiv_mono1 add_mono mult_right_mono) (simp_all add: second_def)
    finally show ?thesis .
  qed
  have "T < clock v + aggregate_ttl (ca_agg c)" using t ca(3) by simp
  then show "calm T ?w"
    using v(1) n m(1) late
    by (auto simp: calm_def totals_ok_def written_frame written_kv [OF at'(1)] z_without_def split: if_splits)
  show "within_caps cap ?w"
    unfolding within_caps_def
  proof (intro allI conjI)
    fix sid
    have "held_of (index ?w) sid \<le> held_of (index v) sid + (if sid = ca_session c then value_of (ca_amount c) else 0)"
      using held_of_without_le [OF good] m by (simp add: written_frame held_of_insert)
    also have "\<dots> \<le> current_total ?w sid"
      unfolding cur using v(2) at'(3) by (simp add: within_caps_def)
    finally show "held_of (index ?w) sid \<le> current_total ?w sid" .
    show "current_total ?w sid \<le> cap sid"
      using v(2) at'(4) ca(4) by (simp add: within_caps_def cur)
  qed
qed

section \<open>Every step keeps the invariant\<close>

lemma lock_change:
  assumes "calm T v" "within_caps cap v"
    and "\<And>sid. kv w (session_key sid) = kv v (session_key sid)" "zset w expiry_index_key = zset v expiry_index_key"
      "uuids w = uuids v"
  shows "calm T w" "within_caps cap w" "current_total w = current_total v"
proof -
  have i: "index w = index v" by (simp add: index_def assms(4))
  show t: "current_total w = current_total v" by (rule ext) (simp add: current_total_def total_def assms(3))
  show "calm T w" using assms(1) by (simp add: calm_def totals_ok_def i assms(3,5))
  show "within_caps cap w" using assms(2) by (simp add: within_caps_def i t)
qed

lemma locking_step:
  assumes ok: "pool_ok t0 T cap cs v pts" and T: "T < t0 + 10 * second"
    and i: "i < length cs" and pt: "pts ! i = Locking" and r: "run1 view_redis (code_at (cs ! i) Locking) v = (v', p)"
  shows "\<exists>q. p = code_at (cs ! i) q \<and> pool_ok t0 T cap cs v' (pts[i := q])"
  using r
proof (cases rule: locking_command)
  case (kept x)
  then show ?thesis using pool_ok_quiet [OF ok i, of v' "Finished x"] pt by (intro exI [of _ "Finished x"]) simp
next
  case (locked q)
  let ?w = "lock_held (ca_session (cs ! i)) v"
  have v: "calm T v" "within_caps cap v" "t0 \<le> clock v" and at: "point_ok t0 T v (cs ! i) (pts ! i)"
    using ok i by (simp_all add: pool_ok_def)
  have w: "calm T ?w" "within_caps cap ?w" "current_total ?w = current_total v"
    by (rule lock_change [OF v(1,2)]; simp add: lock_held_def)+
  have l: "lock_live T ?w sid \<longleftrightarrow> sid = ca_session (cs ! i) \<or> lock_live T v sid" for sid
    using T v(3) by (simp add: lock_live_def lock_held_def second_def)
  have ck: "clock ?w = clock v" by (simp add: lock_held_def)
  note s = same_storeD [OF locked(2)]
  have "pool_ok t0 T cap cs v' (pts[i := q])"
    by (rule pool_ok_move [OF ok i])
      (use locked(1,4) at pt w in \<open>auto simp: s l ck lock_live_def [of T v]\<close>)
  then show ?thesis using locked(3) by blast
qed

lemma writing_step:
  assumes ok: "pool_ok t0 T cap cs v pts" and T: "T < t0 + 10 * second" and c: "call_ok cap (cs ! i)"
    and i: "i < length cs" and pt: "pts ! i = Writing n u now"
    and r: "run1 view_redis (code_at (cs ! i) (Writing n u now)) v = (v', p)"
  shows "\<exists>x. p = code_at (cs ! i) (Unlocking x) \<and> pool_ok t0 T cap cs v' (pts[i := Unlocking x])"
proof -
  let ?c = "cs ! i"
  have v: "calm T v" "within_caps cap v" "t0 \<le> clock v" and at: "point_ok t0 T v ?c (Writing n u now)"
    and live: "lock_live T v (ca_session ?c)"
    using ok i pt unfolding pool_ok_def by (metis holds_lock.simps(4))+
  from writing_command [OF r] obtain x where p: "p = code_at ?c (Unlocking x)"
    and d: "same_store v v' \<or> (\<exists>f. v' = written ?c n u now (v\<lparr>faults := f\<rparr>))" by blast
  from d have "pool_ok t0 T cap cs v' (pts[i := Unlocking x])"
  proof
    assume "same_store v v'"
    then show ?thesis using pool_ok_quiet [OF ok i, of v' "Unlocking x"] pt by simp
  next
    assume "\<exists>f. v' = written ?c n u now (v\<lparr>faults := f\<rparr>)"
    then obtain f where e: "v' = written ?c n u now (v\<lparr>faults := f\<rparr>)" by blast
    let ?v = "v\<lparr>faults := f\<rparr>"
    have s: "same_store v ?v" by simp
    have "point_ok t0 T ?v ?c (Writing n u now)" using at same_storeD(3) [OF s] by simp
    note w = written_ok [OF same_storeD(1) [OF s v(1)] _ c this T] same_storeD [OF s]
    show ?thesis
      by (rule pool_ok_move [OF ok i]) (use w v live pt written_frame(1) in \<open>auto simp: e\<close>)
  qed
  then show ?thesis using p by blast
qed

lemma unlocking_step:
  assumes ok: "pool_ok t0 T cap cs v pts" and i: "i < length cs" and pt: "pts ! i = Unlocking x"
    and r: "run1 view_redis (code_at (cs ! i) (Unlocking x)) v = (v', p)"
  shows "p = code_at (cs ! i) (Finished x) \<and> pool_ok t0 T cap cs v' (pts[i := Finished x])"
proof -
  let ?s = "ca_session (cs ! i)"
  have v: "calm T v" "within_caps cap v" using ok by (simp_all add: pool_ok_def)
  have p: "p = code_at (cs ! i) (Finished x)"
    and d: "same_store v v' \<or> (\<exists>f. v' = del_key (lock_key ?s) (v\<lparr>faults := f\<rparr>))"
    using unlocking_command [OF r] by auto
  from d have k: "calm T v' \<and> within_caps cap v' \<and> current_total v' = current_total v \<and> clock v' = clock v \<and>
      (\<forall>sid. sid \<noteq> ?s \<longrightarrow> lock_live T v' sid = lock_live T v sid)"
  proof
    assume "same_store v v'"
    then show ?thesis using v by (simp add: same_storeD)
  next
    assume "\<exists>f. v' = del_key (lock_key ?s) (v\<lparr>faults := f\<rparr>)"
    then obtain f where e: "v' = del_key (lock_key ?s) (v\<lparr>faults := f\<rparr>)" by blast
    then show ?thesis
      by (intro conjI lock_change [OF v]) (simp_all add: del_key_def lock_live_def)
  qed
  have "pool_ok t0 T cap cs v' (pts[i := Finished x])"
    by (rule pool_ok_move [OF ok i]) (use k pt in auto)
  then show ?thesis using p by blast
qed

lemma point_step:
  assumes ok: "pool_ok t0 T cap cs v pts" and T: "T < t0 + 10 * second" and c: "\<forall>c \<in> set cs. call_ok cap c"
    and i: "i < length cs" and r: "run1 view_redis (code_at (cs ! i) (pts ! i)) v = (v', p)"
  shows "\<exists>q. p = code_at (cs ! i) q \<and> pool_ok t0 T cap cs v' (pts[i := q])"
proof -
  let ?c = "cs ! i"
  have v: "calm T v" "t0 \<le> clock v" "clock v \<le> T" "totals_ok v"
    using ok by (simp_all add: pool_ok_def calm_def)
  have at: "point_ok t0 T v ?c (pts ! i)" using ok i by (simp add: pool_ok_def)
  have quiet: "same_store v v' \<Longrightarrow> p = code_at ?c q \<Longrightarrow> point_ok t0 T v ?c q \<Longrightarrow> holds_lock q \<longleftrightarrow> holds_lock (pts ! i) \<Longrightarrow> ?thesis" for q
    using pool_ok_quiet [OF ok i] by blast
  show ?thesis
  proof (cases "pts ! i")
    case Start
    show ?thesis by (rule quiet [of "Listing (clock v)"])
        (use start_command [of ?c v v' p] r v(3) Start in simp_all)
  next
    case (Listing now)
    then obtain q where "same_store v v'" "p = code_at ?c q" "q \<in> {Checking, Finished (Inl io_error)}"
      using listing_command [OF v(1), of now ?c v' p] at r by auto
    then show ?thesis using quiet [of q] Listing by auto
  next
    case Checking
    then show ?thesis using checking_command [of ?c v v' p t0 T] r quiet by auto
  next
    case Locking
    then show ?thesis using locking_step [OF ok T i Locking] r by simp
  next
    case Reading
    then show ?thesis using reading_command [OF v(4), of ?c v' p t0 T] at r quiet by auto
  next
    case (Naming n)
    then obtain u where "same_store v v'" "p = code_at ?c (Timing n u)" "point_ok t0 T v ?c (Timing n u)"
      using naming_command [OF v(1), of t0 ?c n v' p] at r by (metis (no_types))
    then show ?thesis using quiet [of "Timing n u"] Naming by simp
  next
    case (Timing n u)
    then have "v' = v \<and> p = code_at ?c (Writing n u (clock v)) \<and> point_ok t0 T v ?c (Writing n u (clock v))"
      using timing_command [OF v(2), of T ?c n u v' p] at r by (metis (no_types))
    then show ?thesis using quiet [of "Writing n u (clock v)"] Timing by simp
  next
    case (Writing n u now)
    then show ?thesis using writing_step [OF ok T _ i Writing] c i r by (metis nth_mem)
  next
    case (Unlocking x)
    then show ?thesis using unlocking_step [OF ok i Unlocking] r by (metis (no_types))
  next
    case (Finished x)
    show ?thesis by (rule quiet [of "Finished x"]) (use r Finished in simp_all)
  qed
qed

lemma tick_step:
  assumes "pool_ok t0 T cap cs v pts" "0 \<le> d" "clock (pass d v) \<le> T"
  shows "pool_ok t0 T cap cs (pass d v) pts"
proof -
  let ?w = "pass d v"
  have v: "calm T v" "within_caps cap v" using assms(1) by (simp_all add: pool_ok_def)
  have t: "clock v + d \<le> T" using assms(3) by (simp add: pass_def)
  have kv: "kv ?w (session_key sid) = kv v (session_key sid)" for sid
    using v(1) t unfolding calm_def pass_def by (fastforce split: option.split)
  have w: "calm T ?w" "within_caps cap ?w" "current_total ?w = current_total v"
    by (rule lock_change [OF v kv]; simp add: pass_def)+
  have l: "lock_live T v sid \<Longrightarrow> lock_live T ?w sid" for sid
    using t by (auto simp: lock_live_def pass_def)
  have "point_ok t0 T v c p \<Longrightarrow> point_ok t0 T ?w c p" for c p
    by (rule point_ok_cong) (simp_all add: w)
  moreover have "clock ?w = clock v + d" by (simp add: pass_def)
  ultimately show ?thesis
    using assms w l unfolding pool_ok_def by simp
qed

section \<open>Runs\<close>

definition codes :: "call list \<Rightarrow> point list \<Rightarrow> string res prog list" where
  "codes cs pts = map (\<lambda>(c, pt). code_at c pt) (zip cs pts)"

lemma codes_simps:
  assumes "length pts = length cs"
  shows "length (codes cs pts) = length cs" "i < length cs \<Longrightarrow> codes cs pts ! i = code_at (cs ! i) (pts ! i)"
    "i < length cs \<Longrightarrow> codes cs (pts[i := q]) = (codes cs pts)[i := code_at (cs ! i) q]"
  using assms by (auto simp: codes_def intro: nth_equalityI simp: nth_list_update)

context redis_server
begin

lemma pool_invariant:
  assumes T: "T < t0 + 10 * second" and c: "\<forall>c \<in> set cs. call_ok cap c"
    and "pool_run R view T st st'" and "pool_ok t0 T cap cs (view (fst st)) pts" "snd st = codes cs pts"
  shows "\<exists>pts'. pool_ok t0 T cap cs (view (fst st')) pts' \<and> snd st' = codes cs pts'"
  using assms(3)
proof (induction rule: rtranclp_induct)
  case base
  then show ?case using assms(4,5) by blast
next
  case (step st1 st2)
  then obtain pts' where ok: "pool_ok t0 T cap cs (view (fst st1)) pts'" and ps: "snd st1 = codes cs pts'" by blast
  have len: "length pts' = length cs" using ok by (simp add: pool_ok_def)
  from step.hyps(2) show ?case
  proof (cases rule: pool_step.cases)
    case (command i ps w w' p)
    then have i: "i < length cs" using ps codes_simps(1) [OF len] by simp
    have "run1 view_redis (code_at (cs ! i) (pts' ! i)) (view w) = (view w', p)"
      using run1_view [of "ps ! i" w] command ps codes_simps(2) [OF len i] by simp
    then obtain q where "p = code_at (cs ! i) q" "pool_ok t0 T cap cs (view w') (pts'[i := q])"
      using point_step [OF _ T c i, of "view w" pts' "view w'" p] ok command(1) by auto
    then show ?thesis using command ps codes_simps(3) [OF len i] by auto
  next
    case (tick d w' w ps)
    then show ?thesis using tick_step [of t0 T cap cs "view w" pts' d] ok ps by auto
  qed
qed

text \<open>A call run to its end is one way the pool can run.\<close>

lemma pool_run_command:
  "i < length ps \<Longrightarrow> pool_run R view T (fst (run1 R p w), ps[i := snd (run1 R p w)]) st \<Longrightarrow>
     pool_run R view T (w, ps[i := p]) st"
  using pool_step.command [of i "ps[i := p]" R w "fst (run1 R p w)" "snd (run1 R p w)" view T]
  by (simp add: converse_rtranclp_into_rtranclp)

lemma pool_run_one:
  "i < length ps \<Longrightarrow> run R p w = (w', x) \<Longrightarrow> pool_run R view T (w, ps[i := p]) (w', ps[i := Ret x])"
proof (induction p arbitrary: w)
  case (Ret y)
  then show ?case by simp
qed (rule pool_run_command, assumption, simp add: split_beta)+

end

lemma start_pool:
  assumes "calm T v" "within_caps cap v" "clock v \<le> T"
  shows "pool_ok (clock v) T cap cs v (map (\<lambda>_. Start) cs)"
  using assms by (simp add: pool_ok_def)

lemma start_codes: "map prog_of cs = codes cs (map (\<lambda>_. Start) cs)"
  by (rule nth_equalityI) (simp_all add: codes_def)

section \<open>The property\<close>


definition sample_calls :: "call list" where
  "sample_calls = [\<lparr>ca_session = ''s'', ca_key = k, ca_amount = ''10'', ca_cap = ''25'', ca_pre = 5 * minute, ca_agg = hour\<rparr>.
     k \<leftarrow> [''k'', ''l'']]"


section \<open>When a lock does expire\<close>

lemma pool_run_interleave:
  "interleave R ms p q w = (w', p', q') \<Longrightarrow> pool_run R view T (w, [p, q]) (w', [p', q'])"
proof (induction R ms p q w rule: interleave.induct)
  case (2 R ms p q w)
  obtain w1 p1 where r: "run1 R p w = (w1, p1)" by (cases "run1 R p w")
  then have "pool_step R view T (w, [p, q]) (w1, [p1, q])"
    using pool_step.command [of 0 "[p, q]"] by simp
  then show ?case using 2 r by (simp add: converse_rtranclp_into_rtranclp)
next
  case (3 R ms p q w)
  obtain w1 q1 where r: "run1 R q w = (w1, q1)" by (cases "run1 R q w")
  then have "pool_step R view T (w, [p, q]) (w1, [p, q1])"
    using pool_step.command [of 1 "[p, q]"] by simp
  then show ?case using 3 r by (simp add: converse_rtranclp_into_rtranclp)
qed simp

lemma pass_lock_held: "clean s \<Longrightarrow> pass (10 * second) (lock_held sid s) = pass (10 * second) s"
  by (intro rview_eqI ext) (auto simp: pass_def lock_held_def clean_def split: option.split)

lemma lock_and_read:
  assumes "clean s" "totals_ok s" "current_total s (ca_session c) + value_of (ca_amount c) \<le> value_of (ca_cap c)"
  shows "interleave view_redis [First, First] (code_at c Locking) q s =
    (lock_held (ca_session c) s, code_at c (Naming (current_total s (ca_session c) + value_of (ca_amount c))), q)"
proof -
  let ?k = "lock_key (ca_session c)" and ?s = "lock_held (ca_session c) s"
  have f: "faults s = []" "faults ?s = []" and n: "kv s ?k = None"
    using assms(1) by (simp_all add: lock_held_def clean_def)
  have nx: "v_set_nx ?k ''1'' (10 * second) s = (?s, Inr True)"
    using f n by (simp add: v_set_nx_def serve_healthy lock_held_def)
  have get: "v_get (session_key (ca_session c)) ?s =
      (?s, case kv s (session_key (ca_session c)) of None \<Rightarrow> Inl Redis_Nil | Some (v, _) \<Rightarrow> Inr v)"
    using v_get_healthy [OF f(2)] by (simp add: lock_held_def)
  show ?thesis
    using assms(2,3) set_string_zero
    by (cases "kv s (session_key (ca_session c))")
      (force simp: with_lock_def nx body_of_call_def reserve_body_def get current_total_def total_def totals_ok_def
        writing_prog_def write_of_def unlock_def Let_def intro!: ext split: sum.split)+
qed

lemma run_naming:
  assumes "clean s" "valid_call c"
  shows "run view_redis (code_at c (Naming n)) s =
    (reserved (ca_session c) (idem_of c) (ca_amount c) n (ttl_seconds (ca_pre c)) (aggregate_ttl (ca_agg c)) s,
     Inr (next_rid s))"
proof -
  let ?t = "reserved (ca_session c) (idem_of c) (ca_amount c) n (ttl_seconds (ca_pre c)) (aggregate_ttl (ca_agg c)) s"
  have f: "faults s = []" using assms(1) by (simp add: clean_def)
  have i: "idem_key (ca_session c) (ca_key c) = Inr (idem_of c)" using assms(2) by (simp add: valid_call_def)
  have "del_key (lock_key (ca_session c)) ?t = ?t"
    using assms(1) by (intro rview_eqI ext) (auto simp: clean_def reserved_kv reserved_zset idem_key_distinct [OF i])
  then have del: "v_del (lock_key (ca_session c)) ?t = (?t, Inr ())"
    using f by (simp add: v_del_def serve_healthy)
  have tx: "v_tx_exec (write_of c n (uuids s 0) (clock s)) (s\<lparr>uuids := (\<lambda>n. uuids s (Suc n))\<rparr>) = (?t, Inr ())"
    using f by (simp add: v_tx_exec_def serve_healthy write_of_def reserved_def next_rid_def)
  show ?thesis by (simp add: writing_prog_def unlock_def v_uuid_def v_now_def tx del) (simp add: next_rid_def)
qed

text \<open>A call that has read the aggregate and pauses until its lock is gone.\<close>

lemma paused_call:
  assumes "idle s" "due (clock s + 10 * second) s = []" "ca_session c = sid" "valid_call c"
    and "live_reservation s (idem_of c) = None" "current_total s sid + value_of (ca_amount c) \<le> value_of (ca_cap c)"
  shows "pool_run view_redis (\<lambda>s. s) (clock s + 10 * second) (s, [prog_of c, q])
    (pass (10 * second) s, [code_at c (Naming (current_total s sid + value_of (ca_amount c))), q])"
proof -
  let ?T = "clock s + 10 * second" and ?n = "current_total s sid + value_of (ca_amount c)"
  let ?pool = "pool_run view_redis (\<lambda>s. s) ?T"
  note clean = idleD(1,2) [OF assms(1)]
  have key: "idem_key sid (ca_key c) = Inr (idem_of c)"
    and pos: "positive_amount ''amountAtomic'' (ca_amount c) = Inr (value_of (ca_amount c))"
      "positive_amount ''maxTotalSpend'' (ca_cap c) = Inr (value_of (ca_cap c))"
    using assms(3,4) by (simp_all add: valid_call_def)
  have quiet: "due (clock s) s = []"
    using assms(2) zdiv_mono1 [of "clock s" ?T second] by (force simp: due_def filter_empty_conv unix_def)
  have 1: "?pool (s, [prog_of c, q]) (s, [code_at c Locking, q])"
    using reserve_up_to_lock [OF assms(1) quiet key assms(5) pos]
    by (intro pool_run_interleave [of _ "[First, First, First]"]) (simp add: prog_of_def body_of_call_def assms(3))
  have 2: "?pool (s, [code_at c Locking, q]) (lock_held sid s, [code_at c (Naming ?n), q])"
    using lock_and_read [OF clean, of c] assms(3,6) by (intro pool_run_interleave [of _ "[First, First]"]) simp
  have 3: "?pool (lock_held sid s, [code_at c (Naming ?n), q]) (pass (10 * second) s, [code_at c (Naming ?n), q])"
    using pass_lock_held [OF clean(1), of sid]
    by (intro r_into_rtranclp pool_step.tick [of "10 * second"]) (simp_all add: lock_held_def less_imp_le)
  show ?thesis by (rule rtranclp_trans [OF rtranclp_trans [OF 1 2] 3])
qed

text \<open>
  C29: the ten seconds matter: nobody checks that the lock is still held. A call that has read
  the aggregate and pauses until its lock expires writes what it read: a reservation another
  call made meanwhile stays pending and is missing from the aggregate, so that its amount can
  be reserved again.
\<close>

theorem expired_lock_loses_a_reservation:
  assumes "idle s" and "genuine s" and "due (clock s + 10 * second) s = []"
    and "ca_session c = sid" and "ca_session d = sid" and "CHR ''|'' \<notin> set sid"
    and "\<forall>x t. kv s (session_key sid) = Some (x, Some t) \<longrightarrow> clock s + 10 * second < t"
    and "valid_call c" and "valid_call d" and "live_reservation s (idem_of c) = None" and "live_reservation s (idem_of d) = None"
    and "current_total s sid + value_of (ca_amount c) \<le> value_of (ca_cap c)"
    and "current_total s sid + value_of (ca_amount d) \<le> value_of (ca_cap d)"
  shows "\<exists>t rid1 rid2.
    pool_run view_redis (\<lambda>s. s) (clock s + 10 * second) (s, [prog_of c, prog_of d]) (t, [Ret (Inr rid1), Ret (Inr rid2)]) \<and>
    current_total t sid = current_total s sid + value_of (ca_amount c) \<and>
    held_of (index t) sid = held_of (index s) sid + value_of (ca_amount c) + value_of (ca_amount d)"
proof -
  let ?T = "clock s + 10 * second" and ?s2 = "pass (10 * second) s"
  let ?a = "value_of (ca_amount c)" and ?b = "value_of (ca_amount d)"
  let ?n = "current_total s sid + ?a" and ?m = "current_total s sid + ?b"
  let ?pool = "pool_run view_redis (\<lambda>s. s) ?T"
  note clean = idleD(1,2) [OF assms(1)]
  have key: "idem_key sid (ca_key c) = Inr (idem_of c)" "idem_key sid (ca_key d) = Inr (idem_of d)"
    and pos: "positive_amount ''amountAtomic'' (ca_amount d) = Inr ?b" "positive_amount ''maxTotalSpend'' (ca_cap d) = Inr (value_of (ca_cap d))"
    and amt: "set_string (ca_amount c) = Some ?a" "0 < ?a" "set_string (ca_amount d) = Some ?b" "0 < ?b"
    using assms(4,5,8,9) by (simp_all add: valid_call_def positive_amount_Inr)
  have idle: "idle ?s2" by (rule idle_pass [OF assms(1)])
  have gen: "genuine ?s2" using assms(2) by (simp add: genuine_def)
  have cur: "current_total ?s2 sid = current_total s sid"
    using assms(7) by (force simp: current_total_def total_def pass_def split: option.split)
  have live: "live_reservation ?s2 (idem_of d) = None"
    using assms(11) by (auto simp: live_reservation_def pass_def split: option.splits if_splits)
  have swept: "swept ?T ?s2 = ?s2" using assms(3) by (simp add: swept_def due_def)
  have n: "0 \<le> ?n" "0 \<le> ?m" using current_total_nonneg [OF clean(2)] amt(2,4) by (simp_all add: add_nonneg_nonneg less_imp_le)
  let ?s3 = "reserved sid (idem_of d) (ca_amount d) ?m (ttl_seconds (ca_pre d)) (aggregate_ttl (ca_agg d)) ?s2"
  have 2: "run view_redis (prog_of d) ?s2 = (?s3, Inr (next_rid ?s2))"
    using assms(5,13) live key(2) pos by (simp add: prog_of_def run_reserve [OF idle] swept reserve_outcome_def cur Let_def)
  note new = new_member [OF genuine_fresh [OF gen] assms(6) amt(3,4)]
  note eff2 = reserved_effect [OF idle genuine_fresh [OF gen] assms(6) amt(3,4) key(2) n(2),
      of "ttl_seconds (ca_pre d)" "aggregate_ttl (ca_agg d)"]
  have gen3: "genuine ?s3"
    by (rule genuine_reserved [OF gen, of _ "new_member ?s2 sid (ca_amount d)"]) (simp_all add: eff2(2) new(2))
  let ?s4 = "reserved sid (idem_of c) (ca_amount c) ?n (ttl_seconds (ca_pre c)) (aggregate_ttl (ca_agg c)) ?s3"
  have 3: "run view_redis (code_at c (Naming ?n)) ?s3 = (?s4, Inr (next_rid ?s3))"
    using run_naming [OF idleD(1) [OF eff2(5)] assms(8)] by (simp add: assms(4))
  note eff3 = reserved_effect [OF eff2(5) genuine_fresh [OF gen3] assms(6) amt(1,2) key(1) n(1),
      of "ttl_seconds (ca_pre c)" "aggregate_ttl (ca_agg c)"]
  have 4: "?pool (?s2, [code_at c (Naming ?n), prog_of d]) (?s3, [code_at c (Naming ?n), Ret (Inr (next_rid ?s2))])"
    using view_server.pool_run_one [of 1 "[code_at c (Naming ?n), prog_of d]", OF _ 2] by (simp del: code_at.simps)
  have 5: "?pool (?s3, [code_at c (Naming ?n), Ret (Inr (next_rid ?s2))]) (?s4, [Ret (Inr (next_rid ?s3)), Ret (Inr (next_rid ?s2))])"
    using view_server.pool_run_one [of 0 "[code_at c (Naming ?n), Ret (Inr (next_rid ?s2))]", OF _ 3] by (simp del: code_at.simps)
  note rtranclp_trans [OF rtranclp_trans [OF paused_call [OF assms(1,3,4,8,10,12)] 4] 5]
  moreover have "current_total ?s4 sid = ?n" by (rule current_total_Some) (simp add: eff3(1))
  moreover have "held_of (index ?s4) sid = held_of (index s) sid + ?a + ?b" by (simp add: eff3(4) eff2(4))
  ultimately show ?thesis by blast
qed

lemma sample_valid: "c \<in> set sample_calls \<Longrightarrow> valid_call c"
proof -
  have "trim_space ''l'' = ''l''" "trim_space ''s'' = ''s''" by (rule trim_space_ascii_id; simp add: is_space_def)+
  then have "idem_key ''s'' ''l'' = Inr ''idem:s:l''" by (simp add: idem_key_def)
  then show "c \<in> set sample_calls \<Longrightarrow> ?thesis"
    using sample_idem_key by (auto simp: sample_calls_def valid_call_def idem_of_def value_of_def positive_amount_def sample_amounts)
qed

theorem expired_lock_loses_a_reservation_witness:
  "\<exists>t x y. pool_run view_redis (\<lambda>s. s) (10 * second) (sample_start, map prog_of sample_calls) (t, [Ret (Inr x), Ret (Inr y)]) \<and>
     current_total t ''s'' = 10 \<and> held_of (index t) ''s'' = 20"
proof -
  let ?c = "hd sample_calls" and ?d = "last sample_calls"
  have ps: "map prog_of sample_calls = [prog_of ?c, prog_of ?d]" by (simp add: sample_calls_def)
  have call: "ca_session ?c = ''s''" "ca_session ?d = ''s''" "value_of (ca_amount ?c) = 10"
    "value_of (ca_amount ?d) = 10" "value_of (ca_cap ?c) = 25" "value_of (ca_cap ?d) = 25"
    by (simp_all add: sample_calls_def value_of_def sample_amounts)
  have valid: "valid_call ?c" "valid_call ?d" by (rule sample_valid; simp add: sample_calls_def)+
  have gen: "genuine sample_start" using start_matches [OF sample_start_view] matchesD(2) by blast
  have start: "due t sample_start = []" "kv sample_start k = None" "live_reservation sample_start k = None"
    "current_total sample_start x = 0" "held_of (index sample_start) x = 0" "clock sample_start = 0" for t k x
    by (simp_all add: sample_start_def due_def index_def live_reservation_def current_total_def total_def held_of_def)
  show ?thesis
    using expired_lock_loses_a_reservation [OF sample_start_idle gen start(1) call(1,2) _ _ valid start(3) start(3)]
    unfolding ps by (simp add: call start)
qed

end
