(* ===== verification/Http.thy ===== *)
theory Http
  imports Go_BigInt
begin

text \<open>
  What a handler sends back: \<open>http.Error\<close> (a status and a text) or \<open>writeJSON\<close> (a
  status and a JSON value). Handlers are state transformers over the server's state.
\<close>

section \<open>JSON values\<close>

datatype json =
    JNull
  | JBool bool
  | JNum int
  | JStr string
  | JArr "json list"
  | JObj "(string \<times> json) list"

section \<open>Responses and handlers\<close>

datatype response = Http_Error (status_of: nat) string | Write_JSON (status_of: nat) json

type_synonym 's handler = "'s \<Rightarrow> 's \<times> response"

definition ok_response :: "response \<Rightarrow> bool" where
  "ok_response r \<longleftrightarrow> status_of r = 200"

lemma ok_response_simps [simp]:
  "ok_response (Http_Error n m) \<longleftrightarrow> n = 200"
  "ok_response (Write_JSON n j) \<longleftrightarrow> n = 200"
  by (simp_all add: ok_response_def)

end
