(* ===== verification/Auth.thy ===== *)
theory Auth
  imports Http Config
begin

text \<open>
  \<open>internal/api/auth.go\<close>: the middleware in front of every endpoint that cosigns or moves
  budget. Headers are a function from the canonical header name to its first value, empty
  when absent, as \<open>r.Header.Get\<close> answers.
\<close>

type_synonym headers = "string \<Rightarrow> string"

text \<open>The key a request presents: the key header, else a bearer token.\<close>

definition presented_key :: "ucase \<Rightarrow> headers \<Rightarrow> string" where
  "presented_key uc hdr =
    (let got = trim_space (hdr ''X-SignGate-API-Key'') in
     if got = '''' then
       (let auth = trim_space (hdr ''Authorization'') in
        if has_prefix (to_lower uc auth) ''bearer '' then trim_space (drop 7 auth) else got)
     else got)"

definition require_api_key :: "ucase \<Rightarrow> string \<Rightarrow> headers \<Rightarrow> 's handler \<Rightarrow> 's handler" where
  "require_api_key uc expected hdr next s =
    (if expected = '''' then (s, Http_Error 503 ''signgate api key not configured'')
     else if presented_key uc hdr \<noteq> expected then (s, Http_Error 401 ''unauthorized'')
     else next s)"

lemma require_api_key_cases:
  "require_api_key uc expected hdr next s =
     (if expected \<noteq> '''' \<and> presented_key uc hdr = expected then next s
      else (s, if expected = '''' then Http_Error 503 ''signgate api key not configured''
               else Http_Error 401 ''unauthorized''))"
  by (simp add: require_api_key_def)

lemma require_api_key_ok_iff:
  "ok_response (snd (require_api_key uc expected hdr next s)) \<longleftrightarrow>
     expected \<noteq> '''' \<and> presented_key uc hdr = expected \<and> ok_response (snd (next s))"
  by (auto simp: require_api_key_def)

text \<open>A presented key carries no white space at its ends.\<close>

lemma trim_presented_key: "trim_space (presented_key uc hdr) = presented_key uc hdr"
  by (simp add: presented_key_def Let_def)

lemma untrimmed_key_never_matches:
  "trim_space expected \<noteq> expected \<Longrightarrow> presented_key uc hdr \<noteq> expected"
  using trim_presented_key by metis

section \<open>Properties\<close>

text \<open>
  A protected handler runs exactly if a key is configured and the request presents that
  very key (in the key header or as a bearer token, white space around it ignored); every
  other request is answered 503 or 401 and leaves the server's state alone.
\<close>

theorem only_the_key_passes:
  "require_api_key uc expected hdr next s =
     (if expected \<noteq> '''' \<and> presented_key uc hdr = expected then next s
      else if expected = '''' then (s, Http_Error 503 ''signgate api key not configured'')
      else (s, Http_Error 401 ''unauthorized''))"
  by (simp add: require_api_key_def)

text \<open>
  \<open>Validate\<close> accepts an API key with white space at its ends, but no request can then
  present it: every protected endpoint answers 401 to everyone.
\<close>

theorem padded_key_locks_out:
  assumes "validate uc c = Inr ()" and "trim_space (api_key c) \<noteq> api_key c"
  shows "require_api_key uc (api_key c) hdr next s = (s, Http_Error 401 ''unauthorized'')"
  using untrimmed_key_never_matches [OF assms(2)] validate_api_key_nonempty [OF assms(1)]
  by (simp add: require_api_key_def)

theorem padded_key_locks_out_witness:
  "require_api_key plain_case '' k'' (\<lambda>_. '' k'') (\<lambda>s. (s, Write_JSON 200 JNull)) (0 :: nat)
     = (0, Http_Error 401 ''unauthorized'')"
proof -
  let ?c = "(load plain_case (\<lambda>_. ''''))\<lparr>api_key := '' k''\<rparr>"
  have "trim_space '' k'' = ''k''"
    by (simp add: trim_space_def decode_ascii is_space_def)
  moreover have "is_local plain_case ?c"
    using load_local_key [of "\<lambda>_. ''''"] by (simp add: is_local_def)
  ultimately show ?thesis
    using padded_key_locks_out [of plain_case ?c "\<lambda>_. '' k''" "\<lambda>s. (s, Write_JSON 200 JNull)" "0 :: nat"]
    by (simp add: validate_ok_iff)
qed

end
