(* ===== verification/Go_Json.thy ===== *)
theory Go_Json
  imports Http
begin

text \<open>
  \<open>json.Marshal\<close> on the values the program marshals: strings with Go's escaping (HTML
  characters, control characters, U+2028 and U+2029, invalid UTF-8), integers, booleans,
  arrays, and objects in field order. The point of the theory is \<open>enc_string_inject\<close>:
  the text of a string field determines its runes, whatever follows it.
\<close>

section \<open>Strings\<close>

definition hex_digit :: "nat \<Rightarrow> char" where
  "hex_digit n = hexdigits ! n"

definition short_escape :: "nat \<Rightarrow> char option" where
  "short_escape r =
    (if r = 34 then Some (CHR 0x22) else if r = 92 then Some (CHR 0x5C)
     else if r = 8 then Some CHR ''b'' else if r = 12 then Some CHR ''f''
     else if r = 10 then Some CHR ''n'' else if r = 13 then Some CHR ''r''
     else if r = 9 then Some CHR ''t'' else None)"

definition u_escape :: "nat \<Rightarrow> string" where
  "u_escape r = [CHR 0x5C, CHR ''u'', hex_digit (r div 4096), hex_digit (r div 256 mod 16),
     hex_digit (r div 16 mod 16), hex_digit (r mod 16)]"

text \<open>One rune with the bytes it was decoded from.\<close>

definition esc :: "nat \<times> string \<Rightarrow> string" where
  "esc p =
    (let r = fst p in
     if r < 128 then
       (case short_escape r of
          Some c \<Rightarrow> [CHR 0x5C, c]
        | None \<Rightarrow> if r < 32 \<or> r \<in> {60, 62, 38} then u_escape r else [chr r])
     else if r = rune_error \<and> length (snd p) = 1 then u_escape rune_error
     else if r = 8232 \<or> r = 8233 then u_escape r
     else snd p)"

definition enc_string :: "string \<Rightarrow> string" where
  "enc_string s = CHR 0x22 # concat (map esc (decode s)) @ [CHR 0x22]"

section \<open>Values\<close>

fun join :: "string \<Rightarrow> string list \<Rightarrow> string" where
  "join sep [] = []"
| "join sep [x] = x"
| "join sep (x # y # xs) = x @ sep @ join sep (y # xs)"

definition enc_bool :: "bool \<Rightarrow> string" where
  "enc_bool b = (if b then ''true'' else ''false'')"

fun json_marshal :: "json \<Rightarrow> string" where
  "json_marshal JNull = ''null''"
| "json_marshal (JBool b) = enc_bool b"
| "json_marshal (JNum i) = show_int i"
| "json_marshal (JStr s) = enc_string s"
| "json_marshal (JArr js) = ''['' @ join '','' (map json_marshal js) @ '']''"
| "json_marshal (JObj kvs) =
     ''{'' @ join '','' (map (\<lambda>(k, v). enc_string k @ '':'' @ json_marshal v) kvs) @ ''}''"

section \<open>Escaped text is uniquely readable\<close>

definition unhex :: "char \<Rightarrow> nat" where
  "unhex c = (case from_hex_char c of None \<Rightarrow> 0 | Some n \<Rightarrow> n)"

text \<open>Read one escaped rune off the front: the rune and how many bytes it took.\<close>

definition unesc1 :: "string \<Rightarrow> nat \<times> nat" where
  "unesc1 z =
    (if take 1 z = [CHR 0x5C] then
       (if z ! 1 = CHR ''u'' then
          (4096 * unhex (z ! 2) + 256 * unhex (z ! 3) + 16 * unhex (z ! 4) + unhex (z ! 5), 6)
        else
          (let c = z ! 1 in
           if c = CHR ''b'' then 8 else if c = CHR ''f'' then 12 else if c = CHR ''n'' then 10
           else if c = CHR ''r'' then 13 else if c = CHR ''t'' then 9 else ord c, 2))
     else decode_rune z)"

text \<open>Escapes that \<open>unesc1\<close> reads back whatever follows.\<close>

definition self_delimiting :: "nat \<Rightarrow> string \<Rightarrow> bool" where
  "self_delimiting r e \<longleftrightarrow> unesc1 e = (r, length e) \<and> e \<noteq> [] \<and> hd e \<noteq> CHR 0x22 \<and>
     (if hd e = CHR 0x5C then length e = 6 \<or> (length e = 2 \<and> e ! 1 \<noteq> CHR ''u'')
      else length e = 1 \<and> ord (hd e) < 128)"

lemma unesc1_self_delimiting:
  assumes "self_delimiting r e"
  shows "unesc1 (e @ x) = (r, length e)"
proof (cases "hd e = CHR 0x5C")
  case True
  then obtain e' where e: "e = CHR 0x5C # e'"
    using assms by (cases e) (auto simp: self_delimiting_def)
  have nth: "i < length e \<Longrightarrow> (e @ x) ! i = e ! i" for i
    by (simp add: nth_append)
  have take: "take 1 (e @ x) = [CHR 0x5C]" "take 1 e = [CHR 0x5C]"
    by (simp_all add: e)
  consider "length e = 6" | "length e = 2" "e ! 1 \<noteq> CHR ''u''"
    using assms True by (auto simp: self_delimiting_def)
  then have "unesc1 (e @ x) = unesc1 e"
  proof cases
    case 1
    then show ?thesis unfolding unesc1_def take by (simp only: nth simp_thms if_True if_False)
  next
    case 2
    then show ?thesis unfolding unesc1_def take by (simp only: nth simp_thms if_True if_False)
  qed
  with assms show ?thesis by (simp add: self_delimiting_def)
next
  case False
  then obtain c where "e = [c]" and "ord c < 128" "c \<noteq> CHR 0x5C"
    using assms by (cases e) (auto simp: self_delimiting_def)
  with assms show ?thesis by (simp add: self_delimiting_def unesc1_def)
qed

lemma unhex_hex_digit [simp]: "n < 16 \<Longrightarrow> unhex (hex_digit n) = n"
  by (simp add: unhex_def hex_digit_def hex_digit_roundtrip)

lemma four_hex_digits:
  fixes r :: nat
  shows "4096 * (r div 4096) + 256 * (r div 256 mod 16) + 16 * (r div 16 mod 16) + r mod 16 = r"
proof -
  have "r div 16 div 16 = r div 256" "r div 256 div 16 = r div 4096"
    by (simp_all add: div_mult2_eq [symmetric])
  then show ?thesis
    using div_mult_mod_eq [of r 16] div_mult_mod_eq [of "r div 16" 16]
      div_mult_mod_eq [of "r div 256" 16] by linarith
qed

lemma self_delimiting_u: "r < 65536 \<Longrightarrow> self_delimiting r (u_escape r)"
  using four_hex_digits [of r]
  by (simp add: self_delimiting_def unesc1_def u_escape_def less_mult_imp_div_less)

lemma short_escape_cases:
  "short_escape r = Some c \<Longrightarrow>
     (r, c) \<in> {(34, CHR 0x22), (92, CHR 0x5C), (8, CHR ''b''), (12, CHR ''f''),
       (10, CHR ''n''), (13, CHR ''r''), (9, CHR ''t'')}"
  by (simp add: short_escape_def split: if_splits)

lemma self_delimiting_short:
  assumes "short_escape r = Some c"
  shows "self_delimiting r [CHR 0x5C, c]"
  using short_escape_cases [OF assms]
  by (elim insertE emptyE) (simp_all add: self_delimiting_def unesc1_def Let_def)

lemma chr_eqD: "r < 128 \<Longrightarrow> chr r = c \<Longrightarrow> r = ord c"
  by auto

lemma self_delimiting_plain:
  assumes "r < 128" "r \<noteq> 34" "r \<noteq> 92"
  shows "self_delimiting r [chr r]"
proof -
  have "chr r \<noteq> CHR 0x22" "chr r \<noteq> CHR 0x5C"
    using assms chr_eqD [of r "CHR 0x22"] chr_eqD [of r "CHR 0x5C"] by auto
  moreover have "ord (chr r) = r" using assms by simp
  ultimately show ?thesis using assms(1) by (simp add: self_delimiting_def unesc1_def Let_def)
qed

lemma self_delimiting_ascii: "fst p < 128 \<Longrightarrow> self_delimiting (fst p) (esc p)"
  by (auto simp: esc_def Let_def self_delimiting_short self_delimiting_u split: option.splits
      intro!: self_delimiting_plain) (auto simp: short_escape_def)

lemma decode_rune_valid_append:
  assumes "s \<noteq> []" "decode_rune s = (r, w)" "\<not> (r = rune_error \<and> w = 1)"
  shows "decode_rune (take w s @ x) = (r, w)"
proof -
  obtain c cs where s: "s = c # cs" using assms(1) by (cases s) auto
  have D: "decode_rune (c # cs) = (r, w)" using assms s by simp
  have ne: "(rune_error, 1) \<noteq> (r, w)" using assms(3) by auto
  consider "ord c < 128" | "128 \<le> ord c" "ord c < 194" | "194 \<le> ord c" "ord c < 224"
    | "224 \<le> ord c" "ord c < 240" | "240 \<le> ord c" by linarith
  then show ?thesis
  proof cases
    case 1
    with D show ?thesis by (auto simp: s Let_def)
  next
    case 2
    with D ne show ?thesis by (simp add: Let_def split: list.splits)
  next
    case 3
    with D ne obtain c1 cs1 where "cs = c1 # cs1" "cont_byte (ord c1)"
      by (simp add: Let_def split: list.splits if_splits)
    with 3 D show ?thesis by (auto simp: s Let_def numeral_2_eq_2)
  next
    case 4
    with D ne obtain c1 c2 cs2 where "cs = c1 # c2 # cs2"
      by (simp add: Let_def split: list.splits)
    with 4 D ne show ?thesis by (simp add: s Let_def split: if_splits)
  next
    case 5
    with D ne obtain c1 c2 c3 cs3 where "cs = c1 # c2 # c3 # cs3"
      by (simp add: Let_def split: list.splits)
    with 5 D ne show ?thesis by (simp add: s Let_def split: if_splits)
  qed
qed

lemma decode_elem:
  "p \<in> set (decode s) \<Longrightarrow>
     \<exists>t. t \<noteq> [] \<and> p = (fst (decode_rune t), take (snd (decode_rune t)) t)"
  by (induction s rule: decode.induct) (auto simp: Let_def simp del: decode_rune.simps)

lemma esc_readable:
  assumes "p \<in> set (decode s)"
  shows "unesc1 (esc p @ x) = (fst p, length (esc p)) \<and> esc p \<noteq> [] \<and> hd (esc p) \<noteq> CHR 0x22"
proof -
  have sd: ?thesis if "self_delimiting (fst p) (esc p)"
    using that unesc1_self_delimiting [OF that] by (simp add: self_delimiting_def)
  obtain t where t: "t \<noteq> []" "p = (fst (decode_rune t), take (snd (decode_rune t)) t)"
    using decode_elem [OF assms] by blast
  obtain r w where rw: "decode_rune t = (r, w)" by fastforce
  have w: "0 < w" "w \<le> length t"
    using decode_rune_width_pos [OF t(1)] decode_rune_width_le [of t] rw by simp_all
  have p: "fst p = r" "snd p = take w t" using t rw by auto
  show ?thesis
  proof (cases "r < 128")
    case True
    then show ?thesis using self_delimiting_ascii [of p] p sd by simp
  next
    case big: False
    show ?thesis
    proof (cases "(r = rune_error \<and> w = 1) \<or> r = 8232 \<or> r = 8233")
      case True
      then have "esc p = u_escape r" using p w by (auto simp: esc_def rune_error_def min_def)
      with True p show ?thesis using sd self_delimiting_u [of r] by (auto simp: rune_error_def)
    next
      case False
      then have e: "esc p = take w t" using p w big by (auto simp: esc_def min_def)
      obtain c cs where c: "t = c # cs" using t(1) by (cases t) auto
      have "128 \<le> ord c" using rw big c by (auto simp: Let_def split: if_splits)
      then have hd: "c \<noteq> CHR 0x5C" "c \<noteq> CHR 0x22" by auto
      have "decode_rune (take w t @ x) = (r, w)"
        using decode_rune_valid_append [OF t(1) rw] False by blast
      with e hd c w p show ?thesis
        by (cases w) (auto simp: unesc1_def simp del: decode_rune.simps)
    qed
  qed
qed

lemma esc_list_inject:
  assumes "set ps \<subseteq> set (decode s)" "set qs \<subseteq> set (decode t)"
    and "concat (map esc ps) @ CHR 0x22 # x = concat (map esc qs) @ CHR 0x22 # y"
  shows "map fst ps = map fst qs \<and> x = y"
  using assms
proof (induction ps arbitrary: qs)
  case Nil
  show ?case
  proof (cases qs)
    case Nil
    then show ?thesis using Nil.prems by simp
  next
    case (Cons q qs')
    then have "esc q \<noteq> []" "hd (esc q) \<noteq> CHR 0x22" using esc_readable [of q t] Nil.prems by auto
    then show ?thesis using Nil.prems(3) Cons by (cases "esc q") auto
  qed
next
  case (Cons p ps)
  note P = esc_readable [of p s]
  show ?case
  proof (cases qs)
    case Nil
    have "esc p \<noteq> []" "hd (esc p) \<noteq> CHR 0x22" using P Cons.prems by auto
    then show ?thesis using Cons.prems(3) Nil by (cases "esc p") auto
  next
    case (Cons q qs')
    let ?x = "concat (map esc ps) @ CHR 0x22 # x" and ?y = "concat (map esc qs') @ CHR 0x22 # y"
    have eq: "esc p @ ?x = esc q @ ?y" using Cons.prems(3) Cons by simp
    have "unesc1 (esc p @ ?x) = (fst p, length (esc p))" using P Cons.prems(1) by simp
    moreover have "unesc1 (esc q @ ?y) = (fst q, length (esc q))"
      using esc_readable [of q t] Cons.prems(2) Cons by simp
    ultimately have "fst p = fst q" "length (esc p) = length (esc q)" using eq by simp_all
    with eq have "?x = ?y" by simp
    then have "map fst ps = map fst qs' \<and> x = y"
      using Cons.IH [of qs'] Cons.prems(1,2) Cons by simp
    with \<open>fst p = fst q\<close> Cons show ?thesis by simp
  qed
qed

lemma enc_string_inject:
  "enc_string s @ x = enc_string t @ y \<Longrightarrow> runes s = runes t \<and> x = y"
  using esc_list_inject [of "decode s" s "decode t" t x y]
  by (simp add: enc_string_def runes_def)

lemma enc_bool_inject: "enc_bool a @ x = enc_bool b @ y \<Longrightarrow> a = b \<and> x = y"
  by (auto simp: enc_bool_def split: if_splits)

section \<open>Unique readability\<close>

text \<open>
  Two strings are the same text when they decode to the same runes (they differ at most in
  invalid bytes, which Go writes as U+FFFD). \<open>json_same\<close> extends this to values:
  same constructors, same texts, the same keys in the same order.
\<close>

definition same_text :: "string \<Rightarrow> string \<Rightarrow> bool" where
  "same_text s t \<longleftrightarrow> runes s = runes t"

fun json_same :: "json \<Rightarrow> json \<Rightarrow> bool" where
  "json_same JNull k = (k = JNull)"
| "json_same (JBool a) k = (k = JBool a)"
| "json_same (JNum i) k = (k = JNum i)"
| "json_same (JStr s) k = (case k of JStr t \<Rightarrow> same_text s t | _ \<Rightarrow> False)"
| "json_same (JArr js) k = (case k of JArr ks \<Rightarrow> list_all2 json_same js ks | _ \<Rightarrow> False)"
| "json_same (JObj kvs) k =
     (case k of JObj kws \<Rightarrow> list_all2 (\<lambda>(a, v) (b, w). same_text a b \<and> json_same v w) kvs kws
      | _ \<Rightarrow> False)"

text \<open>What may follow a value: nothing, or a separator or closing bracket.\<close>

definition value_end :: "string \<Rightarrow> bool" where
  "value_end x \<longleftrightarrow> x = [] \<or> hd x \<in> {CHR '','', CHR ''}'', CHR '']''}"

lemma value_end_simps [simp]:
  "value_end []" "value_end (CHR '','' # x)" "value_end (CHR ''}'' # x)" "value_end (CHR '']'' # x)"
  by (simp_all add: value_end_def)

definition num_char :: "char \<Rightarrow> bool" where
  "num_char c \<longleftrightarrow> c = CHR ''-'' \<or> (48 \<le> ord c \<and> ord c \<le> 57)"

lemma takeWhile_num: "value_end x \<Longrightarrow> takeWhile num_char (show_int i @ x) = show_int i"
proof (induction "show_int i")
  case Nil
  then show ?case by (metis show_int_nonempty)
next
  case Cons
  have "\<forall>c \<in> set (show_int i). num_char c" using show_int_chars by (auto simp: num_char_def)
  moreover have "takeWhile num_char x = []"
    using Cons.prems by (cases x) (auto simp: value_end_def num_char_def)
  ultimately show ?case by (simp add: takeWhile_append2)
qed

lemma enc_int_inject:
  assumes "value_end x" "value_end y" "show_int i @ x = show_int j @ y"
  shows "i = j \<and> x = y"
proof -
  have "show_int i = show_int j"
    using takeWhile_num [OF assms(1), of i] takeWhile_num [OF assms(2), of j] assms(3) by simp
  with assms(3) show ?thesis by simp
qed

text \<open>The first character of a value tells its constructor.\<close>

definition starts :: "json \<Rightarrow> char \<Rightarrow> bool" where
  "starts j c =
    (case j of JNull \<Rightarrow> c = CHR ''n'' | JBool b \<Rightarrow> c = (if b then CHR ''t'' else CHR ''f'')
     | JNum _ \<Rightarrow> num_char c | JStr _ \<Rightarrow> c = CHR 0x22 | JArr _ \<Rightarrow> c = CHR ''['' | JObj _ \<Rightarrow> c = CHR ''{'')"

lemma marshal_starts: "\<exists>c cs. json_marshal j = c # cs \<and> starts j c"
proof (cases j)
  case (JNum i)
  then show ?thesis using show_int_chars [of "hd (show_int i)" i]
    by (cases "show_int i") (auto simp: starts_def num_char_def)
qed (auto simp: starts_def enc_bool_def enc_string_def)

lemma starts_same:
  assumes "json_marshal j @ x = json_marshal k @ y"
  shows "\<exists>c. starts j c \<and> starts k c"
  using assms marshal_starts [of j] marshal_starts [of k] by auto

lemma marshal_not_close: "json_marshal j @ x \<noteq> CHR '']'' # y"
  using marshal_starts [of j] by (cases j) (auto simp: starts_def num_char_def enc_bool_def split: if_splits)

text \<open>A separated, closed list of readable items is readable.\<close>

lemma items_inject:
  assumes read: "\<And>v w x y. v \<in> set vs \<Longrightarrow> value_end x \<Longrightarrow> value_end y \<Longrightarrow> f v @ x = f w @ y \<Longrightarrow>
      R v w \<and> x = y"
    and first: "\<And>w x y. f w @ x \<noteq> c # y" and c: "c = CHR ''}'' \<or> c = CHR '']''"
    and eq: "join '','' (map f vs) @ c # x = join '','' (map f ws) @ c # y"
  shows "list_all2 R vs ws \<and> x = y"
  using read eq
proof (induction vs arbitrary: ws)
  case Nil
  have head: "join '','' (map f (w # ws')) @ z \<noteq> c # u" for w ws' z u
    using first by (cases ws') auto
  then show ?case using Nil.prems(2) by (cases ws) (auto dest: sym)
next
  case (Cons v vs)
  have ends: "value_end (c # z)" for z using c by auto
  have comma: "c \<noteq> CHR '',''" using c by auto
  note rd = Cons.prems(1) [of v]
  show ?case
  proof (cases ws)
    case Nil
    then show ?thesis using Cons.prems(2) first by (cases vs) auto
  next
    case ws: (Cons w ws')
    let ?rest = "\<lambda>us z. if us = [] then c # z else CHR '','' # (join '','' (map f us) @ c # z)"
    have join: "join '','' (map f (u # us)) @ c # z = f u @ ?rest us z" for u us z by (cases us) auto
    have follow: "value_end (?rest us z)" for us z using ends by simp
    have "f v @ ?rest vs x = f w @ ?rest ws' y"
      using Cons.prems(2) unfolding ws join .
    then have vw: "R v w" and rests: "?rest vs x = ?rest ws' y"
      using rd [OF _ follow follow] by simp_all
    show ?thesis
    proof (cases "vs = []")
      case True
      then show ?thesis using rests comma vw ws by (auto split: if_splits)
    next
      case False
      then have "ws' \<noteq> []" and tails: "join '','' (map f vs) @ c # x = join '','' (map f ws') @ c # y"
        using rests comma by (auto split: if_splits)
      have "list_all2 R vs ws' \<and> x = y"
        by (rule Cons.IH [OF Cons.prems(1) tails]) simp_all
      then show ?thesis using vw ws by simp
    qed
  qed
qed

text \<open>The text of a value, whatever follows it, determines the value.\<close>

lemma marshal_inject:
  assumes "json_marshal j @ x = json_marshal k @ y" "value_end x" "value_end y"
  shows "json_same j k \<and> x = y"
  using assms
proof (induction j arbitrary: k x y)
  case JNull
  then show ?case using starts_same [OF JNull(1)]
    by (cases k) (auto simp: starts_def num_char_def split: if_splits)
next
  case (JBool b)
  then show ?case using starts_same [OF JBool(1)] enc_bool_inject [of b x _ y]
    by (cases k) (auto simp: starts_def num_char_def split: if_splits)
next
  case (JNum i)
  then show ?case using starts_same [OF JNum(1)] enc_int_inject [of x y i]
    by (cases k) (auto simp: starts_def num_char_def split: if_splits)
next
  case (JStr s)
  then show ?case using starts_same [OF JStr(1)] enc_string_inject [of s x _ y]
    by (cases k) (auto simp: starts_def num_char_def same_text_def split: if_splits)
next
  case (JArr js)
  obtain ks where k: "k = JArr ks"
    using starts_same [OF JArr.prems(1)] by (cases k) (auto simp: starts_def num_char_def split: if_splits)
  have "list_all2 json_same js ks \<and> x = y"
  proof (rule items_inject [where f = json_marshal and c = "CHR '']''"])
    show "join '','' (map json_marshal js) @ CHR '']'' # x = join '','' (map json_marshal ks) @ CHR '']'' # y"
      using JArr.prems(1) k by simp
  qed (use JArr.IH marshal_not_close in blast)+
  then show ?case using k by simp
next
  case (JObj kvs)
  let ?f = "\<lambda>(k, v). enc_string k @ '':'' @ json_marshal v"
  obtain kws where k: "k = JObj kws"
    using starts_same [OF JObj.prems(1)] by (cases k) (auto simp: starts_def num_char_def split: if_splits)
  have "list_all2 (\<lambda>(a, v) (b, w). same_text a b \<and> json_same v w) kvs kws \<and> x = y"
  proof (rule items_inject [where f = ?f and c = "CHR ''}''"])
    show "join '','' (map ?f kvs) @ CHR ''}'' # x = join '','' (map ?f kws) @ CHR ''}'' # y"
      using JObj.prems(1) k by simp
    show "?f w @ u \<noteq> CHR ''}'' # z" for w u z by (cases w) (simp add: enc_string_def)
    fix v w u z
    assume v: "v \<in> set kvs" and ends: "value_end u" "value_end z" and eq: "?f v @ u = ?f w @ z"
    obtain a p b q where vw: "v = (a, p)" "w = (b, q)" by (cases v; cases w) blast
    have "runes a = runes b" "json_marshal p @ u = json_marshal q @ z"
      using enc_string_inject [of a "'':'' @ json_marshal p @ u" b "'':'' @ json_marshal q @ z"] eq vw by simp_all
    moreover have "json_same p q \<and> u = z"
      by (rule JObj.IH [OF v]) (use vw calculation ends in auto)
    ultimately show "(case v of (a, v) \<Rightarrow> \<lambda>(b, w). same_text a b \<and> json_same v w) w \<and> u = z"
      by (simp add: vw same_text_def)
  qed simp
  then show ?case using k by simp
qed

lemma json_marshal_inject: "json_marshal j = json_marshal k \<Longrightarrow> json_same j k"
  using marshal_inject [of j "[]" k "[]"] by simp

lemma same_text_refl [simp]: "same_text s s"
  by (simp add: same_text_def)

end
