(* ===== verification/Eth.thy ===== *)
theory Eth
  imports Prelude
begin

text \<open>
  The functions of \<open>go-ethereum\<close> and \<open>crypto/sha256\<close> the program calls. They are code
  of other modules, so they are parameters: one record of functions that every definition
  using them takes as an argument. Hashes, addresses, keys and signatures are byte strings.
\<close>

section \<open>ABI arguments\<close>

datatype abi_type = Uint_Ty nat | Address_Ty | Bool_Ty | Bytes_Ty nat

datatype abi_value = Int_Val int | Address_Val string | Bool_Val bool | Bytes_Val string

section \<open>EIP-712 typed data\<close>

text \<open>\<open>apitypes.TypedData\<close> as the program fills it in.\<close>

datatype td_value = TD_String string | TD_Int "int option" | TD_Bytes string | TD_Bool bool

record td_domain =
  td_name :: string
  td_version :: string
  td_chain_id :: int
  td_verifying_contract :: string

record typed_data =
  td_types :: "(string \<times> (string \<times> string) list) list"
  td_primary_type :: string
  td_domain_of :: td_domain
  td_message :: "(string \<times> td_value) list"

section \<open>The functions\<close>

record eth =
  keccak256 :: "string \<Rightarrow> string"
  sha256 :: "string \<Rightarrow> string"
  hex_to_address :: "string \<Rightarrow> string"
  address_hex :: "string \<Rightarrow> string"
  hex_to_hash :: "string \<Rightarrow> string"
  hash_hex :: "string \<Rightarrow> string"
  parse_big256 :: "string \<Rightarrow> int option"
  hexutil_decode :: "string \<Rightarrow> string res"
  abi_pack :: "(abi_type \<times> abi_value) list \<Rightarrow> string res"
  typed_data_hash :: "typed_data \<Rightarrow> string res"
  hex_to_ecdsa :: "string \<Rightarrow> string res"
  ecdsa_sign :: "string \<Rightarrow> string \<Rightarrow> string res"

end
