(* ===== verification/Eth_Sample.thy ===== *)
theory Eth_Sample
  imports Eth Go_BigInt
begin

text \<open>
  A sample of the external functions: one concrete record on which what the development
  assumes about them holds, for the theorems that show those assumptions can be met. The
  digest keeps the first bytes of its input and is no cryptographic function.
\<close>

definition fixed_length :: "nat \<Rightarrow> string \<Rightarrow> string" where
  "fixed_length n s = take n (s @ replicate n CHR ''0'')"

lemma length_fixed_length [simp]: "length (fixed_length n s) = n"
  by (simp add: fixed_length_def)

primrec word_text :: "abi_value \<Rightarrow> string" where
  "word_text (Int_Val v) = show_int v"
| "word_text (Address_Val a) = hex_encode a"
| "word_text (Bool_Val b) = (if b then ''1'' else ''0'')"
| "word_text (Bytes_Val b) = hex_encode b"

definition sample_pack :: "(abi_type \<times> abi_value) list \<Rightarrow> string res" where
  "sample_pack xs = Inr (concat (map (\<lambda>x. word_text (snd x) @ ''|'') xs))"

definition sample_eth :: eth where
  "sample_eth =
    \<lparr>keccak256 = fixed_length 32, sha256 = fixed_length 32,
     hex_to_address = fixed_length 20, address_hex = (\<lambda>a. a),
     hex_to_hash = fixed_length 32, hash_hex = (\<lambda>h. h), parse_big256 = set_string,
     hexutil_decode = (\<lambda>s. hex_decode (trim_prefix s ''0x'')),
     abi_pack = sample_pack, typed_data_hash = (\<lambda>td. Inr (replicate 32 CHR ''d'')),
     hex_to_ecdsa = Inr, ecdsa_sign = (\<lambda>h k. Inr (fixed_length 65 (k @ h)))\<rparr>"

lemma concat_bars_inject:
  assumes "concat (map (\<lambda>x. f x @ ''|'') xs) = concat (map (\<lambda>x. f x @ ''|'') ys)"
    and "\<forall>x \<in> set xs \<union> set ys. CHR ''|'' \<notin> set (f x)"
  shows "map f xs = map f ys"
  using assms
proof (induction xs arbitrary: ys)
  case Nil
  then show ?case by (cases ys) auto
next
  case (Cons x xs)
  then obtain y ys' where ys: "ys = y # ys'" by (cases ys) auto
  have eq: "f x @ CHR ''|'' # concat (map (\<lambda>x. f x @ ''|'') xs) =
      f y @ CHR ''|'' # concat (map (\<lambda>x. f x @ ''|'') ys')"
    using Cons.prems(1) ys by simp
  have bars: "CHR ''|'' \<notin> set (f x)" "CHR ''|'' \<notin> set (f y)" using Cons.prems(2) ys by auto
  have "f x = f y" "concat (map (\<lambda>x. f x @ ''|'') xs) = concat (map (\<lambda>x. f x @ ''|'') ys')"
    using arg_cong [OF eq, of "takeWhile (\<lambda>c. c \<noteq> CHR ''|'')"]
      arg_cong [OF eq, of "dropWhile (\<lambda>c. c \<noteq> CHR ''|'')"]
    by (simp_all add: takeWhile_sep [OF bars(1)] takeWhile_sep [OF bars(2)]
        dropWhile_sep [OF bars(1)] dropWhile_sep [OF bars(2)])
  with Cons.IH [of ys'] Cons.prems(2) ys show ?case by simp
qed

lemma hexdigit_no_bar: "n < 16 \<Longrightarrow> hexdigits ! n \<noteq> CHR ''|''"
  using hex_digit_roundtrip [of n] by (auto simp: from_hex_char_def)

lemma hex_no_bar: "CHR ''|'' \<notin> set (hex_encode b)"
proof -
  have "ord c div 16 < 16" for c :: char
    using nat_of_char_less_256 [of c] by (simp add: less_mult_imp_div_less)
  then have "CHR ''|'' \<noteq> hexdigits ! (ord c div 16)" "CHR ''|'' \<noteq> hexdigits ! (ord c mod 16)" for c
    using hexdigit_no_bar [of "ord c div 16"] hexdigit_no_bar [of "ord c mod 16"] by auto
  then show ?thesis by (auto simp: hex_encode_def hex_byte_def)
qed

lemma word_text_no_bar: "CHR ''|'' \<notin> set (word_text v)"
  using set_string_no_bar [OF set_string_show_int] by (cases v) (auto simp: hex_no_bar)

text \<open>On values of one shape the text determines the value.\<close>

primrec shape :: "abi_value \<Rightarrow> nat" where
  "shape (Int_Val v) = 0"
| "shape (Address_Val a) = 1"
| "shape (Bool_Val b) = 2"
| "shape (Bytes_Val b) = 3"

lemma word_text_inject: "shape v = shape w \<Longrightarrow> word_text v = word_text w \<Longrightarrow> v = w"
  by (cases v; cases w) (auto simp: show_int_inject dest: hex_encode_inject split: if_splits)

lemma sample_pack_inject:
  assumes "sample_pack xs = sample_pack ys" "map (shape \<circ> snd) xs = map (shape \<circ> snd) ys"
    and "map fst xs = map fst ys"
  shows "xs = ys"
proof -
  have "concat (map (\<lambda>x. (word_text \<circ> snd) x @ ''|'') xs) =
      concat (map (\<lambda>x. (word_text \<circ> snd) x @ ''|'') ys)"
    using assms(1) by (simp add: sample_pack_def)
  then have t: "map (word_text \<circ> snd) xs = map (word_text \<circ> snd) ys"
    by (rule concat_bars_inject) (simp add: word_text_no_bar)
  show ?thesis
  proof (rule nth_equalityI)
    show len: "length xs = length ys" using map_eq_imp_length_eq [OF t] .
    fix i assume i: "i < length xs"
    then have "word_text (snd (xs ! i)) = word_text (snd (ys ! i))"
      "shape (snd (xs ! i)) = shape (snd (ys ! i))" "fst (xs ! i) = fst (ys ! i)"
      using t assms(2,3) len by (auto simp: list_eq_iff_nth_eq)
    then show "xs ! i = ys ! i" using word_text_inject by (metis prod.expand)
  qed
qed

end
