(* ===== verification/Intent.thy ===== *)
theory Intent
  imports Go_Json Eth_Sample
begin

text \<open>
  \<open>internal/intent\<close>: a payment intent, its canonical form, and the intent hash that the
  policy decision, the stored intent and the receipt all refer to. What matters is that the
  hash binds every canonical field, the two session limits included: a decision obtained
  for small limits cannot be reused for larger ones.
\<close>

section \<open>Requests and canonical intents\<close>

record resource =
  rs_method :: string
  rs_domain :: string
  rs_path :: string

record limits =
  lm_max_per_transfer :: string
  lm_max_total_spend :: string
  lm_allow_batch :: bool

record evaluate_request =
  er_agent_id :: string
  er_account :: string
  er_chain_id :: int
  er_token :: string
  er_recipient :: string
  er_amount_atomic :: string
  er_resource :: resource
  er_idempotency_key :: string
  er_limits :: limits

record canonical_intent =
  ci_agent_id :: string
  ci_account :: string
  ci_chain_id :: int
  ci_token :: string
  ci_recipient :: string
  ci_amount_atomic :: string
  ci_domain :: string
  ci_path :: string
  ci_method :: string
  ci_max_per_transfer :: string
  ci_max_total_spend :: string
  ci_allow_batch :: bool

definition canonicalize :: "ucase \<Rightarrow> evaluate_request \<Rightarrow> canonical_intent" where
  "canonicalize uc req =
    \<lparr>ci_agent_id = to_lower uc (er_agent_id req),
     ci_account = to_lower uc (er_account req),
     ci_chain_id = er_chain_id req,
     ci_token = to_lower uc (er_token req),
     ci_recipient = to_lower uc (er_recipient req),
     ci_amount_atomic = er_amount_atomic req,
     ci_domain = to_lower uc (rs_domain (er_resource req)),
     ci_path = rs_path (er_resource req),
     ci_method = to_upper uc (rs_method (er_resource req)),
     ci_max_per_transfer = trim_space (lm_max_per_transfer (er_limits req)),
     ci_max_total_spend = trim_space (lm_max_total_spend (er_limits req)),
     ci_allow_batch = lm_allow_batch (er_limits req)\<rparr>"

section \<open>Hashing\<close>

text \<open>The JSON object \<open>json.Marshal\<close> writes for the struct, in field order.\<close>

definition intent_fields :: "canonical_intent \<Rightarrow> (string \<times> json) list" where
  "intent_fields ci =
    [(''agentId'', JStr (ci_agent_id ci)),
     (''account'', JStr (ci_account ci)),
     (''chainId'', JNum (ci_chain_id ci)),
     (''token'', JStr (ci_token ci)),
     (''recipient'', JStr (ci_recipient ci)),
     (''amountAtomic'', JStr (ci_amount_atomic ci)),
     (''domain'', JStr (ci_domain ci)),
     (''path'', JStr (ci_path ci)),
     (''method'', JStr (ci_method ci)),
     (''maxPerTransfer'', JStr (ci_max_per_transfer ci)),
     (''maxTotalSpend'', JStr (ci_max_total_spend ci)),
     (''allowBatch'', JBool (ci_allow_batch ci))]"

definition intent_json :: "canonical_intent \<Rightarrow> json" where
  "intent_json ci = JObj (intent_fields ci)"

text \<open>\<open>Hash\<close>; marshalling strings, integers and booleans cannot fail.\<close>

definition intent_hash :: "eth \<Rightarrow> canonical_intent \<Rightarrow> string res" where
  "intent_hash E ci = Inr (''0x'' @ hex_encode (keccak256 E (json_marshal (intent_json ci))))"

definition hash_from_request ::
    "ucase \<Rightarrow> eth \<Rightarrow> evaluate_request \<Rightarrow> (string \<times> canonical_intent) res" where
  "hash_from_request uc E req =
    (let ci = canonicalize uc req in
     case intent_hash E ci of
       Inl e \<Rightarrow> Inl (Err (''hash intent: '' @ message e))
     | Inr h \<Rightarrow> Inr (h, ci))"

lemma hash_from_request_Inr:
  "hash_from_request uc E req =
     Inr (''0x'' @ hex_encode (keccak256 E (json_marshal (intent_json (canonicalize uc req)))),
          canonicalize uc req)"
  by (simp add: hash_from_request_def intent_hash_def Let_def)

section \<open>The encoding determines the intent\<close>

definition same_intent :: "canonical_intent \<Rightarrow> canonical_intent \<Rightarrow> bool" where
  "same_intent a b \<longleftrightarrow>
     same_text (ci_agent_id a) (ci_agent_id b) \<and> same_text (ci_account a) (ci_account b) \<and>
     ci_chain_id a = ci_chain_id b \<and> same_text (ci_token a) (ci_token b) \<and>
     same_text (ci_recipient a) (ci_recipient b) \<and>
     same_text (ci_amount_atomic a) (ci_amount_atomic b) \<and>
     same_text (ci_domain a) (ci_domain b) \<and> same_text (ci_path a) (ci_path b) \<and>
     same_text (ci_method a) (ci_method b) \<and>
     same_text (ci_max_per_transfer a) (ci_max_per_transfer b) \<and>
     same_text (ci_max_total_spend a) (ci_max_total_spend b) \<and>
     ci_allow_batch a = ci_allow_batch b"

lemma same_intent_iff: "same_intent a b \<longleftrightarrow> json_same (intent_json a) (intent_json b)"
  by (auto simp: same_intent_def intent_json_def intent_fields_def)

lemma intent_text_inject:
  assumes "json_marshal (intent_json a) = json_marshal (intent_json b)"
  shows "same_intent a b"
  unfolding same_intent_iff by (rule json_marshal_inject [OF assms])

text \<open>Without a Keccak collision between the two encodings, equal hashes mean equal intents.\<close>

lemma intent_hash_text:
  assumes "intent_hash E a = intent_hash E b"
    and "keccak256 E (json_marshal (intent_json a)) = keccak256 E (json_marshal (intent_json b)) \<Longrightarrow>
           json_marshal (intent_json a) = json_marshal (intent_json b)"
  shows "same_intent a b"
  using assms by (auto simp: intent_hash_def intro: intent_text_inject dest!: hex_encode_inject)

section \<open>Properties\<close>

text \<open>
  C8: the intent hash binds the request: two requests with the same intent hash, where
  Keccak does not collide on their two encodings, have the same canonical intent in every
  field, the transfer limit, the total limit and the batch flag included. (Strings are
  compared after UTF-8 decoding: the JSON encoder writes every invalid byte as U+FFFD.)
\<close>

theorem intent_hash_binds:
  assumes "hash_from_request uc E r1 = Inr (h, a)" and "hash_from_request uc E r2 = Inr (h, b)"
    and "inj_on (keccak256 E) {json_marshal (intent_json a), json_marshal (intent_json b)}"
  shows "a = canonicalize uc r1 \<and> b = canonicalize uc r2 \<and> same_intent a b"
proof -
  have ab: "a = canonicalize uc r1" "b = canonicalize uc r2" "intent_hash E a = intent_hash E b"
    using assms(1,2) by (auto simp: hash_from_request_Inr intent_hash_def)
  moreover have "same_intent a b"
    by (rule intent_hash_text [OF ab(3)]) (rule inj_onD [OF assms(3)], simp_all)
  ultimately show ?thesis by (intro conjI)
qed

definition sample_request :: evaluate_request where
  "sample_request =
    \<lparr>er_agent_id = ''a'', er_account = ''0xA'', er_chain_id = 1, er_token = ''t'', er_recipient = ''r'',
     er_amount_atomic = ''1'',
     er_resource = \<lparr>rs_method = ''get'', rs_domain = ''d'', rs_path = ''/''\<rparr>,
     er_idempotency_key = ''k'',
     er_limits = \<lparr>lm_max_per_transfer = ''1'', lm_max_total_spend = ''2'', lm_allow_batch = False\<rparr>\<rparr>"

theorem intent_hash_binds_witness:
  "same_intent (canonicalize plain_case sample_request)
     (canonicalize plain_case (sample_request\<lparr>er_account := ''0xa'', er_idempotency_key := ''k2''\<rparr>))"
proof -
  let ?r = "sample_request\<lparr>er_account := ''0xa'', er_idempotency_key := ''k2''\<rparr>"
  have "to_lower plain_case ''0xA'' = to_lower plain_case ''0xa''" by code_simp
  then have eq: "canonicalize plain_case ?r = canonicalize plain_case sample_request"
    by (simp add: canonicalize_def sample_request_def)
  have "same_intent (canonicalize plain_case sample_request) (canonicalize plain_case ?r)"
    using intent_hash_binds [of plain_case sample_eth sample_request _ _ ?r]
    by (simp add: hash_from_request_Inr eq)
  then show ?thesis .
qed

end
