(* ===== verification/Session.thy ===== *)
theory Session
  imports Eth_Sample
begin

text \<open>
  \<open>internal/session\<close>: validation of a session configuration (\<open>ValidateV1\<close>) and the
  session identifier derived from it (\<open>SessionConfigPhysicalHash\<close>, \<open>DeriveSessionID\<close>).
  The \<open>must\<close> helpers panic, so derivation is an outcome; what validation promises
  derivation is that it does not.
\<close>

section \<open>Session configuration\<close>

record session_config =
  sc_account :: string
  sc_nonce_key :: string
  sc_session_key :: string
  sc_token :: string
  sc_allowed_target :: string
  sc_allowed_recipient :: string
  sc_allowed_selector :: string
  sc_max_per_transfer :: string
  sc_max_total_spend :: string
  sc_valid_after :: int
  sc_valid_until :: int
  sc_allow_batch :: bool
  sc_policy_hash :: string
  sc_chain_id :: int
  sc_adapter_address :: string

definition transfer_selector :: string where
  "transfer_selector = ''0xa9059cbb''"

definition blank :: "string \<Rightarrow> bool" where
  "blank s \<longleftrightarrow> trim_space s = ''''"

section \<open>ValidateV1\<close>

text \<open>The budget clauses (\<open>SetString\<close> and \<open>Sign\<close>, \<open>Cmp\<close> of the two caps).\<close>

definition validate_caps :: "session_config \<Rightarrow> unit res" where
  "validate_caps cfg =
    (case set_string (sc_max_per_transfer cfg) of
       None \<Rightarrow> Inl (Err ''maxPerTransfer must be positive'')
     | Some maxPer \<Rightarrow>
         if maxPer \<le> 0 then Inl (Err ''maxPerTransfer must be positive'')
         else (case set_string (sc_max_total_spend cfg) of
             None \<Rightarrow> Inl (Err ''maxTotalSpend must be positive'')
           | Some maxTotal \<Rightarrow>
               if maxTotal \<le> 0 then Inl (Err ''maxTotalSpend must be positive'')
               else if maxTotal < maxPer
                 then Inl (Err ''maxTotalSpend must be >= maxPerTransfer'')
               else Inr ()))"

definition validate_v1 :: "ucase \<Rightarrow> session_config \<Rightarrow> unit res" where
  "validate_v1 uc cfg =
    (if blank (sc_account cfg) \<or> blank (sc_session_key cfg) \<or> blank (sc_token cfg)
       then Inl (Err ''account, sessionKey, and token are required'')
     else if blank (sc_allowed_recipient cfg) then Inl (Err ''allowedRecipient is required'')
     else if sc_allowed_target cfg \<noteq> '''' \<and> \<not> equal_fold uc (sc_allowed_target cfg) (sc_token cfg)
       then Inl (Err ''allowedTarget must equal token in v1'')
     else if sc_allowed_selector cfg \<noteq> ''''
         \<and> \<not> equal_fold uc (sc_allowed_selector cfg) ''0xa9059cbb''
       then Inl (Err ''only transfer(address,uint256) selector supported in v1'')
     else if blank (sc_nonce_key cfg) then Inl (Err ''nonceKey is required'')
     else if set_string (sc_nonce_key cfg) = None then Inl (Err ''invalid nonceKey'')
     else (case validate_caps cfg of
         Inl e \<Rightarrow> Inl e
       | Inr _ \<Rightarrow>
           if sc_valid_until cfg \<le> sc_valid_after cfg then Inl (Err ''invalid validity window'')
           else if blank (sc_policy_hash cfg) then Inl (Err ''policyHash is required'')
           else (let h = trim_prefix (sc_policy_hash cfg) ''0x'' in
             if (case hex_decode h of Inl _ \<Rightarrow> True | Inr _ \<Rightarrow> False) \<or> length h \<noteq> 64
               then Inl (Err ''policyHash must be 32-byte hex'')
             else Inr ())))"

section \<open>The session identifier\<close>

definition must_big :: "string \<Rightarrow> int outcome" where
  "must_big s =
    (case set_string s of None \<Rightarrow> Panics (''invalid big int: '' @ s) | Some v \<Rightarrow> Done v)"

definition must_selector :: "string \<Rightarrow> string outcome" where
  "must_selector s =
    (case hex_decode (trim_prefix s ''0x'') of
       Inl _ \<Rightarrow> Panics ''invalid selector''
     | Inr b \<Rightarrow> if length b \<noteq> 4 then Panics ''invalid selector'' else Done b)"

text \<open>The argument lists the two hashes pack.\<close>

definition physical_args ::
    "eth \<Rightarrow> session_config \<Rightarrow> string \<Rightarrow> int \<Rightarrow> int \<Rightarrow> (abi_type \<times> abi_value) list" where
  "physical_args E cfg selector maxPer maxTotal =
    (let allowedTarget = (if sc_allowed_target cfg = '''' then sc_token cfg else sc_allowed_target cfg)
     in [(Address_Ty, Address_Val (hex_to_address E (sc_session_key cfg))),
         (Address_Ty, Address_Val (hex_to_address E (sc_token cfg))),
         (Address_Ty, Address_Val (hex_to_address E allowedTarget)),
         (Address_Ty, Address_Val (hex_to_address E (sc_allowed_recipient cfg))),
         (Bytes_Ty 4, Bytes_Val selector),
         (Uint_Ty 256, Int_Val maxPer),
         (Uint_Ty 256, Int_Val maxTotal),
         (Uint_Ty 48, Int_Val (sc_valid_after cfg)),
         (Uint_Ty 48, Int_Val (sc_valid_until cfg)),
         (Bool_Ty, Bool_Val (sc_allow_batch cfg))])"

definition session_args ::
    "eth \<Rightarrow> session_config \<Rightarrow> int \<Rightarrow> string \<Rightarrow> (abi_type \<times> abi_value) list" where
  "session_args E cfg nonceKey physical =
    [(Uint_Ty 256, Int_Val (sc_chain_id cfg)),
     (Address_Ty, Address_Val (hex_to_address E (sc_adapter_address cfg))),
     (Address_Ty, Address_Val (hex_to_address E (sc_account cfg))),
     (Uint_Ty 192, Int_Val nonceKey),
     (Bytes_Ty 32, Bytes_Val physical)]"

definition session_config_physical_hash :: "eth \<Rightarrow> session_config \<Rightarrow> string outcome" where
  "session_config_physical_hash E cfg =
    bind_outcome (must_selector (sc_allowed_selector cfg)) (\<lambda>selector.
    bind_outcome (must_big (sc_max_per_transfer cfg)) (\<lambda>maxPer.
    bind_outcome (must_big (sc_max_total_spend cfg)) (\<lambda>maxTotal.
    bind_outcome (outcome_of_res (abi_pack E (physical_args E cfg selector maxPer maxTotal)))
      (\<lambda>packed. Done (keccak256 E packed)))))"

definition derive_session_id :: "eth \<Rightarrow> session_config \<Rightarrow> string outcome" where
  "derive_session_id E cfg =
    bind_outcome (session_config_physical_hash E cfg) (\<lambda>physical.
    bind_outcome (must_big (sc_nonce_key cfg)) (\<lambda>nonceKey.
    bind_outcome (outcome_of_res (abi_pack E (session_args E cfg nonceKey physical)))
      (\<lambda>packed. Done (keccak256 E packed))))"

section \<open>What validation guarantees\<close>

text \<open>The contract of \<open>ValidateV1\<close>, clause by clause.\<close>

definition v1_ok :: "ucase \<Rightarrow> session_config \<Rightarrow> bool" where
  "v1_ok uc cfg \<longleftrightarrow>
     \<not> blank (sc_account cfg) \<and> \<not> blank (sc_session_key cfg) \<and> \<not> blank (sc_token cfg) \<and>
     \<not> blank (sc_allowed_recipient cfg) \<and>
     (sc_allowed_target cfg = '''' \<or> equal_fold uc (sc_allowed_target cfg) (sc_token cfg)) \<and>
     (sc_allowed_selector cfg = '''' \<or> equal_fold uc (sc_allowed_selector cfg) transfer_selector) \<and>
     (\<exists>nonce. set_string (sc_nonce_key cfg) = Some nonce) \<and>
     (\<exists>maxPer maxTotal. set_string (sc_max_per_transfer cfg) = Some maxPer \<and>
        set_string (sc_max_total_spend cfg) = Some maxTotal \<and> 0 < maxPer \<and> maxPer \<le> maxTotal) \<and>
     sc_valid_after cfg < sc_valid_until cfg \<and>
     (\<exists>h. hex_decode (trim_prefix (sc_policy_hash cfg) ''0x'') = Inr h \<and> length h = 32)"

lemma validate_caps_ok_iff:
  "validate_caps cfg = Inr () \<longleftrightarrow>
     (\<exists>maxPer maxTotal. set_string (sc_max_per_transfer cfg) = Some maxPer \<and>
        set_string (sc_max_total_spend cfg) = Some maxTotal \<and> 0 < maxPer \<and> maxPer \<le> maxTotal)"
  by (auto simp: validate_caps_def split: option.splits)

lemma hex_64_iff:
  "(\<not> (case hex_decode h of Inl _ \<Rightarrow> True | Inr _ \<Rightarrow> False) \<and> length h = 64) \<longleftrightarrow>
     (\<exists>b. hex_decode h = Inr b \<and> length b = 32)"
  using hex_decode_length [of h] by (auto split: sum.splits)

lemma hex_not_blank:
  assumes "hex_decode (trim_prefix s ''0x'') = Inr b" and "length b = 32"
  shows "\<not> blank s"
proof (cases s)
  case Nil
  with assms show ?thesis by (auto simp: trim_prefix_def has_prefix_def)
next
  case (Cons c cs)
  have "ord c < 128 \<and> \<not> is_space (ord c)"
  proof (cases "has_prefix s ''0x''")
    case True
    with Cons have "c = CHR ''0''" by (simp add: has_prefix_def)
    then show ?thesis by (simp add: is_space_def)
  next
    case False
    with assms(1) Cons have "hex_decode (c # cs) = Inr b" by (simp add: trim_prefix_def)
    then show ?thesis using hex_decode_hd [of c cs b] by (simp add: not_space_printable)
  qed
  with Cons show ?thesis by (simp add: blank_def trim_space_ascii_Cons)
qed

lemma validate_v1_ok_iff: "validate_v1 uc cfg = Inr () \<longleftrightarrow> v1_ok uc cfg"
proof -
  have caps: "(case validate_caps cfg of Inl e \<Rightarrow> Inl e | Inr _ \<Rightarrow> r) = Inr () \<longleftrightarrow>
      validate_caps cfg = Inr () \<and> r = Inr ()" for r :: "unit res"
    by (auto split: sum.splits)
  show ?thesis
    using hex_64_iff [of "trim_prefix (sc_policy_hash cfg) ''0x''"] hex_not_blank [of "sc_policy_hash cfg"]
      set_string_not_blank [of "sc_nonce_key cfg"]
    by (auto simp: validate_v1_def v1_ok_def blank_def caps validate_caps_ok_iff transfer_selector_def Let_def)
qed

section \<open>Derivation does not panic on what the server passes it\<close>

lemma must_big_Some: "set_string s = Some v \<Longrightarrow> must_big s = Done v"
  by (simp add: must_big_def)

lemma must_selector_transfer: "must_selector transfer_selector = Done [chr 169, chr 5, chr 156, chr 187]"
  by code_simp

lemma must_selector_Nil: "must_selector '''' = Panics ''invalid selector''"
  by code_simp

lemma physical_hash_panics_iff:
  assumes "v1_ok uc cfg"
  shows "panics (session_config_physical_hash E cfg) \<longleftrightarrow> panics (must_selector (sc_allowed_selector cfg))"
proof -
  obtain p t where "set_string (sc_max_per_transfer cfg) = Some p"
    and "set_string (sc_max_total_spend cfg) = Some t"
    using assms by (auto simp: v1_ok_def)
  then show ?thesis
    by (simp add: session_config_physical_hash_def Let_def must_big_Some panics_bind_iff)
qed

lemma derive_session_id_panics_iff:
  assumes "v1_ok uc cfg"
  shows "panics (derive_session_id E cfg) \<longleftrightarrow> panics (must_selector (sc_allowed_selector cfg))"
proof -
  obtain n where "set_string (sc_nonce_key cfg) = Some n" using assms by (auto simp: v1_ok_def)
  then show ?thesis
    by (simp add: derive_session_id_def must_big_Some panics_bind_iff
        physical_hash_panics_iff [OF assms])
qed

text \<open>
  The policy hash is audit metadata: neither hash looks at it.
\<close>

lemma derive_session_id_ignores_policy_hash:
  "derive_session_id E (cfg\<lparr>sc_policy_hash := h\<rparr>) = derive_session_id E cfg"
  by (simp add: derive_session_id_def session_config_physical_hash_def physical_args_def session_args_def)

section \<open>The identifier binds the session\<close>

text \<open>
  An argument list is well formed if every value has its type's size; an ABI word holds a
  number below \<open>2 ^ 256\<close>, outside that range the packer wraps around.
\<close>

fun fits :: "abi_type \<times> abi_value \<Rightarrow> bool" where
  "fits (Uint_Ty n, Int_Val v) \<longleftrightarrow> 0 \<le> v \<and> v < 2 ^ 256"
| "fits (Address_Ty, Address_Val a) \<longleftrightarrow> length a = 20"
| "fits (Bool_Ty, Bool_Val b) \<longleftrightarrow> True"
| "fits (Bytes_Ty n, Bytes_Val b) \<longleftrightarrow> length b = n"
| "fits _ \<longleftrightarrow> False"

text \<open>
  What the derivation relies on: digests and addresses have their fixed sizes, and packing
  well-formed static arguments loses nothing.
\<close>

definition eth_sound :: "eth \<Rightarrow> bool" where
  "eth_sound E \<longleftrightarrow>
     (\<forall>x. length (keccak256 E x) = 32) \<and> (\<forall>x. length (hex_to_address E x) = 20) \<and>
     (\<forall>xs ys p. abi_pack E xs = Inr p \<longrightarrow> abi_pack E ys = Inr p \<longrightarrow> map fst xs = map fst ys \<longrightarrow>
        list_all fits xs \<longrightarrow> list_all fits ys \<longrightarrow> xs = ys)"

definition numbers_fit :: "session_config \<Rightarrow> bool" where
  "numbers_fit cfg \<longleftrightarrow>
     list_all (\<lambda>v. 0 \<le> v \<and> v < 2 ^ 256) [sc_valid_after cfg, sc_valid_until cfg, sc_chain_id cfg] \<and>
     list_all (\<lambda>s. \<forall>v. set_string s = Some v \<longrightarrow> 0 \<le> v \<and> v < 2 ^ 256)
       [sc_max_per_transfer cfg, sc_max_total_spend cfg, sc_nonce_key cfg]"

lemma must_big_Done: "must_big s = Done v \<longleftrightarrow> set_string s = Some v"
  by (simp add: must_big_def split: option.split)

lemma must_selector_length: "must_selector s = Done sel \<Longrightarrow> length sel = 4"
  by (auto simp: must_selector_def split: sum.splits if_splits)

lemma physical_hash_Done:
  "session_config_physical_hash E cfg = Done h \<longleftrightarrow>
     (\<exists>sel p t packed. must_selector (sc_allowed_selector cfg) = Done sel \<and>
        set_string (sc_max_per_transfer cfg) = Some p \<and> set_string (sc_max_total_spend cfg) = Some t \<and>
        abi_pack E (physical_args E cfg sel p t) = Inr packed \<and> h = keccak256 E packed)"
  by (auto simp: session_config_physical_hash_def bind_outcome_Done must_big_Done)

lemma session_id_Done:
  "derive_session_id E cfg = Done h \<longleftrightarrow>
     (\<exists>ph n packed. session_config_physical_hash E cfg = Done ph \<and>
        set_string (sc_nonce_key cfg) = Some n \<and>
        abi_pack E (session_args E cfg n ph) = Inr packed \<and> h = keccak256 E packed)"
  by (auto simp: derive_session_id_def bind_outcome_Done must_big_Done)

lemma physical_args_fit:
  assumes "eth_sound E" "numbers_fit cfg" "must_selector (sc_allowed_selector cfg) = Done sel"
    and "set_string (sc_max_per_transfer cfg) = Some p" "set_string (sc_max_total_spend cfg) = Some t"
  shows "list_all fits (physical_args E cfg sel p t)"
  using assms must_selector_length [OF assms(3)]
  by (simp add: physical_args_def numbers_fit_def eth_sound_def)

lemma session_args_fit:
  assumes "eth_sound E" "numbers_fit cfg" "set_string (sc_nonce_key cfg) = Some n"
    and "length ph = 32"
  shows "list_all fits (session_args E cfg n ph)"
  using assms by (simp add: session_args_def numbers_fit_def eth_sound_def)

lemma eth_soundD:
  assumes "eth_sound E" "abi_pack E xs = Inr p" "abi_pack E ys = Inr p" "map fst xs = map fst ys"
    and "list_all fits xs" "list_all fits ys"
  shows "xs = ys"
  using assms unfolding eth_sound_def by blast

text \<open>The sample functions satisfy this.\<close>

lemma shape_fits: "fits (ty, v) \<Longrightarrow> fits (ty, w) \<Longrightarrow> shape v = shape w"
  by (cases ty; cases v; cases w) auto

lemma sample_sound: "eth_sound sample_eth"
proof -
  have "xs = ys" if "sample_pack xs = sample_pack ys" "map fst xs = map fst ys"
    "list_all fits xs" "list_all fits ys" for xs ys
  proof (rule sample_pack_inject [OF that(1) _ that(2)])
    have len: "length xs = length ys" using map_eq_imp_length_eq [OF that(2)] .
    show "map (shape \<circ> snd) xs = map (shape \<circ> snd) ys"
    proof (rule nth_equalityI)
      fix i assume "i < length (map (shape \<circ> snd) xs)"
      then have i: "i < length xs" "i < length ys" using len by auto
      then have "fits (xs ! i)" "fits (ys ! i)" "fst (xs ! i) = fst (ys ! i)"
        using that(2-4) by (auto simp: list_all_length list_eq_iff_nth_eq)
      then show "map (shape \<circ> snd) xs ! i = map (shape \<circ> snd) ys ! i"
        using i shape_fits by (metis comp_apply nth_map prod.collapse)
    qed (simp add: len)
  qed
  then show ?thesis by (simp add: eth_sound_def sample_eth_def)
qed

text \<open>What a session is on chain: the fields both hashes read, as the contract sees them.\<close>

definition on_chain :: "eth \<Rightarrow> session_config \<Rightarrow>
    (string \<times> string \<times> string \<times> string \<times> string \<times> string) \<times> int \<times>
    (int option \<times> int option \<times> int option) \<times> string outcome \<times> int \<times> int \<times> bool" where
  "on_chain E cfg =
    ((hex_to_address E (sc_adapter_address cfg), hex_to_address E (sc_account cfg),
      hex_to_address E (sc_session_key cfg), hex_to_address E (sc_token cfg),
      hex_to_address E (if sc_allowed_target cfg = '''' then sc_token cfg else sc_allowed_target cfg),
      hex_to_address E (sc_allowed_recipient cfg)),
     sc_chain_id cfg,
     (set_string (sc_nonce_key cfg), set_string (sc_max_per_transfer cfg), set_string (sc_max_total_spend cfg)),
     must_selector (sc_allowed_selector cfg),
     sc_valid_after cfg, sc_valid_until cfg, sc_allow_batch cfg)"

text \<open>Keccak has no collision among the encodings of two sessions.\<close>

definition no_collision :: "eth \<Rightarrow> string set \<Rightarrow> bool" where
  "no_collision E X \<longleftrightarrow> inj_on (keccak256 E) X"

definition encodings :: "eth \<Rightarrow> session_config \<Rightarrow> string set" where
  "encodings E cfg =
    {e. \<exists>sel p t. must_selector (sc_allowed_selector cfg) = Done sel \<and>
       set_string (sc_max_per_transfer cfg) = Some p \<and> set_string (sc_max_total_spend cfg) = Some t \<and>
       abi_pack E (physical_args E cfg sel p t) = Inr e} \<union>
    {e. \<exists>n ph. set_string (sc_nonce_key cfg) = Some n \<and> session_config_physical_hash E cfg = Done ph \<and>
       abi_pack E (session_args E cfg n ph) = Inr e}"

lemma session_id_binds:
  assumes "eth_sound E" "numbers_fit a" "numbers_fit b" "no_collision E (encodings E a \<union> encodings E b)"
    and "derive_session_id E a = Done h" "derive_session_id E b = Done h"
  shows "on_chain E a = on_chain E b"
proof -
  have len: "length (keccak256 E x) = 32" for x using assms(1) by (simp add: eth_sound_def)
  obtain pa na ea where a: "session_config_physical_hash E a = Done pa" "set_string (sc_nonce_key a) = Some na"
      "abi_pack E (session_args E a na pa) = Inr ea" "h = keccak256 E ea"
    using assms(5) unfolding session_id_Done by blast
  obtain pb nb eb where b: "session_config_physical_hash E b = Done pb" "set_string (sc_nonce_key b) = Some nb"
      "abi_pack E (session_args E b nb pb) = Inr eb" "h = keccak256 E eb"
    using assms(6) unfolding session_id_Done by blast
  obtain sa ca ta xa where pa: "must_selector (sc_allowed_selector a) = Done sa"
      "set_string (sc_max_per_transfer a) = Some ca" "set_string (sc_max_total_spend a) = Some ta"
      "abi_pack E (physical_args E a sa ca ta) = Inr xa" "pa = keccak256 E xa"
    using a(1) unfolding physical_hash_Done by blast
  obtain sb cb tb xb where pb: "must_selector (sc_allowed_selector b) = Done sb"
      "set_string (sc_max_per_transfer b) = Some cb" "set_string (sc_max_total_spend b) = Some tb"
      "abi_pack E (physical_args E b sb cb tb) = Inr xb" "pb = keccak256 E xb"
    using b(1) unfolding physical_hash_Done by blast
  have mem: "ea \<in> encodings E a" "xa \<in> encodings E a" "eb \<in> encodings E b" "xb \<in> encodings E b"
    using a(1-3) b(1-3) pa(1-4) pb(1-4) by (auto simp: encodings_def)
  then have "ea = eb" using assms(4) a(4) b(4) by (auto simp: no_collision_def inj_on_def)
  then have 1: "session_args E a na pa = session_args E b nb pb"
    using a(3) b(3) assms(1-3) a(2) b(2) len pa(5) pb(5)
    by (intro eth_soundD [OF assms(1)] session_args_fit) (auto simp: session_args_def)
  then have "pa = pb" by (simp add: session_args_def)
  then have "xa = xb" using assms(4) mem pa(5) pb(5) by (auto simp: no_collision_def inj_on_def)
  then have 2: "physical_args E a sa ca ta = physical_args E b sb cb tb"
    using pa pb assms(1-3)
    by (intro eth_soundD [OF assms(1)] physical_args_fit) (auto simp: physical_args_def)
  show ?thesis
    using 1 2 a(2) b(2) pa(1-3) pb(1-3)
    by (auto simp: on_chain_def session_args_def physical_args_def Let_def)
qed

text \<open>Conversely the identifier is a function of the session on chain.\<close>

lemma on_chain_determines_id:
  assumes "on_chain E a = on_chain E b"
  shows "derive_session_id E a = Done h \<longleftrightarrow> derive_session_id E b = Done h"
proof -
  have "physical_args E a = physical_args E b" "session_args E a = session_args E b"
    using assms by (simp_all add: on_chain_def physical_args_def session_args_def fun_eq_iff Let_def)
  then show ?thesis
    using assms by (simp add: session_id_Done physical_hash_Done on_chain_def)
qed

section \<open>Properties\<close>

text \<open>
  C16: \<open>ValidateV1\<close> accepts exactly the session configurations of version 1: the required
  fields present, the target the token and the selector \<open>transfer\<close> where given, a decimal
  nonce key, \<open>0 < maxPerTransfer \<le> maxTotalSpend\<close>, a non-empty validity window and a
  32-byte policy hash.
\<close>

theorem validate_v1_accepts_iff: "validate_v1 uc cfg = Inr () \<longleftrightarrow> v1_ok uc cfg"
  by (rule validate_v1_ok_iff)

text \<open>
  C30: after \<open>ValidateV1\<close> the identifier derivation panics exactly if the selector is not
  four bytes of hex, which validation does not rule out for an empty selector or one with
  an upper-case \<open>0X\<close>; with the selector the server passes it does not panic.
\<close>

theorem derivation_panics_iff:
  assumes "validate_v1 uc cfg = Inr ()"
  shows "(panics (derive_session_id E cfg) \<longleftrightarrow> panics (must_selector (sc_allowed_selector cfg))) \<and>
    (sc_allowed_selector cfg = transfer_selector \<longrightarrow> \<not> panics (derive_session_id E cfg)) \<and>
    (sc_allowed_selector cfg \<in> {'''', ''0Xa9059cbb''} \<longrightarrow> panics (derive_session_id E cfg))"
proof -
  note iff = derive_session_id_panics_iff [OF assms [unfolded validate_v1_ok_iff]]
  have "panics (must_selector ''0Xa9059cbb'')" by code_simp
  then show ?thesis by (auto simp: iff must_selector_transfer must_selector_Nil)
qed

definition sample_session :: session_config where
  "sample_session =
    \<lparr>sc_account = ''0xA1'', sc_nonce_key = ''7'', sc_session_key = ''0xB2'', sc_token = ''0xC3'',
     sc_allowed_target = ''0xC3'', sc_allowed_recipient = ''0xD4'', sc_allowed_selector = '''',
     sc_max_per_transfer = ''10'', sc_max_total_spend = ''25'', sc_valid_after = 100,
     sc_valid_until = 200, sc_allow_batch = False, sc_policy_hash = concat (replicate 32 ''ab''),
     sc_chain_id = 8, sc_adapter_address = ''0xE5''\<rparr>"

lemma sample_numbers: "set_string ''7'' = Some 7" "set_string ''10'' = Some 10" "set_string ''25'' = Some 25"
  by code_simp+

lemma sample_hash: "\<exists>h. hex_decode (trim_prefix (concat (replicate 32 ''ab'')) ''0x'') = Inr h \<and> length h = 32"
proof -
  have "(case hex_decode (trim_prefix (concat (replicate 32 ''ab'')) ''0x'') of
      Inl e \<Rightarrow> False | Inr h \<Rightarrow> length h = 32)" by code_simp
  then show ?thesis by (auto split: sum.splits)
qed

lemma not_blank_0x: "\<not> blank (CHR ''0'' # s)"
  by (simp add: blank_def trim_space_ascii_Cons is_space_def)

lemma sample_session_ok: "validate_v1 uc sample_session = Inr ()"
  unfolding validate_v1_ok_iff
  using sample_hash by (auto simp: v1_ok_def sample_session_def sample_numbers not_blank_0x)

lemma sample_session_selector: "sc_allowed_selector sample_session = ''''"
  by (simp add: sample_session_def)

theorem derivation_panics_iff_witness: "panics (derive_session_id sample_eth sample_session)"
  using derivation_panics_iff [OF sample_session_ok, of sample_eth] sample_session_selector
  by (metis insertI1)

text \<open>
  C4: the session identifier binds the session: if two configurations whose numbers fit ABI
  words get the same identifier, and Keccak has no collision among their encodings, then the
  contract sees the same session in both: adapter, account, session key, token, target,
  recipient, chain, nonce key, both caps, selector, validity window and batch flag.
\<close>

theorem session_id_binds_session:
  assumes "eth_sound E" and "numbers_fit a" and "numbers_fit b"
    and "no_collision E (encodings E a \<union> encodings E b)"
    and "derive_session_id E a = Done h" and "derive_session_id E b = Done h"
  shows "on_chain E a = on_chain E b"
  using assms by (rule session_id_binds)

definition sample_transfer :: session_config where
  "sample_transfer = sample_session\<lparr>sc_allowed_selector := transfer_selector\<rparr>"

lemma sample_first_char:
  "abi_pack sample_eth (physical_args sample_eth sample_transfer sel p t) = Inr e \<Longrightarrow> hd e = CHR ''3''"
  "abi_pack sample_eth (session_args sample_eth sample_transfer n ph) = Inr e \<Longrightarrow> hd e = CHR ''8''"
proof -
  have hex: "hex_encode (fixed_length 20 ''0xB2'') = CHR ''3'' # tl (hex_encode (fixed_length 20 ''0xB2''))"
    by code_simp
  then obtain r where r: "hex_encode (fixed_length 20 ''0xB2'') = CHR ''3'' # r" by blast
  have num: "show_int 8 = CHR ''8'' # tl (show_int 8)" by code_simp
  then obtain q where q: "show_int 8 = CHR ''8'' # q" by blast
  show "hd e = CHR ''3''" if "abi_pack sample_eth (physical_args sample_eth sample_transfer sel p t) = Inr e"
    using that r
    by (auto simp: sample_eth_def sample_pack_def physical_args_def Let_def sample_transfer_def
        sample_session_def)
  show "hd e = CHR ''8''" if "abi_pack sample_eth (session_args sample_eth sample_transfer n ph) = Inr e"
    using that q
    by (auto simp: sample_eth_def sample_pack_def session_args_def sample_transfer_def
        sample_session_def)
qed

lemma sample_no_collision: "no_collision sample_eth (encodings sample_eth sample_transfer)"
  unfolding no_collision_def
proof (rule inj_onI)
  fix x y
  assume x: "x \<in> encodings sample_eth sample_transfer" and y: "y \<in> encodings sample_eth sample_transfer"
    and eq: "keccak256 sample_eth x = keccak256 sample_eth y"
  have ne: "z \<noteq> []" if "z \<in> encodings sample_eth sample_transfer" for z
    using that by (auto simp: encodings_def sample_eth_def sample_pack_def physical_args_def session_args_def)
  have hd: "hd (fixed_length 32 z) = hd z" if "z \<noteq> []" for z
    using that by (cases z) (simp_all add: fixed_length_def)
  have "fixed_length 32 x = fixed_length 32 y" using eq by (simp add: sample_eth_def)
  then have "hd x = hd y" using hd [OF ne [OF x]] hd [OF ne [OF y]] by simp
  with x y show "x = y"
    unfolding encodings_def using sample_first_char by fastforce
qed

lemma encodings_policy_hash [simp]: "encodings E (cfg\<lparr>sc_policy_hash := h\<rparr>) = encodings E cfg"
  by (simp add: encodings_def session_config_physical_hash_def physical_args_def session_args_def)

lemma sample_derives: "\<exists>h. derive_session_id sample_eth sample_transfer = Done h"
  by (simp add: derive_session_id_def session_config_physical_hash_def sample_transfer_def
      must_selector_transfer sample_session_def must_big_def sample_numbers sample_eth_def
      sample_pack_def)

theorem session_id_binds_session_witness:
  "on_chain sample_eth sample_transfer
     = on_chain sample_eth (sample_transfer\<lparr>sc_policy_hash := ''other''\<rparr>)"
proof -
  obtain h where h: "derive_session_id sample_eth sample_transfer = Done h"
    using sample_derives by blast
  have fit: "numbers_fit sample_transfer" "numbers_fit (sample_transfer\<lparr>sc_policy_hash := ''other''\<rparr>)"
    by (simp_all add: numbers_fit_def sample_transfer_def sample_session_def sample_numbers)
  show ?thesis
    by (rule session_id_binds_session [OF sample_sound fit _ h])
       (use h sample_no_collision in \<open>simp_all add: derive_session_id_ignores_policy_hash\<close>)
qed

end
