(* ===== verification/Store.thy ===== *)
theory Store
  imports Redis Session Http
begin

text \<open>
  \<open>internal/store\<close>: the PostgreSQL tables (\<open>db/migrations\<close>) as lists of rows, and every
  statement of \<open>store.go\<close> as a function on them, with the UNIQUE, CHECK and NOT NULL
  constraints the statements can run into. Surrogate \<open>id\<close> columns (fresh UUIDs) and
  time stamps that no statement reads are left out. How PostgreSQL reads a numeric literal,
  folds case and picks one of several rows is the parameter \<^typ>\<open>'a\<close> \<open>pg\<close>.
\<close>

section \<open>Rows\<close>

record session_row =
  sr_session_id :: string
  sr_account :: string
  sr_agent_id :: string
  sr_session_key :: string
  sr_token :: string
  sr_allowed_target :: string
  sr_allowed_recipient :: string
  sr_allowed_selector :: string
  sr_nonce_key :: string
  sr_max_per_transfer :: string
  sr_max_total_spend :: string
  sr_valid_after :: int
  sr_valid_until :: int
  sr_allow_batch :: bool
  sr_policy_hash :: string
  sr_status :: string

record intent_row =
  ir_intent_hash :: string
  ir_agent_id :: string
  ir_account :: string
  ir_chain_id :: int
  ir_token :: string
  ir_recipient :: string
  ir_amount :: string
  ir_max_per_transfer :: "string option"
  ir_max_total_spend :: "string option"
  ir_allow_batch :: bool
  ir_domain :: string
  ir_path :: string
  ir_idempotency_key :: string

record decision_row =
  dr_decision_id :: string
  dr_intent_hash :: string
  dr_decision :: string
  dr_reason_codes :: "string list option"
  dr_policy_hash :: string
  dr_created_at :: int
  dr_consumed_at :: "int option"
  dr_consumed_session :: "string option"

record reservation_row =
  rr_reservation_id :: string
  rr_session_id :: string
  rr_intent_hash :: string
  rr_agent_id :: string
  rr_amount :: string
  rr_status :: string
  rr_idempotency_key :: string
  rr_execution_digest :: "string option"
  rr_finalized_at :: "int option"

record userop_row =
  ur_hash :: string
  ur_reservation_id :: string
  ur_session_id :: string
  ur_status :: string
  ur_bundler :: string
  ur_tx_hash :: "string option"
  ur_block :: "int option"
  ur_submitted_at :: "int option"
  ur_finalized_at :: "int option"
  ur_last_checked_at :: "int option"

record receipt_row =
  ar_decision_id :: string
  ar_intent_hash :: string
  ar_session_id :: string
  ar_receipt_hash :: string
  ar_receipt_json :: json
  ar_signature :: string
  ar_signer_key_id :: string

text \<open>\<open>store.ChainExecution\<close>, and its row: the digest may be NULL.\<close>

record chain_execution =
  ce_account :: string
  ce_session_id :: string
  ce_nonce_key :: string
  ce_frame_spend :: string
  ce_total_spend_after :: string
  ce_execution_digest :: string
  ce_block_number :: int
  ce_tx_hash :: string
  ce_log_index :: int

record chain_row =
  cr_execution :: chain_execution
  cr_digest :: "string option"
  cr_created_at :: int

text \<open>
  The database: its tables in insertion order, the server's clock, and what the network
  will do to the next statements.
\<close>

record db =
  sessions :: "session_row list"
  payment_intents :: "intent_row list"
  policy_decisions :: "decision_row list"
  budget_reservations :: "reservation_row list"
  userop_lifecycle :: "userop_row list"
  audit_receipts :: "receipt_row list"
  chain_executions :: "chain_row list"
  watcher_state :: "string \<Rightarrow> string option"
  db_now :: int
  db_faults :: "fault list"

section \<open>PostgreSQL as a parameter\<close>

text \<open>
  \<open>numeric_in\<close> reads a text as NUMERIC(78,0) and gives the column's \<open>::text\<close>, or fails;
  \<open>sql_lower\<close> is \<open>lower\<close>; \<open>pick\<close> chooses among the rows of a \<open>LIMIT 1\<close> without order.
\<close>

record pg =
  numeric_in :: "string \<Rightarrow> string option"
  sql_lower :: "string \<Rightarrow> string"
  pick :: "string list \<Rightarrow> string"

text \<open>What the code relies on: integers of up to 78 digits are kept, text that is no number
  is refused, \<open>pick\<close> picks a row there is.\<close>

definition pg_sound :: "pg \<Rightarrow> bool" where
  "pg_sound P \<longleftrightarrow>
     (\<forall>i. \<bar>i\<bar> < 10 ^ 78 \<longrightarrow> numeric_in P (show_int i) = Some (show_int i)) \<and>
     numeric_in P '''' = None \<and> (\<forall>xs. xs \<noteq> [] \<longrightarrow> pick P xs \<in> set xs)"

section \<open>Statements and transactions\<close>

definition sql_error :: go_error where
  "sql_error = Err ''sql: constraint or syntax error''"

type_synonym 'a sql = "db \<Rightarrow> db \<times> 'a res"

definition db_fault :: "db \<Rightarrow> fault" where
  "db_fault s = (case db_faults s of [] \<Rightarrow> Served | f # _ \<Rightarrow> f)"

text \<open>A statement of its own: lost, served, or served with its answer lost.\<close>

definition stmt :: "'a sql \<Rightarrow> 'a sql" where
  "stmt f s =
    (let s0 = s\<lparr>db_faults := tl (db_faults s)\<rparr> in
     case db_fault s of
       Served \<Rightarrow> f s0
     | Request_Lost \<Rightarrow> (s0, Inl io_error)
     | Reply_Lost \<Rightarrow> (fst (f s0), Inl io_error))"

text \<open>A transaction: any error before the commit rolls everything back.\<close>

definition sql_bind :: "'a sql \<Rightarrow> ('a \<Rightarrow> 'b sql) \<Rightarrow> 'b sql" where
  "sql_bind m f s = (case m s of (s', Inl e) \<Rightarrow> (s', Inl e) | (s', Inr x) \<Rightarrow> f x s')"

definition in_tx :: "'a sql \<Rightarrow> 'a sql" where
  "in_tx body s =
    (case stmt (\<lambda>d. (d, Inr ())) s of
       (s0, Inl e) \<Rightarrow> (s0, Inl e)
     | (s0, Inr _) \<Rightarrow>
         (case body s0 of
            (s1, Inl e) \<Rightarrow> (s0\<lparr>db_faults := db_faults s1\<rparr>, Inl e)
          | (s1, Inr x) \<Rightarrow>
              (let rest = tl (db_faults s1) in
               case db_fault s1 of
                 Served \<Rightarrow> (s1\<lparr>db_faults := rest\<rparr>, Inr x)
               | Request_Lost \<Rightarrow> (s0\<lparr>db_faults := rest\<rparr>, Inl io_error)
               | Reply_Lost \<Rightarrow> (s1\<lparr>db_faults := rest\<rparr>, Inl io_error))))"

text \<open>\<open>QueryRow\<close> on the first matching row.\<close>

definition query_row :: "(db \<Rightarrow> 'a option) \<Rightarrow> 'a sql" where
  "query_row f = stmt (\<lambda>s. (s, case f s of None \<Rightarrow> Inl (Err ''no rows in result set'') | Some x \<Rightarrow> Inr x))"

text \<open>Errors of the driver replaced by the method's own.\<close>

definition or_error :: "string \<Rightarrow> 'a sql \<Rightarrow> 'a sql" where
  "or_error msg m s = (case m s of (s', Inl _) \<Rightarrow> (s', Inl (Err msg)) | (s', Inr x) \<Rightarrow> (s', Inr x))"

text \<open>\<open>UPDATE \<dots> WHERE\<close>: the rows affected.\<close>

definition update_where :: "('r \<Rightarrow> bool) \<Rightarrow> ('r \<Rightarrow> 'r) \<Rightarrow> 'r list \<Rightarrow> 'r list \<times> nat" where
  "update_where p f rows = (map (\<lambda>r. if p r then f r else r) rows, length (filter p rows))"

text \<open>\<open>ORDER BY created_at DESC LIMIT 1\<close>.\<close>

fun latest :: "('r \<Rightarrow> int) \<Rightarrow> 'r list \<Rightarrow> 'r option" where
  "latest f [] = None"
| "latest f (r # rs) =
    (case latest f rs of None \<Rightarrow> Some r | Some r' \<Rightarrow> if f r' < f r then Some r else Some r')"

section \<open>Intents and decisions\<close>

definition save_intent :: "pg \<Rightarrow> string \<Rightarrow> string \<Rightarrow> string \<Rightarrow> int \<Rightarrow> string \<Rightarrow> string \<Rightarrow> string \<Rightarrow>
    string \<Rightarrow> string \<Rightarrow> bool \<Rightarrow> string \<Rightarrow> string \<Rightarrow> string \<Rightarrow> unit sql" where
  "save_intent P intentHash agentID account chainID token recipient amount maxPer maxTotal
      allowBatch domain path idem =
    stmt (\<lambda>s. case (numeric_in P amount, numeric_in P maxPer, numeric_in P maxTotal) of
      (Some a, Some p, Some t) \<Rightarrow>
        if \<exists>r \<in> set (payment_intents s). ir_intent_hash r = intentHash then (s, Inr ())
        else if \<exists>r \<in> set (payment_intents s). ir_idempotency_key r = idem then (s, Inl sql_error)
        else (s\<lparr>payment_intents := payment_intents s @
          [\<lparr>ir_intent_hash = intentHash, ir_agent_id = agentID, ir_account = account,
            ir_chain_id = chainID, ir_token = token, ir_recipient = recipient, ir_amount = a,
            ir_max_per_transfer = Some p, ir_max_total_spend = Some t, ir_allow_batch = allowBatch,
            ir_domain = domain, ir_path = path, ir_idempotency_key = idem\<rparr>]\<rparr>, Inr ())
    | _ \<Rightarrow> (s, Inl sql_error))"

definition save_decision ::
    "string \<Rightarrow> string \<Rightarrow> string \<Rightarrow> string list option \<Rightarrow> string \<Rightarrow> unit sql" where
  "save_decision decisionID intentHash decision reasonCodes policyHash =
    stmt (\<lambda>s.
      if decision \<notin> {''ALLOW'', ''BLOCK''} then (s, Inl sql_error)
      else if \<exists>r \<in> set (policy_decisions s). dr_decision_id r = decisionID then (s, Inl sql_error)
      else (s\<lparr>policy_decisions := policy_decisions s @
        [\<lparr>dr_decision_id = decisionID, dr_intent_hash = intentHash, dr_decision = decision,
          dr_reason_codes = reasonCodes, dr_policy_hash = policyHash, dr_created_at = db_now s,
          dr_consumed_at = None, dr_consumed_session = None\<rparr>]\<rparr>, Inr ()))"

record intent_snapshot =
  is_agent_id :: string
  is_account :: string
  is_token :: string
  is_recipient :: string
  is_amount_atomic :: string
  is_max_per_transfer :: string
  is_max_total_spend :: string
  is_allow_batch :: bool

definition snapshot_of :: "intent_row \<Rightarrow> intent_snapshot" where
  "snapshot_of r =
    \<lparr>is_agent_id = ir_agent_id r, is_account = ir_account r, is_token = ir_token r,
     is_recipient = ir_recipient r, is_amount_atomic = ir_amount r,
     is_max_per_transfer = (case ir_max_per_transfer r of None \<Rightarrow> ir_amount r | Some m \<Rightarrow> m),
     is_max_total_spend = (case ir_max_total_spend r of None \<Rightarrow> ir_amount r | Some m \<Rightarrow> m),
     is_allow_batch = ir_allow_batch r\<rparr>"

definition decision_of :: "string \<Rightarrow> db \<Rightarrow> decision_row option" where
  "decision_of decisionID s = find (\<lambda>r. dr_decision_id r = decisionID) (policy_decisions s)"

definition get_allow_decision :: "string \<Rightarrow> (string \<times> string \<times> intent_snapshot) sql" where
  "get_allow_decision decisionID =
    sql_bind (or_error ''decision not found'' (query_row (decision_of decisionID))) (\<lambda>d.
      if dr_decision d \<noteq> ''ALLOW'' then (\<lambda>s. (s, Inl (Err ''decision is not ALLOW'')))
      else sql_bind (or_error ''intent not found for decision''
          (query_row (\<lambda>s. find (\<lambda>r. ir_intent_hash r = dr_intent_hash d) (payment_intents s))))
        (\<lambda>r s. (s, Inr (dr_intent_hash d, dr_policy_hash d, snapshot_of r))))"

section \<open>Sessions\<close>

definition session_row_of :: "string \<Rightarrow> string \<Rightarrow> session_config \<Rightarrow> string \<Rightarrow> string \<Rightarrow> string \<Rightarrow> session_row" where
  "session_row_of sessionID agentID cfg maxPer maxTotal status =
    \<lparr>sr_session_id = sessionID, sr_account = sc_account cfg, sr_agent_id = agentID,
     sr_session_key = sc_session_key cfg, sr_token = sc_token cfg,
     sr_allowed_target = sc_allowed_target cfg, sr_allowed_recipient = sc_allowed_recipient cfg,
     sr_allowed_selector = sc_allowed_selector cfg, sr_nonce_key = sc_nonce_key cfg,
     sr_max_per_transfer = maxPer, sr_max_total_spend = maxTotal,
     sr_valid_after = sc_valid_after cfg, sr_valid_until = sc_valid_until cfg,
     sr_allow_batch = sc_allow_batch cfg, sr_policy_hash = sc_policy_hash cfg, sr_status = status\<rparr>"

text \<open>
  Both inserts into \<open>sessions\<close>: what a conflict on the session identifier does to the row
  that is there is the argument \<open>f\<close>; a second session for one account and nonce key is refused.
\<close>

definition insert_session ::
    "pg \<Rightarrow> (session_row \<Rightarrow> session_row) \<Rightarrow> string \<Rightarrow> string \<Rightarrow> session_config \<Rightarrow> string \<Rightarrow> unit sql" where
  "insert_session P f sessionID agentID cfg status s =
    (case (numeric_in P (sc_max_per_transfer cfg), numeric_in P (sc_max_total_spend cfg)) of
       (Some p, Some t) \<Rightarrow>
         if \<exists>r \<in> set (sessions s). sr_session_id r = sessionID
         then (s\<lparr>sessions := fst (update_where (\<lambda>r. sr_session_id r = sessionID) f (sessions s))\<rparr>, Inr ())
         else if \<exists>r \<in> set (sessions s). sr_account r = sc_account cfg \<and> sr_nonce_key r = sc_nonce_key cfg
         then (s, Inl sql_error)
         else (s\<lparr>sessions := sessions s @ [session_row_of sessionID agentID cfg p t status]\<rparr>, Inr ())
     | _ \<Rightarrow> (s, Inl sql_error))"

definition save_session_draft :: "pg \<Rightarrow> string \<Rightarrow> string \<Rightarrow> session_config \<Rightarrow> string \<Rightarrow> unit sql" where
  "save_session_draft P sessionID agentID cfg status =
    stmt (insert_session P (\<lambda>r. r\<lparr>sr_status := status\<rparr>) sessionID agentID cfg status)"

text \<open>
  \<open>AuthorizeSession\<close>. The row is locked by \<open>FOR UPDATE\<close>, so concurrent calls on one decision
  follow one another; the partial unique index lets one session consume one decision only.
\<close>

definition consume_decision :: "string \<Rightarrow> string \<Rightarrow> nat sql" where
  "consume_decision decisionID sessionID s =
    (let p = (\<lambda>r. dr_decision_id r = decisionID \<and> dr_consumed_at r = None);
         f = (\<lambda>r. r\<lparr>dr_consumed_at := Some (db_now s), dr_consumed_session := Some sessionID\<rparr>);
         (rows, n) = update_where p f (policy_decisions s)
     in if 0 < n \<and> (\<exists>r \<in> set (policy_decisions s).
          dr_decision_id r \<noteq> decisionID \<and> dr_consumed_session r = Some sessionID)
        then (s, Inl sql_error)
        else (s\<lparr>policy_decisions := rows\<rparr>, Inr n))"

definition authorize_session :: "pg \<Rightarrow> string \<Rightarrow> string \<Rightarrow> string \<Rightarrow> session_config \<Rightarrow> unit sql" where
  "authorize_session P decisionID sessionID agentID cfg =
    in_tx (sql_bind (or_error ''decision not found'' (query_row (decision_of decisionID))) (\<lambda>d.
      if dr_decision d \<noteq> ''ALLOW'' then (\<lambda>s. (s, Inl (Err ''decision is not ALLOW'')))
      else if dr_consumed_at d \<noteq> None
        then (if dr_consumed_session d = Some sessionID then (\<lambda>s. (s, Inr ()))
              else (\<lambda>s. (s, Inl (Err ''decision already consumed''))))
      else sql_bind (stmt (consume_decision decisionID sessionID)) (\<lambda>n.
        if n = 0 then (\<lambda>s. (s, Inl (Err ''decision already consumed'')))
        else stmt (insert_session P (\<lambda>r. r) sessionID agentID cfg ''SESSION_AUTHORIZED''))))"

record session_reserve_snapshot =
  rs_agent_id :: string
  rs_intent_hash :: string
  rs_max_per_transfer :: string
  rs_max_total_spend :: string
  rs_valid_after :: int
  rs_valid_until :: int
  rs_status :: string

definition reserve_snapshot :: "pg \<Rightarrow> string \<Rightarrow> db \<Rightarrow> session_reserve_snapshot option" where
  "reserve_snapshot P sessionID s =
    map_option (\<lambda>r.
      \<lparr>rs_agent_id = sr_agent_id r,
       rs_intent_hash =
         (case latest dr_created_at (filter (\<lambda>d. dr_consumed_session d = Some (sr_session_id r)
              \<and> dr_decision d = ''ALLOW'') (policy_decisions s)) of
            None \<Rightarrow> '''' | Some d \<Rightarrow> dr_intent_hash d),
       rs_max_per_transfer = sr_max_per_transfer r, rs_max_total_spend = sr_max_total_spend r,
       rs_valid_after = sr_valid_after r, rs_valid_until = sr_valid_until r, rs_status = sr_status r\<rparr>)
    (find (\<lambda>r. sql_lower P (sr_session_id r) = sql_lower P sessionID) (sessions s))"

definition get_session_reserve_snapshot :: "pg \<Rightarrow> string \<Rightarrow> session_reserve_snapshot sql" where
  "get_session_reserve_snapshot P sessionID =
    or_error ''session not found'' (query_row (reserve_snapshot P sessionID))"

section \<open>Reservations\<close>

definition save_reservation :: "pg \<Rightarrow> string \<Rightarrow> string \<Rightarrow> string \<Rightarrow> string \<Rightarrow> string \<Rightarrow> string \<Rightarrow> string \<Rightarrow>
    unit sql" where
  "save_reservation P reservationID sessionID intentHash agentID amount status idem =
    stmt (\<lambda>s. case numeric_in P amount of
      None \<Rightarrow> (s, Inl sql_error)
    | Some a \<Rightarrow>
        if \<exists>r \<in> set (budget_reservations s).
             rr_reservation_id r = reservationID \<or> rr_idempotency_key r = idem
        then (s, Inl sql_error)
        else (s\<lparr>budget_reservations := budget_reservations s @
          [\<lparr>rr_reservation_id = reservationID, rr_session_id = sessionID, rr_intent_hash = intentHash,
            rr_agent_id = agentID, rr_amount = a, rr_status = status, rr_idempotency_key = idem,
            rr_execution_digest = None, rr_finalized_at = None\<rparr>]\<rparr>, Inr ()))"

definition set_status :: "string \<Rightarrow> string \<Rightarrow> db \<Rightarrow> db" where
  "set_status reservationID status s =
    s\<lparr>budget_reservations := fst (update_where (\<lambda>r. rr_reservation_id r = reservationID)
        (\<lambda>r. r\<lparr>rr_status := status\<rparr>) (budget_reservations s))\<rparr>"

definition update_reservation_status :: "string \<Rightarrow> string \<Rightarrow> unit sql" where
  "update_reservation_status reservationID status = stmt (\<lambda>s. (set_status reservationID status s, Inr ()))"

definition get_reservation_id_by_idempotency :: "string \<Rightarrow> string sql" where
  "get_reservation_id_by_idempotency idempotencyKey =
    or_error ''reservation not found'' (query_row (\<lambda>s.
      map_option rr_reservation_id
        (find (\<lambda>r. rr_idempotency_key r = idempotencyKey) (budget_reservations s))))"

definition active :: "reservation_row \<Rightarrow> bool" where
  "active r \<longleftrightarrow> rr_status r \<in> {''BUDGET_RESERVED'', ''USEROP_SUBMITTED''}"

definition bind_reservation_execution_digest :: "string \<Rightarrow> string \<Rightarrow> unit sql" where
  "bind_reservation_execution_digest reservationID executionDigest =
    sql_bind (stmt (\<lambda>s.
      let (rows, n) = update_where (\<lambda>r. rr_reservation_id r = reservationID \<and> active r)
            (\<lambda>r. r\<lparr>rr_execution_digest := Some executionDigest\<rparr>) (budget_reservations s)
      in (s\<lparr>budget_reservations := rows\<rparr>, Inr n)))
    (\<lambda>n s. if n = 0 then (s, Inl (Err ''reservation not found'')) else (s, Inr ()))"

text \<open>\<open>CommitBudgetOnChainExecution\<close>; both outcomes of its last test return \<open>nil\<close>.\<close>

definition commit_candidates :: "pg \<Rightarrow> string \<Rightarrow> string \<Rightarrow> db \<Rightarrow> string list" where
  "commit_candidates P sessionID executionDigest s =
    map rr_reservation_id (filter (\<lambda>r.
      sql_lower P (rr_session_id r) = sql_lower P sessionID \<and>
      (case rr_execution_digest r of None \<Rightarrow> False
       | Some d \<Rightarrow> sql_lower P d = sql_lower P executionDigest) \<and> active r) (budget_reservations s))"

definition commit_budget_on_chain_execution :: "pg \<Rightarrow> int \<Rightarrow> string \<Rightarrow> string \<Rightarrow> unit sql" where
  "commit_budget_on_chain_execution P now sessionID executionDigest =
    (if executionDigest = '''' then (\<lambda>s. (s, Inr ()))
     else stmt (\<lambda>s.
       case commit_candidates P sessionID executionDigest s of
         [] \<Rightarrow> (s, Inr ())
       | ids \<Rightarrow>
           (s\<lparr>budget_reservations := fst (update_where (\<lambda>r. rr_reservation_id r = pick P ids)
                (\<lambda>r. r\<lparr>rr_status := ''BUDGET_COMMITTED'', rr_finalized_at := Some now\<rparr>)
                (budget_reservations s))\<rparr>, Inr ())))"

section \<open>User operations\<close>

definition save_user_op :: "int \<Rightarrow> string \<Rightarrow> string \<Rightarrow> string \<Rightarrow> string \<Rightarrow> string \<Rightarrow> unit sql" where
  "save_user_op now userOpHash reservationID sessionID status bundler =
    stmt (\<lambda>s.
      if \<exists>r \<in> set (userop_lifecycle s). ur_hash r = userOpHash
      then (s\<lparr>userop_lifecycle := fst (update_where (\<lambda>r. ur_hash r = userOpHash)
             (\<lambda>r. r\<lparr>ur_status := status, ur_bundler := bundler, ur_submitted_at := Some now\<rparr>)
             (userop_lifecycle s))\<rparr>, Inr ())
      else (s\<lparr>userop_lifecycle := userop_lifecycle s @
             [\<lparr>ur_hash = userOpHash, ur_reservation_id = reservationID, ur_session_id = sessionID,
               ur_status = status, ur_bundler = bundler, ur_tx_hash = None, ur_block = None,
               ur_submitted_at = Some now, ur_finalized_at = None, ur_last_checked_at = None\<rparr>]\<rparr>, Inr ()))"

definition finalize_user_op :: "int \<Rightarrow> string \<Rightarrow> string \<Rightarrow> int \<Rightarrow> string \<Rightarrow> unit sql" where
  "finalize_user_op now userOpHash txHash blockNumber status =
    sql_bind (stmt (\<lambda>s.
      let (rows, n) = update_where (\<lambda>r. ur_hash r = userOpHash)
            (\<lambda>r. r\<lparr>ur_status := status, ur_tx_hash := Some txHash, ur_block := Some blockNumber,
                   ur_finalized_at := Some now\<rparr>) (userop_lifecycle s)
      in (s\<lparr>userop_lifecycle := rows\<rparr>, Inr n)))
    (\<lambda>n s. if n = 0 then (s, Inl (Err ''userop not found'')) else (s, Inr ()))"

definition get_reservation_id_by_user_op :: "string \<Rightarrow> string sql" where
  "get_reservation_id_by_user_op userOpHash =
    or_error ''userop not found'' (query_row (\<lambda>s.
      map_option ur_reservation_id (find (\<lambda>r. ur_hash r = userOpHash) (userop_lifecycle s))))"

definition mark_stale_user_ops :: "int \<Rightarrow> int \<Rightarrow> nat sql" where
  "mark_stale_user_ops now olderThan =
    stmt (\<lambda>s.
      let (rows, n) = update_where (\<lambda>r. ur_status r = ''USEROP_SUBMITTED'' \<and>
              (case ur_submitted_at r of None \<Rightarrow> False | Some t \<Rightarrow> t < olderThan))
            (\<lambda>r. r\<lparr>ur_status := ''RECONCILIATION_REQUIRED'', ur_last_checked_at := Some now\<rparr>)
            (userop_lifecycle s)
      in (s\<lparr>userop_lifecycle := rows\<rparr>, Inr n))"

section \<open>Receipts\<close>

definition save_receipt :: "string \<Rightarrow> string \<Rightarrow> string \<Rightarrow> string \<Rightarrow> json \<Rightarrow> string \<Rightarrow> string \<Rightarrow> unit sql" where
  "save_receipt decisionID intentHash sessionID receiptHash payload signature signerKeyID =
    stmt (\<lambda>s.
      if \<exists>r \<in> set (audit_receipts s). ar_decision_id r = decisionID then (s, Inl sql_error)
      else (s\<lparr>audit_receipts := audit_receipts s @
        [\<lparr>ar_decision_id = decisionID, ar_intent_hash = intentHash, ar_session_id = sessionID,
          ar_receipt_hash = receiptHash, ar_receipt_json = payload, ar_signature = signature,
          ar_signer_key_id = signerKeyID\<rparr>]\<rparr>, Inr ()))"

definition get_receipt :: "string \<Rightarrow> (string \<times> string \<times> string \<times> json) sql" where
  "get_receipt decisionID =
    sql_bind (or_error ''receipt not found''
        (query_row (\<lambda>s. find (\<lambda>r. ar_decision_id r = decisionID) (audit_receipts s)))) (\<lambda>r.
    sql_bind (or_error ''decision lookup failed'' (query_row (decision_of decisionID))) (\<lambda>d s.
      (s, Inr (dr_decision d, ar_receipt_hash r, ar_signature r, ar_receipt_json r))))"

section \<open>Chain executions and the watcher's cursor\<close>

definition record_chain_execution :: "pg \<Rightarrow> int \<Rightarrow> chain_execution \<Rightarrow> unit sql" where
  "record_chain_execution P now e =
    sql_bind (stmt (\<lambda>s.
      case (numeric_in P (ce_frame_spend e), numeric_in P (ce_total_spend_after e)) of
        (Some f, Some t) \<Rightarrow>
          if \<exists>r \<in> set (chain_executions s). ce_tx_hash (cr_execution r) = ce_tx_hash e \<and>
               ce_log_index (cr_execution r) = ce_log_index e
          then (s, Inr ())
          else if ce_execution_digest e \<noteq> '''' \<and>
               (\<exists>r \<in> set (chain_executions s). cr_digest r = Some (ce_execution_digest e))
          then (s, Inl sql_error)
          else (s\<lparr>chain_executions := chain_executions s @
            [\<lparr>cr_execution = e\<lparr>ce_frame_spend := f, ce_total_spend_after := t\<rparr>,
              cr_digest = (if ce_execution_digest e = '''' then None else Some (ce_execution_digest e)),
              cr_created_at = db_now s\<rparr>]\<rparr>, Inr ())
      | _ \<Rightarrow> (s, Inl sql_error)))
    (\<lambda>_. if ce_execution_digest e = '''' then (\<lambda>s. (s, Inr ()))
         else commit_budget_on_chain_execution P now (ce_session_id e) (ce_execution_digest e))"

text \<open>The digest is not selected: the caller gets it empty.\<close>

definition get_chain_execution_by_session_id :: "pg \<Rightarrow> string \<Rightarrow> chain_execution sql" where
  "get_chain_execution_by_session_id P sessionID =
    query_row (\<lambda>s. map_option (\<lambda>r. (cr_execution r)\<lparr>ce_execution_digest := ''''\<rparr>)
      (latest cr_created_at (filter (\<lambda>r. sql_lower P (ce_session_id (cr_execution r)) = sql_lower P sessionID)
        (chain_executions s))))"

text \<open>
  The cursor is written with \<open>%d\<close> and read with \<open>Sscan\<close>; of the texts \<open>Sscan\<close> reads only
  the decimal ones, which are all the code writes, are modelled as numbers.
\<close>

definition scan_u64 :: "string \<Rightarrow> u64 res" where
  "scan_u64 v =
    (case parse_nat v of
       None \<Rightarrow> Inl (Err ''expected integer'')
     | Some n \<Rightarrow> if n < 2 ^ 64 then Inr (of_nat n) else Inl (Err ''unsigned integer overflow''))"

definition get_watcher_block_cursor :: "u64 sql" where
  "get_watcher_block_cursor =
    sql_bind (query_row (\<lambda>s. watcher_state s ''last_block'')) (\<lambda>v s. (s, scan_u64 v))"

definition set_watcher_block_cursor :: "u64 \<Rightarrow> string \<Rightarrow> unit sql" where
  "set_watcher_block_cursor block blockHash =
    sql_bind (stmt (\<lambda>s. (s\<lparr>watcher_state := (watcher_state s)(''last_block'' \<mapsto> show_nat (unat block))\<rparr>, Inr ())))
    (\<lambda>_. if blockHash = '''' then (\<lambda>s. (s, Inr ()))
         else stmt (\<lambda>s. (s\<lparr>watcher_state := (watcher_state s)(''last_block_hash'' \<mapsto> blockHash)\<rparr>, Inr ())))"

section \<open>Connecting\<close>

text \<open>
  \<open>New\<close>: a pool for the URL, used only if the database answers a ping. The pool and its
  ping are parameters.
\<close>

definition store_new :: "(string \<Rightarrow> 'p res) \<Rightarrow> ('p \<Rightarrow> unit res) \<Rightarrow> string \<Rightarrow> 'p res" where
  "store_new open_pool ping_pool url =
    (case open_pool url of
       Inl err \<Rightarrow> Inl err
     | Inr pool \<Rightarrow> (case ping_pool pool of Inl err \<Rightarrow> Inl err | Inr _ \<Rightarrow> Inr pool))"

text \<open>\<open>Close\<close> gives its pool back: the pools closed so far are what there is to see of it.\<close>

definition store_close :: "'p \<Rightarrow> 'p list" where
  "store_close pool = [pool]"

text \<open>
  \<open>EnsureExecutionDigestSchema\<close> adds the two digest columns where they are missing, which no
  migrated database is: the tables here have them, and no row changes.
\<close>

definition ensure_execution_digest_schema :: "unit sql" where
  "ensure_execution_digest_schema = stmt (\<lambda>s. (s, Inr ()))"

section \<open>The repository interface\<close>

text \<open>\<open>store.Repository\<close>: what handlers and watcher call, over whatever state backs it.\<close>

record 's repo =
  rp_save_intent :: "string \<Rightarrow> string \<Rightarrow> string \<Rightarrow> int \<Rightarrow> string \<Rightarrow> string \<Rightarrow> string \<Rightarrow>
    string \<Rightarrow> string \<Rightarrow> bool \<Rightarrow> string \<Rightarrow> string \<Rightarrow> string \<Rightarrow> 's \<Rightarrow> 's \<times> unit res"
  rp_save_decision :: "string \<Rightarrow> string \<Rightarrow> string \<Rightarrow> string list option \<Rightarrow> string \<Rightarrow> 's \<Rightarrow> 's \<times> unit res"
  rp_save_session_draft :: "string \<Rightarrow> string \<Rightarrow> session_config \<Rightarrow> string \<Rightarrow> 's \<Rightarrow> 's \<times> unit res"
  rp_save_reservation :: "string \<Rightarrow> string \<Rightarrow> string \<Rightarrow> string \<Rightarrow> string \<Rightarrow> string \<Rightarrow> string \<Rightarrow> 's \<Rightarrow> 's \<times> unit res"
  rp_update_reservation_status :: "string \<Rightarrow> string \<Rightarrow> 's \<Rightarrow> 's \<times> unit res"
  rp_save_user_op :: "int \<Rightarrow> string \<Rightarrow> string \<Rightarrow> string \<Rightarrow> string \<Rightarrow> string \<Rightarrow> 's \<Rightarrow> 's \<times> unit res"
  rp_finalize_user_op :: "int \<Rightarrow> string \<Rightarrow> string \<Rightarrow> int \<Rightarrow> string \<Rightarrow> 's \<Rightarrow> 's \<times> unit res"
  rp_save_receipt :: "string \<Rightarrow> string \<Rightarrow> string \<Rightarrow> string \<Rightarrow> json \<Rightarrow> string \<Rightarrow> string \<Rightarrow> 's \<Rightarrow> 's \<times> unit res"
  rp_get_receipt :: "string \<Rightarrow> 's \<Rightarrow> 's \<times> (string \<times> string \<times> string \<times> json) res"
  rp_get_allow_decision :: "string \<Rightarrow> 's \<Rightarrow> 's \<times> (string \<times> string \<times> intent_snapshot) res"
  rp_authorize_session :: "string \<Rightarrow> string \<Rightarrow> string \<Rightarrow> session_config \<Rightarrow> 's \<Rightarrow> 's \<times> unit res"
  rp_get_reservation_id_by_user_op :: "string \<Rightarrow> 's \<Rightarrow> 's \<times> string res"
  rp_get_reservation_id_by_idempotency :: "string \<Rightarrow> 's \<Rightarrow> 's \<times> string res"
  rp_bind_reservation_execution_digest :: "string \<Rightarrow> string \<Rightarrow> 's \<Rightarrow> 's \<times> unit res"
  rp_get_watcher_block_cursor :: "'s \<Rightarrow> 's \<times> u64 res"
  rp_set_watcher_block_cursor :: "u64 \<Rightarrow> string \<Rightarrow> 's \<Rightarrow> 's \<times> unit res"
  rp_record_chain_execution :: "int \<Rightarrow> chain_execution \<Rightarrow> 's \<Rightarrow> 's \<times> unit res"
  rp_get_chain_execution_by_session_id :: "string \<Rightarrow> 's \<Rightarrow> 's \<times> chain_execution res"
  rp_get_session_reserve_snapshot :: "string \<Rightarrow> 's \<Rightarrow> 's \<times> session_reserve_snapshot res"
  rp_mark_stale_user_ops :: "int \<Rightarrow> int \<Rightarrow> 's \<Rightarrow> 's \<times> nat res"
  rp_commit_budget_on_chain_execution :: "int \<Rightarrow> string \<Rightarrow> string \<Rightarrow> 's \<Rightarrow> 's \<times> unit res"

definition pg_repo :: "pg \<Rightarrow> db repo" where
  "pg_repo P =
    \<lparr>rp_save_intent = save_intent P, rp_save_decision = save_decision,
     rp_save_session_draft = save_session_draft P, rp_save_reservation = save_reservation P,
     rp_update_reservation_status = update_reservation_status, rp_save_user_op = save_user_op,
     rp_finalize_user_op = finalize_user_op, rp_save_receipt = save_receipt,
     rp_get_receipt = get_receipt, rp_get_allow_decision = get_allow_decision,
     rp_authorize_session = authorize_session P,
     rp_get_reservation_id_by_user_op = get_reservation_id_by_user_op,
     rp_get_reservation_id_by_idempotency = get_reservation_id_by_idempotency,
     rp_bind_reservation_execution_digest = bind_reservation_execution_digest,
     rp_get_watcher_block_cursor = get_watcher_block_cursor,
     rp_set_watcher_block_cursor = set_watcher_block_cursor,
     rp_record_chain_execution = record_chain_execution P,
     rp_get_chain_execution_by_session_id = get_chain_execution_by_session_id P,
     rp_get_session_reserve_snapshot = get_session_reserve_snapshot P,
     rp_mark_stale_user_ops = mark_stale_user_ops,
     rp_commit_budget_on_chain_execution = commit_budget_on_chain_execution P\<rparr>"

text \<open>\<open>Noop\<close>: writes are accepted and forgotten, one session is always there.\<close>

definition noop_repo :: "'s repo" where
  "noop_repo =
    (let ok = (\<lambda>s. (s, Inr ())) in
    \<lparr>rp_save_intent = (\<lambda>_ _ _ _ _ _ _ _ _ _ _ _ _. ok), rp_save_decision = (\<lambda>_ _ _ _ _. ok),
     rp_save_session_draft = (\<lambda>_ _ _ _. ok), rp_save_reservation = (\<lambda>_ _ _ _ _ _ _. ok),
     rp_update_reservation_status = (\<lambda>_ _. ok), rp_save_user_op = (\<lambda>_ _ _ _ _ _. ok),
     rp_finalize_user_op = (\<lambda>_ _ _ _ _ s. (s, Inl (Err ''userop not found''))),
     rp_save_receipt = (\<lambda>_ _ _ _ _ _ _. ok),
     rp_get_receipt = (\<lambda>_ s. (s, Inl (Err ''receipt not found''))),
     rp_get_allow_decision = (\<lambda>_ s. (s, Inl (Err ''decision not found''))),
     rp_authorize_session = (\<lambda>_ _ _ _ s. (s, Inl (Err ''decision not found''))),
     rp_get_reservation_id_by_user_op = (\<lambda>_ s. (s, Inl (Err ''userop not found''))),
     rp_get_reservation_id_by_idempotency = (\<lambda>_ s. (s, Inl (Err ''reservation not found''))),
     rp_bind_reservation_execution_digest = (\<lambda>_ _. ok),
     rp_get_watcher_block_cursor = (\<lambda>s. (s, Inl (Err ''noop''))),
     rp_set_watcher_block_cursor = (\<lambda>_ _. ok),
     rp_record_chain_execution = (\<lambda>_ _. ok),
     rp_get_chain_execution_by_session_id = (\<lambda>_ s. (s, Inl (Err ''noop''))),
     rp_get_session_reserve_snapshot = (\<lambda>_ s. (s, Inr
       \<lparr>rs_agent_id = ''agent_support_bot_1'', rs_intent_hash = '''',
        rs_max_per_transfer = ''100000000'', rs_max_total_spend = ''500000000'',
        rs_valid_after = 1, rs_valid_until = 9999999999, rs_status = ''SESSION_AUTHORIZED''\<rparr>)),
     rp_mark_stale_user_ops = (\<lambda>_ _ s. (s, Inr 0)),
     rp_commit_budget_on_chain_execution = (\<lambda>_ _ _. ok)\<rparr>)"

end
