(* ===== verification/Store_Invariants.thy ===== *)
theory Store_Invariants
  imports Store
begin

text \<open>
  What every statement keeps. \<open>db_ok\<close> is the integrity of the tables (the unique columns, the
  decisions allowed, who consumed what) and \<open>grows\<close> their history: intents, receipts and
  chain executions are never changed or removed, a decision is consumed once and for all.
  Both are closed under the combinators statements are built from, so each operation is
  checked on the step it adds.
\<close>

section \<open>Integrity\<close>

definition decision_ok :: "decision_row \<Rightarrow> bool" where
  "decision_ok r \<longleftrightarrow> dr_decision r \<in> {''ALLOW'', ''BLOCK''} \<and>
     (dr_consumed_at r = None \<longleftrightarrow> dr_consumed_session r = None)"

definition decisions_ok :: "decision_row list \<Rightarrow> bool" where
  "decisions_ok rows \<longleftrightarrow> distinct (map dr_decision_id rows) \<and> list_all decision_ok rows \<and>
     (\<forall>r \<in> set rows. \<forall>r' \<in> set rows. dr_consumed_session r \<noteq> None \<longrightarrow>
        dr_consumed_session r = dr_consumed_session r' \<longrightarrow> dr_decision_id r = dr_decision_id r')"

lemma decisions_okD:
  assumes "decisions_ok rows"
  shows "distinct (map dr_decision_id rows)" "list_all decision_ok rows"
  using assms unfolding decisions_ok_def by blast+

lemma decisions_ok_snoc:
  assumes "decisions_ok rows" "decision_ok r" "dr_consumed_session r = None"
    and "dr_decision_id r \<notin> dr_decision_id ` set rows"
  shows "decisions_ok (rows @ [r])"
  unfolding decisions_ok_def
proof (intro conjI ballI impI)
  show "distinct (map dr_decision_id (rows @ [r]))" "list_all decision_ok (rows @ [r])"
    using assms by (auto simp: decisions_ok_def)
  fix x y assume "x \<in> set (rows @ [r])" "y \<in> set (rows @ [r])" "dr_consumed_session x \<noteq> None"
    "dr_consumed_session x = dr_consumed_session y"
  moreover from this have "x \<in> set rows" "y \<in> set rows" using assms(3) by auto
  ultimately show "dr_decision_id x = dr_decision_id y" using assms(1) unfolding decisions_ok_def by blast
qed

definition db_ok :: "db \<Rightarrow> bool" where
  "db_ok s \<longleftrightarrow>
     distinct (map sr_session_id (sessions s)) \<and>
     distinct (map (\<lambda>r. (sr_account r, sr_nonce_key r)) (sessions s)) \<and>
     distinct (map ir_intent_hash (payment_intents s)) \<and>
     distinct (map ir_idempotency_key (payment_intents s)) \<and>
     decisions_ok (policy_decisions s) \<and>
     distinct (map rr_reservation_id (budget_reservations s)) \<and>
     distinct (map rr_idempotency_key (budget_reservations s)) \<and>
     distinct (map ur_hash (userop_lifecycle s)) \<and>
     distinct (map ar_decision_id (audit_receipts s)) \<and>
     distinct (map (\<lambda>r. (ce_tx_hash (cr_execution r), ce_log_index (cr_execution r))) (chain_executions s))"

text \<open>History: the decision rows keep everything but an open consumption.\<close>

definition decision_core :: "decision_row \<Rightarrow> string \<times> string \<times> string \<times> string list option \<times> string \<times> int" where
  "decision_core r =
     (dr_decision_id r, dr_intent_hash r, dr_decision r, dr_reason_codes r, dr_policy_hash r, dr_created_at r)"

definition decision_le :: "decision_row \<Rightarrow> decision_row \<Rightarrow> bool" where
  "decision_le r r' \<longleftrightarrow>
     decision_core r' = decision_core r \<and> (dr_consumed_at r \<noteq> None \<longrightarrow> r' = r)"

definition decisions_le :: "decision_row list \<Rightarrow> decision_row list \<Rightarrow> bool" where
  "decisions_le xs ys \<longleftrightarrow> length xs \<le> length ys \<and> (\<forall>i < length xs. decision_le (xs ! i) (ys ! i))"

definition prefix_of :: "'r list \<Rightarrow> 'r list \<Rightarrow> bool" where
  "prefix_of xs ys \<longleftrightarrow> (\<exists>zs. ys = xs @ zs)"

definition grows :: "db \<Rightarrow> db \<Rightarrow> bool" where
  "grows s t \<longleftrightarrow> prefix_of (payment_intents s) (payment_intents t) \<and>
     prefix_of (audit_receipts s) (audit_receipts t) \<and>
     prefix_of (chain_executions s) (chain_executions t) \<and>
     decisions_le (policy_decisions s) (policy_decisions t)"

lemma decision_le_refl [simp]: "decision_le r r"
  by (simp add: decision_le_def)

lemma decision_le_trans: "decision_le a b \<Longrightarrow> decision_le b c \<Longrightarrow> decision_le a c"
  unfolding decision_le_def by metis

lemma decisions_le_refl [simp]: "decisions_le xs xs"
  by (simp add: decisions_le_def)

lemma decisions_le_snoc [simp]: "decisions_le xs (xs @ ys)"
  by (simp add: decisions_le_def nth_append)

lemma decisions_le_trans: "decisions_le a b \<Longrightarrow> decisions_le b c \<Longrightarrow> decisions_le a c"
  unfolding decisions_le_def using decision_le_trans by (meson less_le_trans order_trans)

lemma prefix_of_simps [simp]: "prefix_of xs xs" "prefix_of xs (xs @ ys)"
  by (auto simp: prefix_of_def)

lemma prefix_of_trans: "prefix_of a b \<Longrightarrow> prefix_of b c \<Longrightarrow> prefix_of a c"
  by (auto simp: prefix_of_def)

lemma grows_refl [simp]: "grows s s"
  by (simp add: grows_def)

lemma grows_trans: "grows s t \<Longrightarrow> grows t u \<Longrightarrow> grows s u"
  unfolding grows_def by (intro conjI; elim conjE; rule prefix_of_trans decisions_le_trans; assumption)

lemma faults_irrelevant [simp]:
  "db_ok (s\<lparr>db_faults := f\<rparr>) = db_ok s"
  "grows (s\<lparr>db_faults := f\<rparr>) t = grows s t" "grows s (t\<lparr>db_faults := f\<rparr>) = grows s t"
  by (simp_all add: db_ok_def grows_def)

section \<open>Closure under the combinators\<close>

text \<open>
  A relation between databases that a sequence of statements keeps if each does: a preorder
  that does not look at what the network will do. What is proved here of the combinators
  serves every such relation.
\<close>

locale sql_relation =
  fixes rel :: "db \<Rightarrow> db \<Rightarrow> bool"
  assumes rel_refl: "rel s s"
    and rel_trans: "rel s t \<Longrightarrow> rel t u \<Longrightarrow> rel s u"
    and rel_faults: "rel (s\<lparr>db_faults := f\<rparr>) t = rel s t" "rel s (t\<lparr>db_faults := f\<rparr>) = rel s t"
begin

definition keeps :: "'a sql \<Rightarrow> bool" where
  "keeps m \<longleftrightarrow> (\<forall>s. rel s (fst (m s)))"

lemma keepsI: "(\<And>s. rel s (fst (m s))) \<Longrightarrow> keeps m"
  by (simp add: keeps_def)

lemma keepsD: "keeps m \<Longrightarrow> rel s (fst (m s))"
  by (simp add: keeps_def)

lemma keeps_pure: "keeps (\<lambda>s. (s, r s))"
  by (simp add: keeps_def rel_refl)

lemma keeps_stmt:
  assumes "keeps f"
  shows "keeps (stmt f)"
proof (rule keepsI)
  fix s
  show "rel s (fst (stmt f s))"
    using keepsD [OF assms, of "s\<lparr>db_faults := tl (db_faults s)\<rparr>"]
    by (simp add: stmt_def Let_def rel_faults rel_refl split: fault.split)
qed

lemma keeps_query_row: "keeps (query_row f)"
  unfolding query_row_def by (rule keeps_stmt) (rule keeps_pure)

lemma keeps_or_error: "keeps m \<Longrightarrow> keeps (or_error msg m)"
  by (auto simp: keeps_def or_error_def split: prod.splits sum.splits) (metis fst_conv)+

lemma keeps_bind:
  assumes "keeps m" and "\<And>x. keeps (f x)"
  shows "keeps (sql_bind m f)"
proof (rule keepsI)
  fix s
  obtain s' r where m: "m s = (s', r)" by fastforce
  have "rel s s'" using keepsD [OF assms(1), of s] m by simp
  then show "rel s (fst (sql_bind m f s))"
    using rel_trans keepsD [OF assms(2)] m by (cases r) (auto simp: sql_bind_def)
qed

lemma keeps_tx:
  assumes "keeps body"
  shows "keeps (in_tx body)"
proof (rule keepsI)
  fix s
  obtain s0 r0 where b: "stmt (\<lambda>d. (d, Inr ())) s = (s0, r0)" by fastforce
  have 0: "rel s s0" using keepsD [OF keeps_stmt [OF keeps_pure], of s "\<lambda>_. Inr ()"] b by simp
  obtain s1 r1 where m: "body s0 = (s1, r1)" by fastforce
  have 1: "rel s s1" using rel_trans [OF 0] keepsD [OF assms, of s0] m by simp
  show "rel s (fst (in_tx body s))"
    using 0 1 b m
    by (cases r0; cases r1) (auto simp: in_tx_def Let_def rel_faults split: fault.split)
qed

lemma keeps_if: "keeps m \<Longrightarrow> keeps n \<Longrightarrow> keeps (if b then m else n)"
  by simp

lemmas keeps_intros = keeps_pure keeps_stmt keeps_query_row keeps_or_error keeps_bind keeps_tx keeps_if

end

text \<open>Integrity and history are such a relation.\<close>

definition safe_step :: "db \<Rightarrow> db \<Rightarrow> bool" where
  "safe_step s t \<longleftrightarrow> (db_ok s \<longrightarrow> db_ok t \<and> grows s t)"

interpretation integrity: sql_relation safe_step
  by unfold_locales (auto simp: safe_step_def intro: grows_trans)

abbreviation safe :: "'a sql \<Rightarrow> bool" where
  "safe \<equiv> integrity.keeps"

lemma safeD: "safe m \<Longrightarrow> db_ok s \<Longrightarrow> db_ok (fst (m s)) \<and> grows s (fst (m s))"
  using integrity.keepsD by (auto simp: safe_step_def)

lemma safeI: "(\<And>s. db_ok s \<Longrightarrow> db_ok (fst (m s)) \<and> grows s (fst (m s))) \<Longrightarrow> safe m"
  by (rule integrity.keepsI) (simp add: safe_step_def)

lemmas safe_stmt = integrity.keeps_stmt
lemmas safe_pure = integrity.keeps_pure
lemmas safe_query_row = integrity.keeps_query_row
lemmas safe_or_error = integrity.keeps_or_error
lemmas safe_bind = integrity.keeps_bind
lemmas safe_tx = integrity.keeps_tx
lemmas safe_if = integrity.keeps_if

section \<open>Every operation is safe\<close>

lemma map_update_where:
  "(\<And>r. k (f r) = k r) \<Longrightarrow> map k (fst (update_where p f xs)) = map k xs"
  by (simp add: update_where_def)

lemma update_where_simps [simp]:
  "fst (update_where p f xs) = map (\<lambda>r. if p r then f r else r) xs"
  "snd (update_where p f xs) = length (filter p xs)"
  by (simp_all add: update_where_def)

lemma map_key_update:
  "(\<And>r. k (f r) = k r) \<Longrightarrow> map k (map (\<lambda>r. if p r then f r else r) xs) = map k xs"
  by simp

text \<open>Statements that touch only columns without constraints, or only tables without history.\<close>

lemma safe_save_intent: "safe (save_intent P h ag ac ch tok rec am mp mt ab dm path idem)"
  unfolding save_intent_def
  by (intro safe_stmt safeI) (auto simp: db_ok_def grows_def split: option.split)

lemma safe_save_decision: "safe (save_decision d h dec rc ph)"
  unfolding save_decision_def
  by (intro safe_stmt safeI) (auto simp: db_ok_def grows_def decision_ok_def intro!: decisions_ok_snoc)

lemma safe_get_allow_decision: "safe (get_allow_decision d)"
  unfolding get_allow_decision_def by (auto intro!: safe_bind safe_or_error safe_query_row safe_pure)

lemma safe_insert_session:
  assumes "\<And>r. sr_session_id (f r) = sr_session_id r" "\<And>r. sr_account (f r) = sr_account r"
    "\<And>r. sr_nonce_key (f r) = sr_nonce_key r"
  shows "safe (insert_session P f sid ag cfg st)"
  unfolding insert_session_def
  by (intro safeI)
     (auto simp: db_ok_def grows_def session_row_of_def map_key_update assms simp del: map_map
       split: option.split)

lemma safe_save_session_draft: "safe (save_session_draft P sid ag cfg st)"
  unfolding save_session_draft_def by (intro safe_stmt safe_insert_session) simp_all

lemma safe_save_reservation: "safe (save_reservation P r sid h ag am st idem)"
  unfolding save_reservation_def
  by (intro safe_stmt safeI) (auto simp: db_ok_def grows_def split: option.split)

lemma safe_update_reservation_status: "safe (update_reservation_status r st)"
  unfolding update_reservation_status_def set_status_def
  by (intro safe_stmt safeI) (auto simp: db_ok_def grows_def map_key_update simp del: map_map)

lemma safe_save_user_op: "safe (save_user_op now h r sid st b)"
  unfolding save_user_op_def
  by (intro safe_stmt safeI) (auto simp: db_ok_def grows_def map_key_update simp del: map_map)

lemma safe_finalize_user_op: "safe (finalize_user_op now h tx bn st)"
  unfolding finalize_user_op_def
  by (intro safe_bind safe_stmt safe_if safeI)
     (auto simp: db_ok_def grows_def update_where_def map_key_update simp del: map_map)

lemma safe_save_receipt: "safe (save_receipt d h sid rh pl sg k)"
  unfolding save_receipt_def by (intro safe_stmt safeI) (auto simp: db_ok_def grows_def)

lemma safe_get_receipt: "safe (get_receipt d)"
  unfolding get_receipt_def by (auto intro!: safe_bind safe_or_error safe_query_row safe_pure)

lemma safe_queries:
  "safe (get_reservation_id_by_user_op h)" "safe (get_reservation_id_by_idempotency k)"
  "safe (get_chain_execution_by_session_id P sid)" "safe (get_session_reserve_snapshot P sid)"
  unfolding get_reservation_id_by_user_op_def get_reservation_id_by_idempotency_def
    get_chain_execution_by_session_id_def get_session_reserve_snapshot_def
  by (intro safe_or_error safe_query_row)+

lemma safe_bind_digest: "safe (bind_reservation_execution_digest r d)"
  unfolding bind_reservation_execution_digest_def
  by (intro safe_bind safe_stmt safe_if safeI)
     (auto simp: db_ok_def grows_def update_where_def map_key_update simp del: map_map)

lemma safe_mark_stale: "safe (mark_stale_user_ops now t)"
  unfolding mark_stale_user_ops_def
  by (intro safe_stmt safeI)
     (auto simp: db_ok_def grows_def update_where_def map_key_update simp del: map_map)

lemma safe_ensure_schema: "safe ensure_execution_digest_schema"
  unfolding ensure_execution_digest_schema_def by (intro safe_stmt safe_pure)

lemma safe_get_cursor: "safe get_watcher_block_cursor"
  unfolding get_watcher_block_cursor_def by (intro safe_bind safe_query_row safe_pure)

lemma safe_set_cursor: "safe (set_watcher_block_cursor b h)"
  unfolding set_watcher_block_cursor_def
  by (intro safe_bind safe_stmt safe_if safe_pure safeI) (auto simp: db_ok_def grows_def)

lemma safe_commit_budget: "safe (commit_budget_on_chain_execution P now sid d)"
  unfolding commit_budget_on_chain_execution_def
  by (intro safe_stmt safe_if safe_pure safeI)
     (auto simp: db_ok_def grows_def map_key_update simp del: map_map split: list.split)

lemma safe_record_chain: "safe (record_chain_execution P now e)"
  unfolding record_chain_execution_def
  by (intro safe_bind safe_stmt safe_if safe_pure safe_commit_budget safeI)
     (auto simp: db_ok_def grows_def split: option.split)

text \<open>Consuming a decision: one row, once, and no session twice.\<close>

lemma decisions_ok_consume:
  fixes d sid :: string and t :: int
  assumes "decisions_ok rows"
    and "\<forall>r \<in> set rows. dr_decision_id r \<noteq> d \<longrightarrow> dr_consumed_session r \<noteq> Some sid"
  defines "f \<equiv> \<lambda>r. if dr_decision_id r = d \<and> dr_consumed_at r = None
      then r\<lparr>dr_consumed_at := Some t, dr_consumed_session := Some sid\<rparr> else r"
  shows "decisions_ok (map f rows)"
  unfolding decisions_ok_def
proof (intro conjI ballI impI)
  have id: "dr_decision_id (f r) = dr_decision_id r" for r by (simp add: f_def)
  have cs: "dr_consumed_session (f r) = Some sid \<and> dr_decision_id r = d \<or> f r = r" for r
    by (simp add: f_def)
  show "distinct (map dr_decision_id (map f rows))"
    using decisions_okD(1) [OF assms(1)] by (simp add: comp_def id)
  have "decision_ok r \<Longrightarrow> decision_ok (f r)" for r by (simp add: decision_ok_def f_def)
  then show "list_all decision_ok (map f rows)"
    using decisions_okD(2) [OF assms(1)] by (simp add: list_all_iff)
  fix x y assume "x \<in> set (map f rows)" "y \<in> set (map f rows)" "dr_consumed_session x \<noteq> None"
    "dr_consumed_session x = dr_consumed_session y"
  then obtain r q where r: "r \<in> set rows" "x = f r" "q \<in> set rows" "y = f q"
      "dr_consumed_session (f r) \<noteq> None" "dr_consumed_session (f r) = dr_consumed_session (f q)"
    by auto
  have old: "dr_consumed_session r \<noteq> None \<Longrightarrow> dr_consumed_session r = dr_consumed_session q \<Longrightarrow>
      dr_decision_id r = dr_decision_id q"
    using assms(1) r(1,3) unfolding decisions_ok_def by blast
  have "dr_decision_id r = dr_decision_id q"
    using cs [of r] cs [of q] old assms(2) r(1,3,5,6) by metis
  then show "dr_decision_id x = dr_decision_id y" by (simp only: r(2,4) id)
qed

lemma decisions_le_consume:
  "decisions_le rows (map (\<lambda>r. if dr_decision_id r = d \<and> dr_consumed_at r = None
     then r\<lparr>dr_consumed_at := Some t, dr_consumed_session := Some sid\<rparr> else r) rows)"
  by (simp add: decisions_le_def decision_le_def decision_core_def)

lemma filter_none: "filter p xs = [] \<Longrightarrow> map (\<lambda>r. if p r then f r else r) xs = xs"
  by (induction xs) (auto split: if_splits)

lemma safe_consume_decision: "safe (consume_decision d sid)"
proof (rule safeI)
  fix s assume s: "db_ok s"
  let ?p = "\<lambda>r. dr_decision_id r = d \<and> dr_consumed_at r = None"
  let ?rows = "map (\<lambda>r. if dr_decision_id r = d \<and> dr_consumed_at r = None
     then r\<lparr>dr_consumed_at := Some (db_now s), dr_consumed_session := Some sid\<rparr> else r) (policy_decisions s)"
  consider (none) "filter ?p (policy_decisions s) = []"
    | (clash) "filter ?p (policy_decisions s) \<noteq> []"
        "\<exists>r \<in> set (policy_decisions s). dr_decision_id r \<noteq> d \<and> dr_consumed_session r = Some sid"
    | (free) "filter ?p (policy_decisions s) \<noteq> []"
        "\<forall>r \<in> set (policy_decisions s). dr_decision_id r \<noteq> d \<longrightarrow> dr_consumed_session r \<noteq> Some sid"
    by blast
  then show "db_ok (fst (consume_decision d sid s)) \<and> grows s (fst (consume_decision d sid s))"
  proof cases
    case none
    then show ?thesis using s filter_none [OF none]
      by (simp add: consume_decision_def update_where_def Let_def)
  next
    case clash
    then show ?thesis using s by (simp add: consume_decision_def update_where_def Let_def)
  next
    case free
    have "fst (consume_decision d sid s) = s\<lparr>policy_decisions := ?rows\<rparr>"
      using free by (auto simp: consume_decision_def update_where_def Let_def)
    moreover have "decisions_ok ?rows"
      by (rule decisions_ok_consume) (use s free in \<open>simp_all add: db_ok_def\<close>)
    ultimately show ?thesis
      using s decisions_le_consume [where rows = "policy_decisions s"] by (simp add: db_ok_def grows_def)
  qed
qed

lemma safe_authorize_session: "safe (authorize_session P d sid ag cfg)"
  unfolding authorize_session_def
  by (intro safe_tx safe_bind safe_or_error safe_query_row safe_if safe_pure safe_stmt
      safe_consume_decision safe_insert_session) simp_all

end
