(* ===== verification/Repository.thy ===== *)
theory Repository
  imports Store_Invariants
begin

text \<open>
  The contract of \<open>store.Repository\<close>, what both implementations promise the handlers and
  the watcher: whichever operations run, in whichever order and with whichever failures, a
  decision is consumed by at most one session, only an ALLOW decision is handed out, and a
  recorded authorization is never forgotten. \<open>Store\<close> and \<open>Noop\<close> are both interpreted.
\<close>

section \<open>Steps of a repository\<close>

inductive repo_step :: "'s repo \<Rightarrow> 's \<Rightarrow> 's \<Rightarrow> bool" for RP s where
  st_save_intent: "repo_step RP s (fst (rp_save_intent RP h ag ac ch tok rec am mp mt ab dm pa idem s))"
| st_save_decision: "repo_step RP s (fst (rp_save_decision RP d h dec rc ph s))"
| st_save_session_draft: "repo_step RP s (fst (rp_save_session_draft RP sid ag cfg st s))"
| st_save_reservation: "repo_step RP s (fst (rp_save_reservation RP r sid h ag am st idem s))"
| st_update_status: "repo_step RP s (fst (rp_update_reservation_status RP r st s))"
| st_save_user_op: "repo_step RP s (fst (rp_save_user_op RP now u r sid st b s))"
| st_finalize: "repo_step RP s (fst (rp_finalize_user_op RP now u tx bn st s))"
| st_save_receipt: "repo_step RP s (fst (rp_save_receipt RP d h sid rh pl sg k s))"
| st_get_receipt: "repo_step RP s (fst (rp_get_receipt RP d s))"
| st_get_allow: "repo_step RP s (fst (rp_get_allow_decision RP d s))"
| st_authorize: "repo_step RP s (fst (rp_authorize_session RP d sid ag cfg s))"
| st_get_by_op: "repo_step RP s (fst (rp_get_reservation_id_by_user_op RP u s))"
| st_get_by_key: "repo_step RP s (fst (rp_get_reservation_id_by_idempotency RP k s))"
| st_bind: "repo_step RP s (fst (rp_bind_reservation_execution_digest RP r dg s))"
| st_get_cursor: "repo_step RP s (fst (rp_get_watcher_block_cursor RP s))"
| st_set_cursor: "repo_step RP s (fst (rp_set_watcher_block_cursor RP b bh s))"
| st_record: "repo_step RP s (fst (rp_record_chain_execution RP now e s))"
| st_get_chain: "repo_step RP s (fst (rp_get_chain_execution_by_session_id RP sid s))"
| st_get_snapshot: "repo_step RP s (fst (rp_get_session_reserve_snapshot RP sid s))"
| st_mark_stale: "repo_step RP s (fst (rp_mark_stale_user_ops RP now t s))"
| st_commit: "repo_step RP s (fst (rp_commit_budget_on_chain_execution RP now sid dg s))"

inductive repo_run :: "'s repo \<Rightarrow> 's \<Rightarrow> 's \<Rightarrow> bool" for RP s where
  rr_refl: "repo_run RP s s"
| rr_step: "repo_run RP s t \<Longrightarrow> repo_step RP t u \<Longrightarrow> repo_run RP s u"

lemma repo_run_trans: "repo_run RP t u \<Longrightarrow> repo_run RP s t \<Longrightarrow> repo_run RP s u"
  by (induction rule: repo_run.induct) (auto intro: rr_step)

section \<open>The contract\<close>

text \<open>
  \<open>consumer s d\<close> is the session that consumed decision \<open>d\<close>, \<open>allowed s d\<close> the policy hash and
  the intent snapshot of an ALLOW decision.
\<close>

locale repository =
  fixes RP :: "'s repo" and ok :: "'s \<Rightarrow> bool"
    and consumer :: "'s \<Rightarrow> string \<Rightarrow> string option"
    and allowed :: "'s \<Rightarrow> string \<Rightarrow> (string \<times> string \<times> intent_snapshot) option"
  assumes step_ok: "ok s \<Longrightarrow> repo_step RP s t \<Longrightarrow> ok t"
    and step_consumer: "ok s \<Longrightarrow> repo_step RP s t \<Longrightarrow> consumer s d = Some sid \<Longrightarrow> consumer t d = Some sid"
    and step_allowed: "ok s \<Longrightarrow> repo_step RP s t \<Longrightarrow> allowed s d = Some q \<Longrightarrow> allowed t d = Some q"
    and authorize_law: "ok s \<Longrightarrow> rp_authorize_session RP d sid ag cfg s = (t, Inr ()) \<Longrightarrow>
      consumer t d = Some sid"
    and get_allow_law: "ok s \<Longrightarrow> rp_get_allow_decision RP d s = (t, Inr q) \<Longrightarrow> allowed t d = Some q"
    and one_decision_law: "ok s \<Longrightarrow> consumer s d = Some sid \<Longrightarrow> consumer s d' = Some sid \<Longrightarrow> d = d'"
begin

lemma run_ok: "repo_run RP s t \<Longrightarrow> ok s \<Longrightarrow> ok t"
  by (induction rule: repo_run.induct) (auto intro: step_ok)

lemma run_consumer: "repo_run RP s t \<Longrightarrow> ok s \<Longrightarrow> consumer s d = Some sid \<Longrightarrow> consumer t d = Some sid"
proof (induction rule: repo_run.induct)
  case (rr_step t u)
  then show ?case using step_consumer run_ok by blast
qed

lemma run_allowed: "repo_run RP s t \<Longrightarrow> ok s \<Longrightarrow> allowed s d = Some q \<Longrightarrow> allowed t d = Some q"
proof (induction rule: repo_run.induct)
  case (rr_step t u)
  then show ?case using step_allowed run_ok by blast
qed

text \<open>Two authorizations of one decision, anything in between: the same session.\<close>

lemma authorized_once:
  assumes "ok s" "rp_authorize_session RP d sid ag cfg s = (t, Inr ())" "repo_run RP t u"
    and "rp_authorize_session RP d sid' ag' cfg' u = (v, Inr ())"
  shows "sid' = sid"
proof -
  have t: "ok t" "consumer t d = Some sid"
    using step_ok [OF assms(1) st_authorize [of RP s d sid ag cfg]] authorize_law [OF assms(1,2)]
    by (simp_all add: assms(2))
  have u: "ok u" "consumer u d = Some sid" using run_ok run_consumer assms(3) t by blast+
  then have "consumer v d = Some sid"
    using step_consumer [OF u(1) st_authorize [of RP u d sid' ag' cfg'] u(2)] by (simp add: assms(4))
  then show ?thesis using authorize_law [OF u(1) assms(4)] by simp
qed

text \<open>One session is authorized by one decision only.\<close>

lemma session_one_decision:
  assumes "ok s" "rp_authorize_session RP d sid ag cfg s = (t, Inr ())" "repo_run RP t u"
    and "rp_authorize_session RP d' sid ag' cfg' u = (v, Inr ())"
  shows "d' = d"
proof -
  have t: "ok t" "consumer t d = Some sid"
    using step_ok [OF assms(1) st_authorize [of RP s d sid ag cfg]] authorize_law [OF assms(1,2)]
    by (simp_all add: assms(2))
  have u: "ok u" "consumer u d = Some sid" using run_ok run_consumer assms(3) t by blast+
  then have "ok v" "consumer v d = Some sid"
    using step_ok [OF u(1) st_authorize [of RP u d' sid ag' cfg']]
      step_consumer [OF u(1) st_authorize [of RP u d' sid ag' cfg'] u(2)] by (simp_all add: assms(4))
  then show ?thesis using authorize_law [OF u(1) assms(4)] one_decision_law by blast
qed

end

section \<open>\<open>Noop\<close> keeps the contract\<close>

inductive_cases repo_stepE: "repo_step RP s t"

lemma noop_step: "repo_step noop_repo s t \<Longrightarrow> t = s"
  by (erule repo_stepE) (simp_all add: noop_repo_def Let_def)

interpretation noop: repository noop_repo "\<lambda>_. True" "\<lambda>_ _. None" "\<lambda>_ _. None"
  by unfold_locales (simp_all add: noop_repo_def Let_def)

section \<open>\<open>Store\<close> keeps the contract\<close>

definition db_consumer :: "db \<Rightarrow> string \<Rightarrow> string option" where
  "db_consumer s d = (case decision_of d s of None \<Rightarrow> None | Some r \<Rightarrow> dr_consumed_session r)"

definition db_allowed :: "db \<Rightarrow> string \<Rightarrow> (string \<times> string \<times> intent_snapshot) option" where
  "db_allowed s d =
    (case decision_of d s of
       None \<Rightarrow> None
     | Some r \<Rightarrow>
         if dr_decision r \<noteq> ''ALLOW'' then None
         else map_option (\<lambda>i. (dr_intent_hash r, dr_policy_hash r, snapshot_of i))
           (find (\<lambda>i. ir_intent_hash i = dr_intent_hash r) (payment_intents s)))"

lemma pg_repo_simps [simp]:
  "rp_save_intent (pg_repo P) = save_intent P" "rp_save_decision (pg_repo P) = save_decision"
  "rp_save_session_draft (pg_repo P) = save_session_draft P"
  "rp_save_reservation (pg_repo P) = save_reservation P"
  "rp_update_reservation_status (pg_repo P) = update_reservation_status"
  "rp_save_user_op (pg_repo P) = save_user_op" "rp_finalize_user_op (pg_repo P) = finalize_user_op"
  "rp_save_receipt (pg_repo P) = save_receipt" "rp_get_receipt (pg_repo P) = get_receipt"
  "rp_get_allow_decision (pg_repo P) = get_allow_decision"
  "rp_authorize_session (pg_repo P) = authorize_session P"
  "rp_get_reservation_id_by_user_op (pg_repo P) = get_reservation_id_by_user_op"
  "rp_get_reservation_id_by_idempotency (pg_repo P) = get_reservation_id_by_idempotency"
  "rp_bind_reservation_execution_digest (pg_repo P) = bind_reservation_execution_digest"
  "rp_get_watcher_block_cursor (pg_repo P) = get_watcher_block_cursor"
  "rp_set_watcher_block_cursor (pg_repo P) = set_watcher_block_cursor"
  "rp_record_chain_execution (pg_repo P) = record_chain_execution P"
  "rp_get_chain_execution_by_session_id (pg_repo P) = get_chain_execution_by_session_id P"
  "rp_get_session_reserve_snapshot (pg_repo P) = get_session_reserve_snapshot P"
  "rp_mark_stale_user_ops (pg_repo P) = mark_stale_user_ops"
  "rp_commit_budget_on_chain_execution (pg_repo P) = commit_budget_on_chain_execution P"
  by (simp_all add: pg_repo_def)

lemmas safe_operations = safe_save_intent safe_save_decision safe_save_session_draft
  safe_save_reservation safe_update_reservation_status safe_save_user_op safe_finalize_user_op
  safe_save_receipt safe_get_receipt safe_get_allow_decision safe_authorize_session safe_queries
  safe_bind_digest safe_get_cursor safe_set_cursor safe_record_chain safe_mark_stale safe_commit_budget

lemma pg_step:
  assumes "db_ok s" "repo_step (pg_repo P) s t"
  shows "db_ok t \<and> grows s t"
  using assms(2,1) by cases (simp_all add: safeD safe_operations)

text \<open>History in terms of lookups.\<close>

lemma decisions_le_find:
  assumes "decisions_le xs ys" "distinct (map dr_decision_id ys)"
    and "find (\<lambda>r. dr_decision_id r = d) xs = Some r"
  obtains r' where "find (\<lambda>r. dr_decision_id r = d) ys = Some r'" "decision_le r r'"
proof -
  obtain i where i: "i < length xs" "xs ! i = r" "dr_decision_id r = d"
    using assms(3) by (auto simp: find_Some_iff)
  then have le: "i < length ys" "decision_le r (ys ! i)" using assms(1) by (auto simp: decisions_le_def)
  then have id: "dr_decision_id (ys ! i) = d" using i(3) by (simp add: decision_le_def decision_core_def)
  have "find (\<lambda>r. dr_decision_id r = d) ys = Some (ys ! i)"
    unfolding find_Some_iff
  proof (intro exI conjI allI impI)
    fix j assume "j < i"
    then show "dr_decision_id (ys ! j) \<noteq> d"
      using assms(2) id le(1) nth_eq_iff_index_eq [of "map dr_decision_id ys" j i] by auto
  qed (use id le in auto)
  from this le(2) show thesis by (rule that)
qed

lemma prefix_find: "prefix_of xs ys \<Longrightarrow> find p xs = Some r \<Longrightarrow> find p ys = Some r"
  by (induction xs arbitrary: ys) (auto simp: prefix_of_def split: if_splits)

lemma decision_ok_of: "db_ok s \<Longrightarrow> decision_of d s = Some r \<Longrightarrow> decision_ok r \<and> r \<in> set (policy_decisions s) \<and> dr_decision_id r = d"
  unfolding decision_of_def
  by (metis (mono_tags, lifting) db_ok_def decisions_okD(2) find_Some_iff list_all_length nth_mem)

lemma grows_decision:
  assumes "db_ok t" "grows s t" "decision_of d s = Some r"
  obtains r' where "decision_of d t = Some r'" "decision_le r r'"
  using decisions_le_find [of "policy_decisions s" "policy_decisions t" d r] assms
    decisions_okD(1) [of "policy_decisions t"]
  by (auto simp: decision_of_def grows_def db_ok_def)

lemma grows_consumer:
  assumes "db_ok s" "db_ok t" "grows s t" "db_consumer s d = Some sid"
  shows "db_consumer t d = Some sid"
proof -
  obtain r where r: "decision_of d s = Some r" "dr_consumed_session r = Some sid"
    using assms(4) by (auto simp: db_consumer_def split: option.splits)
  then have "dr_consumed_at r \<noteq> None" using decision_ok_of [OF assms(1) r(1)] by (auto simp: decision_ok_def)
  then show ?thesis
    using grows_decision [OF assms(2,3) r(1)] r(2) by (metis decision_le_def db_consumer_def option.simps(5))
qed

lemma grows_allowed:
  assumes "db_ok t" "grows s t" "db_allowed s d = Some q"
  shows "db_allowed t d = Some q"
proof -
  obtain r i where r: "decision_of d s = Some r" "dr_decision r = ''ALLOW''"
      "find (\<lambda>i. ir_intent_hash i = dr_intent_hash r) (payment_intents s) = Some i"
      "q = (dr_intent_hash r, dr_policy_hash r, snapshot_of i)"
    using assms(3) by (auto simp: db_allowed_def split: option.splits if_splits)
  obtain r' where r': "decision_of d t = Some r'" "decision_core r' = decision_core r"
    using grows_decision [OF assms(1,2) r(1)] by (metis decision_le_def)
  have "find (\<lambda>i. ir_intent_hash i = dr_intent_hash r) (payment_intents t) = Some i"
    by (rule prefix_find [OF _ r(3)]) (use assms(2) in \<open>simp add: grows_def\<close>)
  then show ?thesis using r r' by (simp add: db_allowed_def decision_core_def)
qed

text \<open>What a success says about the statements behind it.\<close>

lemma stmt_Inr:
  assumes "stmt f s = (t, Inr x)"
  shows "f (s\<lparr>db_faults := tl (db_faults s)\<rparr>) = (t, Inr x)"
  using assms by (auto simp: stmt_def Let_def split: fault.splits)

lemma bind_Inr:
  assumes "sql_bind m f s = (t, Inr x)"
  obtains s' y where "m s = (s', Inr y)" "f y s' = (t, Inr x)"
  using assms by (auto simp: sql_bind_def split: prod.splits sum.splits)

lemma or_error_Inr: "or_error msg m s = (t, Inr x) \<longleftrightarrow> m s = (t, Inr x)"
  by (auto simp: or_error_def split: prod.splits sum.splits)

lemma query_row_Inr:
  assumes "query_row f s = (t, Inr x)"
  shows "t = s\<lparr>db_faults := tl (db_faults s)\<rparr>" "f t = Some x"
  using stmt_Inr [OF assms [unfolded query_row_def]] by (auto split: option.splits)

lemma in_tx_Inr:
  assumes "in_tx body s = (t, Inr x)"
  obtains s1 where "body (s\<lparr>db_faults := tl (db_faults s)\<rparr>) = (s1, Inr x)"
    "t = s1\<lparr>db_faults := tl (db_faults s1)\<rparr>"
proof -
  obtain s0 r0 where b: "stmt (\<lambda>d. (d, Inr ())) s = (s0, r0)" by fastforce
  obtain s1 r1 where m: "body s0 = (s1, r1)" by fastforce
  have "r0 = Inr ()" "r1 = Inr x" "t = s1\<lparr>db_faults := tl (db_faults s1)\<rparr>"
    using assms b m by (auto simp: in_tx_def Let_def split: sum.splits fault.splits)
  moreover have "s0 = s\<lparr>db_faults := tl (db_faults s)\<rparr>" using stmt_Inr b calculation(1) by fastforce
  ultimately show thesis using that m by simp
qed

lemma decision_of_faults [simp]: "decision_of d (s\<lparr>db_faults := f\<rparr>) = decision_of d s"
  by (simp add: decision_of_def)

lemma db_consumer_faults [simp]: "db_consumer (s\<lparr>db_faults := f\<rparr>) = db_consumer s"
  by (rule ext) (simp add: db_consumer_def)

lemma find_map_key:
  "(\<And>r. k (f r) = k r) \<Longrightarrow> find (\<lambda>r. k r = x) (map f rs) = map_option f (find (\<lambda>r. k r = x) rs)"
  by (induction rs) auto

lemma consume_Inr:
  assumes "consume_decision d sid s = (t, Inr n)" "n \<noteq> 0" "decision_of d s = Some r" "dr_consumed_at r = None"
  shows "db_consumer t d = Some sid \<and> sessions t = sessions s"
proof -
  let ?f = "\<lambda>r. if dr_decision_id r = d \<and> dr_consumed_at r = None
      then r\<lparr>dr_consumed_at := Some (db_now s), dr_consumed_session := Some sid\<rparr> else r"
  have t: "t = s\<lparr>policy_decisions := map ?f (policy_decisions s)\<rparr>"
    using assms(1) by (auto simp: consume_decision_def update_where_def Let_def split: if_splits)
  have "decision_of d t = map_option ?f (decision_of d s)"
    unfolding decision_of_def t by (simp add: find_map_key [where k = dr_decision_id])
  moreover have "dr_decision_id r = d" using assms(3) by (auto simp: decision_of_def find_Some_iff)
  ultimately show ?thesis using assms(3,4) t by (simp add: db_consumer_def)
qed

lemma insert_session_frame:
  "insert_session P f sid ag cfg st s = (t, r) \<Longrightarrow>
     policy_decisions t = policy_decisions s \<and> payment_intents t = payment_intents s"
  by (auto simp: insert_session_def split: option.splits if_splits)

text \<open>
  A successful authorization: the decision was an ALLOW, and it either had been consumed by
  this very session or was open, is consumed now, and the session's row was inserted.
\<close>

lemma authorize_Inr:
  assumes "authorize_session P d sid ag cfg s = (t, Inr ())"
  obtains (again) r where "decision_of d s = Some r" "dr_decision r = ''ALLOW''"
      "dr_consumed_at r \<noteq> None" "dr_consumed_session r = Some sid" "\<exists>f. t = s\<lparr>db_faults := f\<rparr>"
  | (now) r s1 s2 f where "decision_of d s = Some r" "dr_decision r = ''ALLOW''"
      "dr_consumed_at r = None" "db_consumer s1 d = Some sid" "sessions s1 = sessions s"
      "insert_session P (\<lambda>r. r) sid ag cfg ''SESSION_AUTHORIZED'' s1 = (s2, Inr ())"
      "t = s2\<lparr>db_faults := f\<rparr>"
      "\<exists>f g n. consume_decision d sid (s\<lparr>db_faults := f\<rparr>) = (s1\<lparr>db_faults := g\<rparr>, Inr n)"
proof -
  let ?b = "sql_bind (or_error ''decision not found'' (query_row (decision_of d))) (\<lambda>r.
      if dr_decision r \<noteq> ''ALLOW'' then (\<lambda>s. (s, Inl (Err ''decision is not ALLOW'')))
      else if dr_consumed_at r \<noteq> None
        then (if dr_consumed_session r = Some sid then (\<lambda>s. (s, Inr ()))
              else (\<lambda>s. (s, Inl (Err ''decision already consumed''))))
      else sql_bind (stmt (consume_decision d sid)) (\<lambda>n.
        if n = 0 then (\<lambda>s. (s, Inl (Err ''decision already consumed'')))
        else stmt (insert_session P (\<lambda>r. r) sid ag cfg ''SESSION_AUTHORIZED'')))"
  obtain s3 where s3: "?b (s\<lparr>db_faults := tl (db_faults s)\<rparr>) = (s3, Inr ())"
      "t = s3\<lparr>db_faults := tl (db_faults s3)\<rparr>"
    using assms unfolding authorize_session_def by (rule in_tx_Inr)
  obtain s4 r where q: "query_row (decision_of d) (s\<lparr>db_faults := tl (db_faults s)\<rparr>) = (s4, Inr r)"
      and b: "(if dr_decision r \<noteq> ''ALLOW'' then (\<lambda>s. (s, Inl (Err ''decision is not ALLOW'')))
      else if dr_consumed_at r \<noteq> None
        then (if dr_consumed_session r = Some sid then (\<lambda>s. (s, Inr ()))
              else (\<lambda>s. (s, Inl (Err ''decision already consumed''))))
      else sql_bind (stmt (consume_decision d sid)) (\<lambda>n.
        if n = 0 then (\<lambda>s. (s, Inl (Err ''decision already consumed'')))
        else stmt (insert_session P (\<lambda>r. r) sid ag cfg ''SESSION_AUTHORIZED''))) s4 = (s3, Inr ())"
    using s3(1) by (rule bind_Inr) (simp only: or_error_Inr)
  note s4 = query_row_Inr [OF q]
  have r: "decision_of d s = Some r" using s4(2) unfolding s4(1) by simp
  show thesis
  proof (cases "dr_consumed_at r = None")
    case False
    with b have *: "dr_decision r = ''ALLOW''" "dr_consumed_session r = Some sid" "s3 = s4"
      by (simp_all split: if_splits)
    have "t = s\<lparr>db_faults := tl (db_faults s4)\<rparr>" unfolding s3(2) *(3) by (simp add: s4(1))
    then show thesis by (intro again [OF r *(1) False *(2)] exI)
  next
    case True
    with b have allow: "dr_decision r = ''ALLOW''"
      and b2: "sql_bind (stmt (consume_decision d sid)) (\<lambda>n.
        if n = 0 then (\<lambda>s. (s, Inl (Err ''decision already consumed'')))
        else stmt (insert_session P (\<lambda>r. r) sid ag cfg ''SESSION_AUTHORIZED'')) s4 = (s3, Inr ())"
      by (simp_all split: if_splits)
    obtain s5 n where c: "stmt (consume_decision d sid) s4 = (s5, Inr n)"
        and i: "(if n = 0 then (\<lambda>s. (s, Inl (Err ''decision already consumed'')))
        else stmt (insert_session P (\<lambda>r. r) sid ag cfg ''SESSION_AUTHORIZED'')) s5 = (s3, Inr ())"
      using b2 by (rule bind_Inr)
    from i have n: "n \<noteq> 0" "stmt (insert_session P (\<lambda>r. r) sid ag cfg ''SESSION_AUTHORIZED'') s5 = (s3, Inr ())"
      by (simp_all split: if_splits)
    have "db_consumer s5 d = Some sid \<and> sessions s5 = sessions s4"
      using consume_Inr [OF stmt_Inr [OF c] n(1), of r] r True by (simp add: s4(1))
    moreover have "\<exists>f g n. consume_decision d sid (s\<lparr>db_faults := f\<rparr>) =
        (s5\<lparr>db_faults := tl (db_faults s5), db_faults := g\<rparr>, Inr n)"
      using stmt_Inr [OF c] s4(1)
      by (intro exI [of _ "tl (db_faults s4)"] exI [of _ "db_faults s5"] exI [of _ n]) simp
    ultimately show thesis
      using now [OF r allow True _ _ stmt_Inr [OF n(2)] s3(2)] by (simp add: s4(1))
  qed
qed

lemma authorize_consumer:
  assumes "authorize_session P d sid ag cfg s = (t, Inr ())"
  shows "db_consumer t d = Some sid"
  using assms
proof (cases rule: authorize_Inr)
  case (again r)
  then show ?thesis by (auto simp: db_consumer_def)
next
  case (now r s1 s2 f)
  then have "policy_decisions s2 = policy_decisions s1" using insert_session_frame by blast
  then show ?thesis using now(4,7) by (simp add: db_consumer_def decision_of_def)
qed

lemma get_allow_Inr:
  assumes "get_allow_decision d s = (t, Inr q)"
  shows "db_allowed s d = Some q"
proof -
  obtain s1 r where q: "query_row (decision_of d) s = (s1, Inr r)"
      and b: "(if dr_decision r \<noteq> ''ALLOW'' then (\<lambda>s. (s, Inl (Err ''decision is not ALLOW'')))
        else sql_bind (or_error ''intent not found for decision''
            (query_row (\<lambda>s. find (\<lambda>i. ir_intent_hash i = dr_intent_hash r) (payment_intents s))))
          (\<lambda>i s. (s, Inr (dr_intent_hash r, dr_policy_hash r, snapshot_of i)))) s1 = (t, Inr q)"
    using assms unfolding get_allow_decision_def by (rule bind_Inr) (simp only: or_error_Inr)
  note s1 = query_row_Inr [OF q]
  have allow: "dr_decision r = ''ALLOW''" using b by (simp split: if_splits)
  with b have "sql_bind (or_error ''intent not found for decision''
        (query_row (\<lambda>s. find (\<lambda>i. ir_intent_hash i = dr_intent_hash r) (payment_intents s))))
      (\<lambda>i s. (s, Inr (dr_intent_hash r, dr_policy_hash r, snapshot_of i))) s1 = (t, Inr q)"
    by simp
  then obtain s2 i where i: "query_row (\<lambda>s. find (\<lambda>i. ir_intent_hash i = dr_intent_hash r) (payment_intents s)) s1
        = (s2, Inr i)" "(s2, Inr (dr_intent_hash r, dr_policy_hash r, snapshot_of i)) = (t, Inr q :: _ res)"
    by (rule bind_Inr) (simp only: or_error_Inr)
  show ?thesis
    using query_row_Inr [OF i(1)] i(2) s1 allow by (simp add: db_allowed_def)
qed

lemma db_one_decision:
  assumes "db_ok s" "db_consumer s d = Some sid" "db_consumer s d' = Some sid"
  shows "d = d'"
proof -
  obtain r r' where r: "decision_of d s = Some r" "dr_consumed_session r = Some sid"
      "decision_of d' s = Some r'" "dr_consumed_session r' = Some sid"
    using assms(2,3) by (auto simp: db_consumer_def split: option.splits)
  have m: "r \<in> set (policy_decisions s)" "r' \<in> set (policy_decisions s)"
    and d: "dr_decision_id r = d" "dr_decision_id r' = d'"
    using decision_ok_of [OF assms(1)] r(1,3) by blast+
  have u: "decisions_ok (policy_decisions s)" using assms(1) by (simp add: db_ok_def)
  have "dr_decision_id r = dr_decision_id r'"
    using u m r(2,4) unfolding decisions_ok_def by (metis option.distinct(1))
  then show ?thesis by (simp only: d)
qed

interpretation pg: repository "pg_repo P" db_ok db_consumer db_allowed for P
proof unfold_locales
  fix s t d sid q ag cfg d'
  assume s: "db_ok s"
  show "repo_step (pg_repo P) s t \<Longrightarrow> db_ok t" using pg_step [OF s] by blast
  show "repo_step (pg_repo P) s t \<Longrightarrow> db_consumer s d = Some sid \<Longrightarrow> db_consumer t d = Some sid"
    using pg_step [OF s] grows_consumer [OF s] by blast
  show "repo_step (pg_repo P) s t \<Longrightarrow> db_allowed s d = Some q \<Longrightarrow> db_allowed t d = Some q"
    using pg_step [OF s] grows_allowed by blast
  show "rp_authorize_session (pg_repo P) d sid ag cfg s = (t, Inr ()) \<Longrightarrow> db_consumer t d = Some sid"
    using authorize_consumer by simp
  show "rp_get_allow_decision (pg_repo P) d s = (t, Inr q) \<Longrightarrow> db_allowed t d = Some q"
    using pg_step [OF s st_get_allow [of "pg_repo P" s d]] grows_allowed get_allow_Inr by fastforce
  show "db_consumer s d = Some sid \<Longrightarrow> db_consumer s d' = Some sid \<Longrightarrow> d = d'"
    by (rule db_one_decision [OF s])
qed

end
