(* ===== verification/Store_Props.thy ===== *)
theory Store_Props
  imports Repository
begin

text \<open>
  The properties of the persistence layer: what a run of statements keeps, what an
  authorization does and rolls back, what the watcher's statements do to reservations, and the
  cursor's round trip.
\<close>

section \<open>A sample database\<close>

definition sample_pg :: pg where
  "sample_pg =
    \<lparr>numeric_in = (\<lambda>s. case set_string s of None \<Rightarrow> None
       | Some i \<Rightarrow> if \<bar>i\<bar> < 10 ^ 78 then Some (show_int i) else None),
     sql_lower = to_lower plain_case, pick = hd\<rparr>"

lemma sample_pg_sound: "pg_sound sample_pg"
  by (simp add: pg_sound_def sample_pg_def set_string_show_int)

definition empty_db :: db where
  "empty_db =
    \<lparr>sessions = [], payment_intents = [], policy_decisions = [], budget_reservations = [],
     userop_lifecycle = [], audit_receipts = [], chain_executions = [],
     watcher_state = Map.empty, db_now = 0, db_faults = []\<rparr>"

definition sample_decision :: decision_row where
  "sample_decision =
    \<lparr>dr_decision_id = ''d'', dr_intent_hash = ''h'', dr_decision = ''ALLOW'', dr_reason_codes = None,
     dr_policy_hash = ''p'', dr_created_at = 0, dr_consumed_at = None, dr_consumed_session = None\<rparr>"

definition sample_reservation :: reservation_row where
  "sample_reservation =
    \<lparr>rr_reservation_id = ''r'', rr_session_id = ''s'', rr_intent_hash = ''h'', rr_agent_id = ''a'',
     rr_amount = ''10'', rr_status = ''USEROP_SUBMITTED'', rr_idempotency_key = ''k'',
     rr_execution_digest = Some ''x'', rr_finalized_at = None\<rparr>"

definition sample_db :: db where
  "sample_db = empty_db\<lparr>policy_decisions := [sample_decision], budget_reservations := [sample_reservation]\<rparr>"

lemma sample_db_ok: "db_ok sample_db" "db_faults sample_db = []"
  by (simp_all add: db_ok_def sample_db_def empty_db_def decisions_ok_def decision_ok_def sample_decision_def)

definition sample_cfg :: session_config where
  "sample_cfg = sample_session\<lparr>sc_allowed_selector := transfer_selector\<rparr>"

section \<open>Statements on a healthy connection\<close>

lemma faults_idem: "db_faults s = [] \<Longrightarrow> s\<lparr>db_faults := tl (db_faults s)\<rparr> = s"
  by simp

lemma stmt_healthy [sql_simps]: "db_faults s = [] \<Longrightarrow> stmt f s = f s"
  using faults_idem [of s] by (simp only: stmt_def db_fault_def Let_def list.case fault.case)

lemma query_row_healthy [sql_simps]:
  "db_faults s = [] \<Longrightarrow> query_row f s =
     (s, case f s of None \<Rightarrow> Inl (Err ''no rows in result set'') | Some x \<Rightarrow> Inr x)"
  by (simp add: query_row_def stmt_healthy)

lemma in_tx_healthy [sql_simps]:
  assumes "db_faults s = []" "db_faults (fst (body s)) = []"
  shows "in_tx body s = (case body s of (t, Inl e) \<Rightarrow> (s, Inl e) | (t, Inr x) \<Rightarrow> (t, Inr x))"
  using assms by (cases "body s") (auto simp: in_tx_def stmt_healthy db_fault_def Let_def split: sum.split)

lemma consume_frame [simp]: "db_faults (fst (consume_decision d sid s)) = db_faults s"
  by (simp add: consume_decision_def update_where_def Let_def)

lemma insert_faults [simp]: "db_faults (fst (insert_session P f sid ag cfg st s)) = db_faults s"
  by (simp add: insert_session_def split: option.split)

section \<open>Properties\<close>

text \<open>
  C11: whatever operations run on the database, in any order and with any connection
  failures, its integrity is kept (unique keys, only ALLOW and BLOCK decisions, a session
  consumed by one decision) and its history only grows: intents, receipts and chain
  executions are never changed or deleted, and a decision row changes only by being consumed
  once.
\<close>

theorem history_is_kept:
  assumes "db_ok s" and "repo_run (pg_repo P) s t"
  shows "db_ok t \<and> prefix_of (payment_intents s) (payment_intents t) \<and>
    prefix_of (audit_receipts s) (audit_receipts t) \<and>
    prefix_of (chain_executions s) (chain_executions t) \<and>
    decisions_le (policy_decisions s) (policy_decisions t)"
proof -
  have "db_ok t \<and> grows s t" using assms(2)
  proof (induction rule: repo_run.induct)
    case rr_refl
    show ?case using assms(1) by simp
  next
    case (rr_step t u)
    then show ?case using pg_step grows_trans by blast
  qed
  then show ?thesis by (simp add: grows_def)
qed

theorem history_is_kept_witness:
  "db_ok (fst (save_decision ''d2'' ''h'' ''BLOCK'' None ''p'' sample_db))"
proof -
  have "repo_run (pg_repo sample_pg) sample_db (fst (save_decision ''d2'' ''h'' ''BLOCK'' None ''p'' sample_db))"
    using rr_step [OF rr_refl st_save_decision [of "pg_repo sample_pg" sample_db]] by simp
  from history_is_kept [OF sample_db_ok(1) this] show ?thesis by blast
qed

text \<open>
  A decision authorizes one session: if two calls of \<open>AuthorizeSession\<close> on a decision
  succeed, whatever ran between them, they were for the same session.
\<close>

theorem decision_authorizes_one_session:
  assumes "db_ok s" and "authorize_session P d sid ag cfg s = (t, Inr ())"
    and "repo_run (pg_repo P) t u" and "authorize_session P d sid' ag' cfg' u = (v, Inr ())"
  shows "sid' = sid"
  using pg.authorized_once [OF assms(1) _ assms(3), of d sid ag cfg sid' ag' cfg' v] assms(2,4) by simp

lemma sample_numeric: "numeric_in sample_pg ''10'' = Some ''10''" "numeric_in sample_pg ''25'' = Some ''25''"
  by code_simp+

lemma authorize_healthy:
  assumes "db_faults s = []"
  shows "authorize_session P d sid ag cfg s =
    (case decision_of d s of
       None \<Rightarrow> (s, Inl (Err ''decision not found''))
     | Some r \<Rightarrow>
         if dr_decision r \<noteq> ''ALLOW'' then (s, Inl (Err ''decision is not ALLOW''))
         else if dr_consumed_at r \<noteq> None
           then (s, if dr_consumed_session r = Some sid then Inr () else Inl (Err ''decision already consumed''))
         else (case consume_decision d sid s of
             (s1, Inl e) \<Rightarrow> (s, Inl e)
           | (s1, Inr n) \<Rightarrow>
               if n = 0 then (s, Inl (Err ''decision already consumed''))
               else (case insert_session P (\<lambda>r. r) sid ag cfg ''SESSION_AUTHORIZED'' s1 of
                   (s2, Inl e) \<Rightarrow> (s, Inl e) | (s2, Inr _) \<Rightarrow> (s2, Inr ()))))"
proof -
  let ?b = "sql_bind (or_error ''decision not found'' (query_row (decision_of d))) (\<lambda>r.
      if dr_decision r \<noteq> ''ALLOW'' then (\<lambda>s. (s, Inl (Err ''decision is not ALLOW'')))
      else if dr_consumed_at r \<noteq> None
        then (if dr_consumed_session r = Some sid then (\<lambda>s. (s, Inr ()))
              else (\<lambda>s. (s, Inl (Err ''decision already consumed''))))
      else sql_bind (stmt (consume_decision d sid)) (\<lambda>n.
        if n = 0 then (\<lambda>s. (s, Inl (Err ''decision already consumed'')))
        else stmt (insert_session P (\<lambda>r. r) sid ag cfg ''SESSION_AUTHORIZED'')))"
  obtain s1 r1 where c: "consume_decision d sid s = (s1, r1)" by fastforce
  have s1: "db_faults s1 = []" using consume_frame [of d sid s] c assms by simp
  obtain s2 r2 where i: "insert_session P (\<lambda>r. r) sid ag cfg ''SESSION_AUTHORIZED'' s1 = (s2, r2)" by fastforce
  have s2: "db_faults s2 = []" using insert_faults [of P "\<lambda>r. r" sid ag cfg "''SESSION_AUTHORIZED''" s1] i s1 by simp
  have q: "or_error ''decision not found'' (query_row (decision_of d)) s =
      (s, case decision_of d s of None \<Rightarrow> Inl (Err ''decision not found'') | Some r \<Rightarrow> Inr r)"
    using assms by (simp add: or_error_def query_row_healthy split: option.split)
  have b: "?b s = (case decision_of d s of
       None \<Rightarrow> (s, Inl (Err ''decision not found''))
     | Some r \<Rightarrow>
         if dr_decision r \<noteq> ''ALLOW'' then (s, Inl (Err ''decision is not ALLOW''))
         else if dr_consumed_at r \<noteq> None
           then (s, if dr_consumed_session r = Some sid then Inr () else Inl (Err ''decision already consumed''))
         else (case r1 of Inl e \<Rightarrow> (s1, Inl e)
           | Inr n \<Rightarrow> if n = 0 then (s1, Inl (Err ''decision already consumed'')) else (s2, r2)))"
    using assms s1 c i q
    by (auto simp: sql_bind_def stmt_healthy split: option.split sum.split)
  have "db_faults (fst (?b s)) = []"
    unfolding b using assms s1 s2 by (auto split: option.split sum.split)
  from in_tx_healthy [where body = ?b, OF assms this] show ?thesis
    unfolding authorize_session_def b c
    by (simp only:) (auto simp: i split: option.split sum.split)
qed

lemma sample_authorize:
  "\<exists>t. authorize_session sample_pg ''d'' ''s'' ''a'' sample_cfg sample_db = (t, Inr ()) \<and>
     sessions t = [session_row_of ''s'' ''a'' sample_cfg ''10'' ''25'' ''SESSION_AUTHORIZED''] \<and> db_faults t = []"
proof -
  have "decision_of ''d'' sample_db = Some sample_decision"
    by (simp add: decision_of_def sample_db_def sample_decision_def)
  then show ?thesis
    by (simp add: authorize_healthy sample_db_ok)
      (simp add: sample_decision_def consume_decision_def update_where_def sample_db_def empty_db_def
        insert_session_def sample_cfg_def sample_session_def sample_numeric)
qed

theorem decision_authorizes_one_session_witness:
  "snd (authorize_session sample_pg ''d'' ''other'' ''a'' sample_cfg
     (fst (authorize_session sample_pg ''d'' ''s'' ''a'' sample_cfg sample_db))) \<noteq> Inr ()"
proof
  obtain t where t: "authorize_session sample_pg ''d'' ''s'' ''a'' sample_cfg sample_db = (t, Inr ())"
    using sample_authorize by blast
  obtain v r where v: "authorize_session sample_pg ''d'' ''other'' ''a'' sample_cfg t = (v, r)" by fastforce
  assume "snd (authorize_session sample_pg ''d'' ''other'' ''a'' sample_cfg
     (fst (authorize_session sample_pg ''d'' ''s'' ''a'' sample_cfg sample_db))) = Inr ()"
  with t v have "authorize_session sample_pg ''d'' ''other'' ''a'' sample_cfg t = (v, Inr ())" by simp
  from decision_authorizes_one_session [OF sample_db_ok(1) t rr_refl this] show False by simp
qed

text \<open>
  An authorization that fails on a healthy connection leaves the database exactly as it
  was: the consumption of the decision is rolled back with the session that could not be
  inserted.
\<close>

theorem failed_authorization_rolls_back:
  assumes "db_faults s = []" and "authorize_session P d sid ag cfg s = (t, Inl e)"
  shows "t = s"
  using assms by (auto simp: authorize_healthy split: option.splits if_splits prod.splits sum.splits)

theorem failed_authorization_rolls_back_witness:
  "fst (authorize_session sample_pg ''d'' ''s'' ''a'' (sample_cfg\<lparr>sc_max_total_spend := ''''\<rparr>) sample_db)
     = sample_db"
proof -
  let ?cfg = "sample_cfg\<lparr>sc_max_total_spend := ''''\<rparr>"
  obtain t r where t: "authorize_session sample_pg ''d'' ''s'' ''a'' ?cfg sample_db = (t, r)" by fastforce
  have "decision_of ''d'' sample_db = Some sample_decision"
    by (simp add: decision_of_def sample_db_def sample_decision_def)
  then have "\<exists>e. r = Inl e"
    using t sample_pg_sound
    by (simp add: authorize_healthy sample_db_ok)
      (auto simp: sample_decision_def consume_decision_def update_where_def sample_db_def empty_db_def
        insert_session_def pg_sound_def split: option.splits)
  then show ?thesis using failed_authorization_rolls_back [OF sample_db_ok(2)] t by auto
qed

lemma find_append_last: "\<forall>x \<in> set xs. \<not> p x \<Longrightarrow> p y \<Longrightarrow> find p (xs @ [y]) = Some y"
  by (induction xs) auto

lemma filter_unique:
  assumes "distinct (map k xs)" "r \<in> set xs" "p r" "\<And>x. x \<in> set xs \<Longrightarrow> p x \<Longrightarrow> k x = k r"
  shows "filter p xs = [r]"
  using assms
proof (induction xs)
  case (Cons y xs)
  have ny: "k y \<notin> k ` set xs" and dx: "distinct (map k xs)" using Cons.prems(1) by simp_all
  have uniq: "x \<in> set (y # xs) \<Longrightarrow> p x \<Longrightarrow> k x = k r" for x by (rule Cons.prems(4))
  show ?case
  proof (cases "y = r")
    case True
    then have "\<not> p x" if "x \<in> set xs" for x using ny uniq [of x] that by (metis image_eqI list.set_intros(2))
    then have "filter p xs = []" by simp
    with True Cons.prems(3) show ?thesis by simp
  next
    case False
    with Cons.prems(2) have r: "r \<in> set xs" by simp
    then have "k y \<noteq> k r" using ny by (metis image_eqI)
    then have "\<not> p y" using uniq [of y] by auto
    moreover have "filter p xs = [r]"
      by (rule Cons.IH [OF dx r Cons.prems(3)]) (simp add: uniq)
    ultimately show ?thesis by simp
  qed
qed simp

text \<open>
  After a first authorization the reserve snapshot of the session carries what was
  authorized: the agent, the two caps and the validity window of the configuration, and the
  intent hash of the decision that was consumed.
\<close>

theorem authorized_session_snapshot:
  assumes "db_ok s" and "db_faults s = []" and "decision_of d s = Some r" and "dr_consumed_at r = None"
    and "\<forall>x \<in> set (sessions s). sql_lower P (sr_session_id x) \<noteq> sql_lower P sid"
    and "authorize_session P d sid ag cfg s = (t, Inr ())"
  shows "\<exists>m n. numeric_in P (sc_max_per_transfer cfg) = Some m \<and> numeric_in P (sc_max_total_spend cfg) = Some n \<and>
    get_session_reserve_snapshot P sid t = (t, Inr
      \<lparr>rs_agent_id = ag, rs_intent_hash = dr_intent_hash r, rs_max_per_transfer = m, rs_max_total_spend = n,
       rs_valid_after = sc_valid_after cfg, rs_valid_until = sc_valid_until cfg,
       rs_status = ''SESSION_AUTHORIZED''\<rparr>)"
proof -
  have new: "\<not> (\<exists>x \<in> set (sessions s). sr_session_id x = sid)" using assms(5) by auto
  have r: "dr_decision r = ''ALLOW''" "dr_decision_id r = d"
    using assms(6) decision_ok_of [OF assms(1,3)] by (auto simp: authorize_healthy [OF assms(2)] assms(3) split: if_splits)
  obtain s1 n where c: "consume_decision d sid s = (s1, Inr n)" "n \<noteq> 0"
      and i: "insert_session P (\<lambda>r. r) sid ag cfg ''SESSION_AUTHORIZED'' s1 = (t, Inr ())"
    using assms(6) by (auto simp: authorize_healthy [OF assms(2)] assms(3,4) r
        split: prod.splits sum.splits if_splits)
  have s1: "sessions s1 = sessions s" using consume_Inr [OF c assms(3,4)] by simp
  obtain m n where mn: "numeric_in P (sc_max_per_transfer cfg) = Some m" "numeric_in P (sc_max_total_spend cfg) = Some n"
      and rows: "sessions t = sessions s @ [session_row_of sid ag cfg m n ''SESSION_AUTHORIZED'']"
    using i new s1 by (auto simp: insert_session_def split: option.splits if_splits)
  have find: "find (\<lambda>x. sql_lower P (sr_session_id x) = sql_lower P sid) (sessions t)
      = Some (session_row_of sid ag cfg m n ''SESSION_AUTHORIZED'')"
    using assms(5) by (simp add: rows find_append_last session_row_of_def)
  have f: "db_faults t = []"
    using consume_frame [of d sid s] insert_faults [of P "\<lambda>r. r" sid ag cfg "''SESSION_AUTHORIZED''" s1]
    by (simp add: c i assms(2))
  have t: "db_ok t" and g: "grows s t"
    using safeD [OF safe_authorize_session assms(1), of P d sid ag cfg] assms(6) by simp_all
  obtain r2 where r2: "decision_of d t = Some r2" "decision_core r2 = decision_core r"
    using grows_decision [OF t g assms(3)] by (metis decision_le_def)
  have owner: "dr_consumed_session r2 = Some sid"
    using authorize_consumer [OF assms(6)] r2(1) by (simp add: db_consumer_def)
  have ok: "decisions_ok (policy_decisions t)" using t by (simp add: db_ok_def)
  have r2_in: "r2 \<in> set (policy_decisions t)" "dr_decision_id r2 = d" using decision_ok_of [OF t r2(1)] by blast+
  have "filter (\<lambda>x. dr_consumed_session x = Some sid \<and> dr_decision x = ''ALLOW'') (policy_decisions t) = [r2]"
  proof (rule filter_unique [OF decisions_okD(1) [OF ok] r2_in(1)])
    show "dr_consumed_session r2 = Some sid \<and> dr_decision r2 = ''ALLOW''"
      using owner r2(2) r(1) by (simp add: decision_core_def)
    show "\<And>x. x \<in> set (policy_decisions t) \<Longrightarrow> dr_consumed_session x = Some sid \<and> dr_decision x = ''ALLOW'' \<Longrightarrow>
        dr_decision_id x = dr_decision_id r2"
      using ok r2_in(1) owner unfolding decisions_ok_def by (metis option.distinct(1))
  qed
  then show ?thesis
    using mn find f r2(2)
    by (simp add: get_session_reserve_snapshot_def or_error_def query_row_healthy reserve_snapshot_def
        session_row_of_def decision_core_def)
qed

theorem authorized_session_snapshot_witness:
  "\<exists>t sn. get_session_reserve_snapshot sample_pg ''s'' t = (t, Inr sn) \<and> rs_intent_hash sn = ''h'' \<and>
     rs_max_total_spend sn = ''25''"
proof -
  obtain t where t: "authorize_session sample_pg ''d'' ''s'' ''a'' sample_cfg sample_db = (t, Inr ())"
    using sample_authorize by blast
  have "decision_of ''d'' sample_db = Some sample_decision" "dr_consumed_at sample_decision = None"
    "\<forall>x \<in> set (sessions sample_db). sql_lower sample_pg (sr_session_id x) \<noteq> sql_lower sample_pg ''s''"
    by (simp_all add: decision_of_def sample_db_def sample_decision_def empty_db_def)
  from authorized_session_snapshot [OF sample_db_ok this t] obtain m n where
      "numeric_in sample_pg (sc_max_total_spend sample_cfg) = Some n"
      "get_session_reserve_snapshot sample_pg ''s'' t = (t, Inr
        \<lparr>rs_agent_id = ''a'', rs_intent_hash = dr_intent_hash sample_decision, rs_max_per_transfer = m, rs_max_total_spend = n,
         rs_valid_after = sc_valid_after sample_cfg, rs_valid_until = sc_valid_until sample_cfg,
         rs_status = ''SESSION_AUTHORIZED''\<rparr>)"
    by blast
  moreover from this(1) have "n = ''25''"
    by (simp add: sample_cfg_def sample_session_def sample_numeric)
  ultimately show ?thesis
    by (metis session_reserve_snapshot.select_convs(2,4) sample_decision_def decision_row.select_convs(2))
qed



text \<open>
  \<open>UpdateReservationStatus\<close> overwrites any status and never reports a missing
  reservation: on a healthy connection it succeeds for every identifier, a committed or
  released reservation goes back to \<open>USEROP_SUBMITTED\<close>, and an unknown identifier changes
  nothing.
\<close>

theorem status_update_never_fails:
  assumes "db_faults s = []"
  shows "snd (update_reservation_status rid st s) = Inr () \<and>
    budget_reservations (fst (update_reservation_status rid st s)) =
      map (\<lambda>x. if rr_reservation_id x = rid then x\<lparr>rr_status := st\<rparr> else x) (budget_reservations s) \<and>
    (rid \<notin> rr_reservation_id ` set (budget_reservations s) \<longrightarrow>
      fst (update_reservation_status rid st s) = s)"
proof -
  have same: "map (\<lambda>x. if rr_reservation_id x = rid then x\<lparr>rr_status := st\<rparr> else x) rows = rows"
    if "rid \<notin> rr_reservation_id ` set rows" for rows
    using that by (induction rows) auto
  have "set_status rid st s = s" if "rid \<notin> rr_reservation_id ` set (budget_reservations s)"
    unfolding set_status_def update_where_simps same [OF that] by simp
  then show ?thesis
    using assms by (simp add: update_reservation_status_def stmt_healthy) (simp add: set_status_def)
qed

theorem status_update_never_fails_witness:
  "snd (update_reservation_status ''nobody'' ''USEROP_SUBMITTED'' sample_db) = Inr ()"
  using status_update_never_fails [OF sample_db_ok(2), of "''nobody''" "''USEROP_SUBMITTED''"] by blast

text \<open>
  The watcher's cursor survives the database: the block that was stored is the block
  read back, for every 64-bit block number.
\<close>

theorem cursor_round_trip:
  assumes "db_faults s = []" and "set_watcher_block_cursor b h s = (t, r)"
  shows "r = Inr () \<and> get_watcher_block_cursor t = (t, Inr b)"
proof -
  have scan: "scan_u64 (show_nat (unat b)) = Inr b"
    using unsigned_less [of b, where ?'a = nat] by (simp add: scan_u64_def parse_show_nat)
  let ?s = "s\<lparr>watcher_state := (watcher_state s)(''last_block'' \<mapsto> show_nat (unat b))\<rparr>"
  have "db_faults ?s = []" using assms(1) by simp
  then have "r = Inr () \<and> watcher_state t ''last_block'' = Some (show_nat (unat b)) \<and> db_faults t = []"
    using assms by (auto simp: set_watcher_block_cursor_def sql_bind_def stmt_healthy split: if_splits)
  then show ?thesis
    by (simp add: get_watcher_block_cursor_def sql_bind_def query_row_healthy scan)
qed

theorem cursor_round_trip_witness:
  "snd (get_watcher_block_cursor (fst (set_watcher_block_cursor 18446744073709551615 ''0xab'' sample_db)))
     = Inr 18446744073709551615"
  using cursor_round_trip [OF sample_db_ok(2) prod.collapse [symmetric], of 18446744073709551615 "''0xab''"]
  by simp

text \<open>
  A log is recorded once: recording it again, as a rescan does, adds no row; but a log
  that carries the digest of an execution recorded under another log is an error every time,
  since only a clash of transaction and log index is tolerated.
\<close>

theorem chain_log_recorded_once:
  assumes "db_faults s = []" and "r \<in> set (chain_executions s)" and "record_chain_execution P now e s = (t, res)"
    and "numeric_in P (ce_frame_spend e) \<noteq> None" and "numeric_in P (ce_total_spend_after e) \<noteq> None"
  shows "(ce_tx_hash (cr_execution r) = ce_tx_hash e \<longrightarrow> ce_log_index (cr_execution r) = ce_log_index e \<longrightarrow>
      chain_executions t = chain_executions s) \<and>
    ((\<forall>x \<in> set (chain_executions s). ce_tx_hash (cr_execution x) \<noteq> ce_tx_hash e) \<longrightarrow>
      ce_execution_digest e \<noteq> '''' \<longrightarrow> cr_digest r = Some (ce_execution_digest e) \<longrightarrow>
      t = s \<and> res = Inl sql_error)"
proof (intro conjI impI)
  have commit: "chain_executions (fst (commit_budget_on_chain_execution P now sid dg u)) = chain_executions u" for sid dg u
    by (auto simp: commit_budget_on_chain_execution_def stmt_def Let_def split: fault.split list.split)
  assume "ce_tx_hash (cr_execution r) = ce_tx_hash e" "ce_log_index (cr_execution r) = ce_log_index e"
  then have "record_chain_execution P now e s =
      (if ce_execution_digest e = '''' then (s, Inr ())
       else commit_budget_on_chain_execution P now (ce_session_id e) (ce_execution_digest e) s)"
    using assms(1,2,4,5) by (auto simp: record_chain_execution_def sql_bind_def stmt_healthy)
  then show "chain_executions t = chain_executions s"
    using assms(3) commit [of "ce_session_id e" "ce_execution_digest e" s] by (metis fst_conv)
next
  assume new: "\<forall>x \<in> set (chain_executions s). ce_tx_hash (cr_execution x) \<noteq> ce_tx_hash e"
    and dg: "ce_execution_digest e \<noteq> ''''" "cr_digest r = Some (ce_execution_digest e)"
  have "\<exists>x \<in> set (chain_executions s). cr_digest x = Some (ce_execution_digest e)"
    using assms(2) dg(2) by blast
  moreover have "\<not> (\<exists>x \<in> set (chain_executions s). ce_tx_hash (cr_execution x) = ce_tx_hash e \<and>
      ce_log_index (cr_execution x) = ce_log_index e)"
    using new by blast
  ultimately have "record_chain_execution P now e s = (s, Inl sql_error)"
    using assms(1,4,5) dg(1) by (auto simp: record_chain_execution_def sql_bind_def stmt_healthy)
  then show "t = s" "res = Inl sql_error" using assms(3) by simp_all
qed

definition sample_execution :: chain_execution where
  "sample_execution =
    \<lparr>ce_account = ''a'', ce_session_id = ''s'', ce_nonce_key = ''7'', ce_frame_spend = ''10'',
     ce_total_spend_after = ''10'', ce_execution_digest = ''x'', ce_block_number = 5,
     ce_tx_hash = ''t1'', ce_log_index = 0\<rparr>"

theorem chain_log_recorded_once_witness:
  "snd (record_chain_execution sample_pg 9 (sample_execution\<lparr>ce_tx_hash := ''t2''\<rparr>)
     (sample_db\<lparr>chain_executions := [\<lparr>cr_execution = sample_execution, cr_digest = Some ''x'', cr_created_at = 0\<rparr>]\<rparr>))
   = Inl sql_error"
proof -
  let ?r = "\<lparr>cr_execution = sample_execution, cr_digest = Some ''x'', cr_created_at = 0\<rparr>"
  let ?s = "sample_db\<lparr>chain_executions := [?r]\<rparr>" and ?e = "sample_execution\<lparr>ce_tx_hash := ''t2''\<rparr>"
  obtain t res where t: "record_chain_execution sample_pg 9 ?e ?s = (t, res)" by fastforce
  have "db_faults ?s = []" "?r \<in> set (chain_executions ?s)"
    "numeric_in sample_pg (ce_frame_spend ?e) \<noteq> None" "numeric_in sample_pg (ce_total_spend_after ?e) \<noteq> None"
    using sample_db_ok sample_numeric by (simp_all add: sample_execution_def)
  from chain_log_recorded_once [OF this(1,2) t this(3,4)] t show ?thesis
    by (simp add: sample_execution_def)
qed

end
