(* ===== verification/Decisions.thy ===== *)
theory Decisions
  imports Store_Props
begin

text \<open>
  The contract of the store for decisions, as a machine: a decision is absent, then issued
  once, as a block or open, and an open one is consumed once, by a session no other decision
  was consumed by. Every operation of \<open>Store\<close> is a run of it.
\<close>

section \<open>The machine\<close>

datatype phase = Absent | Blocked | Open | Consumed string

inductive decision_step :: "(string \<Rightarrow> phase) \<Rightarrow> (string \<Rightarrow> phase) \<Rightarrow> bool" where
  issue: "\<sigma> d = Absent \<Longrightarrow> p \<in> {Blocked, Open} \<Longrightarrow> decision_step \<sigma> (\<sigma>(d := p))"
| consume: "\<sigma> d = Open \<Longrightarrow> \<forall>d'. \<sigma> d' \<noteq> Consumed sid \<Longrightarrow> decision_step \<sigma> (\<sigma>(d := Consumed sid))"

abbreviation decision_run :: "(string \<Rightarrow> phase) \<Rightarrow> (string \<Rightarrow> phase) \<Rightarrow> bool" where
  "decision_run \<equiv> decision_step\<^sup>*\<^sup>*"

inductive_cases decision_stepE: "decision_step \<sigma> \<tau>"

text \<open>What the machine promises: final phases stay, and a session consumes one decision.\<close>

lemma run_final: "decision_run \<sigma> \<tau> \<Longrightarrow> \<sigma> d \<in> {Blocked, Consumed sid} \<Longrightarrow> \<tau> d = \<sigma> d"
proof (induction rule: rtranclp_induct)
  case (step \<tau> \<upsilon>)
  from step.hyps(2) show ?case by (rule decision_stepE) (use step in auto)
qed simp

definition consumed_once :: "(string \<Rightarrow> phase) \<Rightarrow> bool" where
  "consumed_once \<sigma> \<longleftrightarrow> (\<forall>d d' sid. \<sigma> d = Consumed sid \<longrightarrow> \<sigma> d' = Consumed sid \<longrightarrow> d = d')"

lemma run_consumed_once: "decision_run \<sigma> \<tau> \<Longrightarrow> consumed_once \<sigma> \<Longrightarrow> consumed_once \<tau>"
proof (induction rule: rtranclp_induct)
  case (step \<tau> \<upsilon>)
  from step.hyps(2) show ?case by (rule decision_stepE) (use step in \<open>auto simp: consumed_once_def\<close>)
qed simp

section \<open>The phases of a database\<close>

definition phases :: "db \<Rightarrow> string \<Rightarrow> phase" where
  "phases s d =
    (case decision_of d s of
       None \<Rightarrow> Absent
     | Some r \<Rightarrow>
         if dr_decision r \<noteq> ''ALLOW'' then Blocked
         else (case dr_consumed_session r of None \<Rightarrow> Open | Some sid \<Rightarrow> Consumed sid))"

lemma phases_cong: "policy_decisions t = policy_decisions s \<Longrightarrow> phases t = phases s"
  by (rule ext) (simp add: phases_def decision_of_def)

lemma phases_faults [simp]: "phases (s\<lparr>db_faults := f\<rparr>) = phases s"
  by (rule phases_cong) simp

lemma phases_Consumed: "phases s d = Consumed sid \<Longrightarrow> db_consumer s d = Some sid"
  by (auto simp: phases_def db_consumer_def split: option.splits if_splits)

lemma db_ok_consumed_once: "db_ok s \<Longrightarrow> consumed_once (phases s)"
  unfolding consumed_once_def using db_one_decision phases_Consumed by blast

definition machine_step :: "db \<Rightarrow> db \<Rightarrow> bool" where
  "machine_step s t \<longleftrightarrow> (db_ok s \<longrightarrow> db_ok t \<and> decision_run (phases s) (phases t))"

interpretation machine: sql_relation machine_step
  by unfold_locales (auto simp: machine_step_def)

interpretation untouched: sql_relation "\<lambda>s t. policy_decisions t = policy_decisions s"
  by unfold_locales simp_all

lemma machine_untouched:
  assumes "safe m" and "untouched.keeps m"
  shows "machine.keeps m"
proof (rule machine.keepsI)
  fix s
  show "machine_step s (fst (m s))"
    using safeD [OF assms(1), of s] phases_cong [OF untouched.keepsD [OF assms(2)], of s]
    by (simp add: machine_step_def)
qed

section \<open>The two statements that move it\<close>

lemma decision_of_snoc:
  "decision_of d (s\<lparr>policy_decisions := policy_decisions s @ [r]\<rparr>) =
     (case decision_of d s of Some r' \<Rightarrow> Some r' | None \<Rightarrow> if dr_decision_id r = d then Some r else None)"
proof -
  have "find p (xs @ [r]) = (case find p xs of Some r' \<Rightarrow> Some r' | None \<Rightarrow> if p r then Some r else None)" for p xs
    by (induction xs) auto
  then show ?thesis by (simp add: decision_of_def)
qed

lemma issued_phases:
  assumes "decision_of (dr_decision_id r) s = None" and "dr_consumed_session r = None"
  shows "phases (s\<lparr>policy_decisions := policy_decisions s @ [r]\<rparr>) =
    (phases s)(dr_decision_id r := if dr_decision r = ''ALLOW'' then Open else Blocked)"
  by (rule ext) (use assms in \<open>auto simp: phases_def decision_of_snoc split: option.split\<close>)

lemma fresh_decision:
  "decision_of d s = None \<longleftrightarrow> (\<forall>r \<in> set (policy_decisions s). dr_decision_id r \<noteq> d)"
  by (auto simp: decision_of_def find_None_iff)

lemma stmt_phases:
  "phases (fst (stmt f s)) \<in> {phases s, phases (fst (f (s\<lparr>db_faults := tl (db_faults s)\<rparr>)))}"
  by (simp add: stmt_def Let_def split: fault.split)

lemma saved_phases:
  "phases (fst (save_decision d h dec rc ph s)) = phases s \<or>
   dec \<in> {''ALLOW'', ''BLOCK''} \<and> phases s d = Absent \<and>
     phases (fst (save_decision d h dec rc ph s)) = (phases s)(d := if dec = ''ALLOW'' then Open else Blocked)"
proof -
  let ?s = "s\<lparr>db_faults := tl (db_faults s)\<rparr>"
  let ?f = "\<lambda>s. if dec \<notin> {''ALLOW'', ''BLOCK''} then (s, Inl sql_error)
      else if \<exists>r \<in> set (policy_decisions s). dr_decision_id r = d then (s, Inl sql_error)
      else (s\<lparr>policy_decisions := policy_decisions s @
        [\<lparr>dr_decision_id = d, dr_intent_hash = h, dr_decision = dec,
          dr_reason_codes = rc, dr_policy_hash = ph, dr_created_at = db_now s,
          dr_consumed_at = None, dr_consumed_session = None\<rparr>]\<rparr>, Inr ())"
  have t: "phases (fst (save_decision d h dec rc ph s)) \<in> {phases s, phases (fst (?f ?s))}"
    unfolding save_decision_def by (rule stmt_phases)
  show ?thesis
  proof (cases "dec \<in> {''ALLOW'', ''BLOCK''} \<and> decision_of d s = None")
    case True
    then have "decision_of d ?s = None" "phases s d = Absent" by (simp_all add: phases_def)
    moreover from this have "phases (fst (?f ?s)) = (phases s)(d := if dec = ''ALLOW'' then Open else Blocked)"
      using True issued_phases [where s = ?s] by (auto simp: fresh_decision)
    ultimately show ?thesis using t True by auto
  next
    case False
    then have "fst (?f ?s) = ?s" by (auto simp: fresh_decision)
    then show ?thesis using t by simp
  qed
qed

lemma machine_save_decision: "machine.keeps (save_decision d h dec rc ph)"
proof (rule machine.keepsI)
  fix s
  let ?p = "if dec = ''ALLOW'' then Open else Blocked"
  have "phases s d = Absent \<Longrightarrow> decision_step (phases s) ((phases s)(d := ?p))" by (rule issue) simp_all
  then show "machine_step s (fst (save_decision d h dec rc ph s))"
    using saved_phases [of d h dec rc ph s] safeD [OF safe_save_decision, of s d h dec rc ph]
    by (auto simp: machine_step_def)
qed

lemma consumed_rows:
  fixes d sid :: string and now :: int and s :: db
  assumes "db_ok s"
  defines "f \<equiv> \<lambda>r. if dr_decision_id r = d \<and> dr_consumed_at r = None
      then r\<lparr>dr_consumed_at := Some now, dr_consumed_session := Some sid\<rparr> else r"
  shows "phases (s\<lparr>policy_decisions := map f (policy_decisions s)\<rparr>) =
    (if phases s d = Open then (phases s)(d := Consumed sid) else phases s)"
proof (rule ext)
  fix e
  have "decision_of e (s\<lparr>policy_decisions := map f (policy_decisions s)\<rparr>) = map_option f (decision_of e s)"
    unfolding decision_of_def by (simp add: find_map_key [where k = dr_decision_id] f_def)
  moreover have "decision_of e s = Some r \<Longrightarrow>
      dr_decision_id r = e \<and> (dr_consumed_at r = None \<longleftrightarrow> dr_consumed_session r = None)" for r
    using decision_ok_of [OF assms(1)] by (auto simp: decision_ok_def)
  ultimately show "phases (s\<lparr>policy_decisions := map f (policy_decisions s)\<rparr>) e =
      (if phases s d = Open then (phases s)(d := Consumed sid) else phases s) e"
    by (cases "decision_of e s") (auto simp: phases_def f_def split: option.splits if_splits)
qed

lemma consume_phases:
  assumes "db_ok s"
  shows "phases (fst (consume_decision d sid s)) = phases s \<or>
    phases s d = Open \<and> (\<forall>d'. phases s d' \<noteq> Consumed sid) \<and>
      phases (fst (consume_decision d sid s)) = (phases s)(d := Consumed sid)"
proof (cases "\<exists>r \<in> set (policy_decisions s). dr_decision_id r \<noteq> d \<and> dr_consumed_session r = Some sid")
  case False
  have "phases s d' \<noteq> Consumed sid" if "phases s d = Open" for d'
  proof
    assume "phases s d' = Consumed sid"
    then obtain r where "decision_of d' s = Some r" "dr_consumed_session r = Some sid"
      by (auto simp: phases_def split: option.splits if_splits)
    then show False
      using False that \<open>phases s d' = Consumed sid\<close> decision_ok_of [OF assms] by (cases "d' = d") auto
  qed
  then show ?thesis
    using False consumed_rows [OF assms, of d sid "db_now s"]
    by (auto simp: consume_decision_def update_where_def Let_def)
next
  case True
  then have "fst (consume_decision d sid s) = s \<or> \<not> (\<exists>r \<in> set (policy_decisions s). dr_decision_id r = d \<and> dr_consumed_at r = None)"
    by (auto simp: consume_decision_def update_where_def Let_def filter_empty_conv)
  then show ?thesis
  proof
    assume none: "\<not> (\<exists>r \<in> set (policy_decisions s). dr_decision_id r = d \<and> dr_consumed_at r = None)"
    have "policy_decisions (fst (consume_decision d sid s)) = policy_decisions s"
      using none by (auto simp: consume_decision_def update_where_def Let_def intro!: map_idI)
    then show ?thesis using phases_cong by blast
  qed simp
qed

lemma machine_consume: "machine.keeps (consume_decision d sid)"
proof (rule machine.keepsI)
  fix s
  have "decision_run (phases s) (phases (fst (consume_decision d sid s)))" if "db_ok s"
    using consume_phases [OF that, of d sid] consume [of "phases s" d sid] by auto
  then show "machine_step s (fst (consume_decision d sid s))"
    using safeD [OF safe_consume_decision, of s d sid] by (auto simp: machine_step_def)
qed

section \<open>Every operation is a run of the machine\<close>

lemma untouched_same: "(\<And>s. policy_decisions (fst (m s)) = policy_decisions s) \<Longrightarrow> untouched.keeps m"
  by (rule untouched.keepsI)

lemma untouched_sessions: "untouched.keeps (insert_session P f sid ag cfg st)"
  unfolding insert_session_def by (rule untouched_same) (simp split: option.split)

lemma untouched_commit: "untouched.keeps (commit_budget_on_chain_execution P now sid d)"
  unfolding commit_budget_on_chain_execution_def
  by (intro untouched.keeps_intros untouched_same) (simp split: list.split)

lemma untouched_operations:
  "untouched.keeps (save_intent P h ag ac ch tok rec am mp mt ab dm pa idem)"
  "untouched.keeps (save_session_draft P sid ag cfg st)"
  "untouched.keeps (save_reservation P r sid h ag am st idem)" "untouched.keeps (update_reservation_status r st)"
  "untouched.keeps (save_user_op now u r sid st b)" "untouched.keeps (finalize_user_op now u tx bn st)"
  "untouched.keeps (save_receipt d h sid rh pl sg k)" "untouched.keeps (get_receipt d)" "untouched.keeps (get_allow_decision d)"
  "untouched.keeps (get_reservation_id_by_user_op u)" "untouched.keeps (get_reservation_id_by_idempotency k)"
  "untouched.keeps (bind_reservation_execution_digest r d)" "untouched.keeps get_watcher_block_cursor"
  "untouched.keeps (set_watcher_block_cursor blk h)"
  "untouched.keeps (record_chain_execution P now e)" "untouched.keeps (get_chain_execution_by_session_id P sid)"
  "untouched.keeps (get_session_reserve_snapshot P sid)" "untouched.keeps (mark_stale_user_ops now since)"
  unfolding save_intent_def save_session_draft_def save_reservation_def
    update_reservation_status_def save_user_op_def finalize_user_op_def save_receipt_def get_receipt_def
    get_allow_decision_def get_reservation_id_by_user_op_def get_reservation_id_by_idempotency_def
    bind_reservation_execution_digest_def get_watcher_block_cursor_def set_watcher_block_cursor_def
    record_chain_execution_def get_chain_execution_by_session_id_def get_session_reserve_snapshot_def
    mark_stale_user_ops_def
  by (intro untouched.keeps_intros untouched_commit untouched_sessions untouched_same;
      simp add: set_status_def Let_def split_beta split: option.split)+

lemma machine_authorize: "machine.keeps (authorize_session P d sid ag cfg)"
proof -
  have "machine.keeps (insert_session P (\<lambda>r. r) sid ag cfg st)" for st
    by (rule machine_untouched [OF safe_insert_session untouched_sessions]) simp_all
  then show ?thesis
    unfolding authorize_session_def by (intro machine.keeps_intros machine_consume)
qed

lemmas machine_operations =
  machine_untouched [OF safe_save_intent untouched_operations(1)]
  machine_untouched [OF safe_save_session_draft untouched_operations(2)]
  machine_untouched [OF safe_save_reservation untouched_operations(3)]
  machine_untouched [OF safe_update_reservation_status untouched_operations(4)]
  machine_untouched [OF safe_save_user_op untouched_operations(5)]
  machine_untouched [OF safe_finalize_user_op untouched_operations(6)]
  machine_untouched [OF safe_save_receipt untouched_operations(7)]
  machine_untouched [OF safe_get_receipt untouched_operations(8)]
  machine_untouched [OF safe_get_allow_decision untouched_operations(9)]
  machine_untouched [OF safe_queries(1) untouched_operations(10)]
  machine_untouched [OF safe_queries(2) untouched_operations(11)]
  machine_untouched [OF safe_bind_digest untouched_operations(12)]
  machine_untouched [OF safe_get_cursor untouched_operations(13)]
  machine_untouched [OF safe_set_cursor untouched_operations(14)]
  machine_untouched [OF safe_record_chain untouched_operations(15)]
  machine_untouched [OF safe_queries(3) untouched_operations(16)]
  machine_untouched [OF safe_queries(4) untouched_operations(17)]
  machine_untouched [OF safe_mark_stale untouched_operations(18)]
  machine_untouched [OF safe_commit_budget untouched_commit]
  machine_save_decision machine_authorize

lemma machine_repo_step: "repo_step (pg_repo P) s t \<Longrightarrow> machine_step s t"
  by (erule repo_stepE) (simp_all add: machine.keepsD machine_operations)

lemma machine_repo_run: "repo_run (pg_repo P) s t \<Longrightarrow> machine_step s t"
  by (induction rule: repo_run.induct) (auto intro: machine.rel_refl machine.rel_trans machine_repo_step)

section \<open>The refinement\<close>

lemma saved_Inr:
  assumes "save_decision d h dec rc ph s = (t, Inr ())"
  shows "phases s d = Absent" "phases t = (phases s)(d := if dec = ''ALLOW'' then Open else Blocked)"
proof -
  note row = stmt_Inr [OF assms [unfolded save_decision_def]]
  have new: "decision_of d s = None"
    using row by (auto simp: fresh_decision split: if_splits)
  then show "phases s d = Absent" by (simp add: phases_def)
  show "phases t = (phases s)(d := if dec = ''ALLOW'' then Open else Blocked)"
    using row new issued_phases [where s = "s\<lparr>db_faults := tl (db_faults s)\<rparr>"]
    by (auto split: if_splits)
qed

lemma allowed_phases: "db_allowed s d = Some q \<Longrightarrow> phases s d = Open \<or> (\<exists>sid. phases s d = Consumed sid)"
  by (auto simp: db_allowed_def phases_def split: option.splits if_splits)

lemma authorized_phases:
  assumes "db_ok s" and "authorize_session P d sid ag cfg s = (t, Inr ())"
  shows "phases s d \<in> {Open, Consumed sid}" "phases t = (phases s)(d := Consumed sid)"
proof -
  have "phases s d \<in> {Open, Consumed sid} \<and> phases t = (phases s)(d := Consumed sid)"
    using assms(2)
  proof (cases rule: authorize_Inr)
    case (again r)
    then have "phases s d = Consumed sid" by (simp add: phases_def)
    then show ?thesis using again(5) by (auto simp: fun_upd_idem)
  next
    case (now r s1 s2 f)
    then have s: "phases s d = Open"
      using decision_ok_of [OF assms(1)] by (auto simp: phases_def decision_ok_def)
    obtain f g n where "consume_decision d sid (s\<lparr>db_faults := f\<rparr>) = (s1\<lparr>db_faults := g\<rparr>, Inr n)"
      using now(8) by blast
    then have "phases s1 = phases s \<or> phases s1 = (phases s)(d := Consumed sid)"
      using consume_phases [of "s\<lparr>db_faults := f\<rparr>" d sid] assms(1) by auto
    moreover have "phases s1 d \<noteq> Open" using now(4) by (auto simp: phases_def db_consumer_def split: option.splits if_splits)
    ultimately have "phases s1 = (phases s)(d := Consumed sid)" using s by metis
    moreover have "phases t = phases s1"
      by (rule phases_cong) (use insert_session_frame [OF now(6)] now(7) in simp)
    ultimately show ?thesis using s by simp
  qed
  then show "phases s d \<in> {Open, Consumed sid}" "phases t = (phases s)(d := Consumed sid)"
    by (rule conjunct1, rule conjunct2)
qed

text \<open>
  C10: the store refines the machine of decisions: seen through \<open>phases\<close>, every run of its
  operations is a run of the machine, whatever the network loses; storing a decision that
  succeeds issues it, an authorization that succeeds consumes the decision by that session
  and moves no other (a repeated one moves nothing), and only an open or consumed decision is
  handed out as allowed.
\<close>

theorem store_refines_decision_machine:
  assumes "db_ok s"
  shows "(\<forall>t. repo_run (pg_repo P) s t \<longrightarrow> decision_run (phases s) (phases t)) \<and>
    (\<forall>t. save_decision d h dec rc ph s = (t, Inr ()) \<longrightarrow>
       phases s d = Absent \<and> phases t = (phases s)(d := if dec = ''ALLOW'' then Open else Blocked)) \<and>
    (\<forall>t. authorize_session P d sid ag cfg s = (t, Inr ()) \<longrightarrow>
       phases s d \<in> {Open, Consumed sid} \<and> phases t = (phases s)(d := Consumed sid)) \<and>
    (\<forall>t q. get_allow_decision d s = (t, Inr q) \<longrightarrow> phases s d = Open \<or> (\<exists>sid'. phases s d = Consumed sid'))"
proof (intro conjI allI impI)
  show "repo_run (pg_repo P) s t \<Longrightarrow> decision_run (phases s) (phases t)" for t
    using machine_repo_run assms by (auto simp: machine_step_def)
  show "phases s d = Absent" "phases t = (phases s)(d := if dec = ''ALLOW'' then Open else Blocked)"
    if "save_decision d h dec rc ph s = (t, Inr ())" for t
    by (rule saved_Inr [OF that])+
  show "phases s d \<in> {Open, Consumed sid}" "phases t = (phases s)(d := Consumed sid)"
    if "authorize_session P d sid ag cfg s = (t, Inr ())" for t
    by (rule authorized_phases [OF assms that])+
  show "phases s d = Open \<or> (\<exists>sid'. phases s d = Consumed sid')"
    if "get_allow_decision d s = (t, Inr q)" for t q
    by (rule allowed_phases [OF get_allow_Inr [OF that]])
qed

theorem store_refines_decision_machine_witness:
  "\<exists>t. save_decision ''d'' ''h'' ''ALLOW'' None ''p'' empty_db = (t, Inr ()) \<and>
     decision_run (phases empty_db) (phases t) \<and> phases t ''d'' = Open"
proof -
  let ?t = "fst (save_decision ''d'' ''h'' ''ALLOW'' None ''p'' empty_db)"
  have ok: "db_ok empty_db" by (simp add: db_ok_def empty_db_def decisions_ok_def)
  have saved: "save_decision ''d'' ''h'' ''ALLOW'' None ''p'' empty_db = (?t, Inr ())"
    by (simp add: save_decision_def stmt_healthy empty_db_def)
  have run: "repo_run (pg_repo sample_pg) empty_db ?t"
    using rr_step [OF rr_refl st_save_decision [of "pg_repo sample_pg" empty_db]] by simp
  note ref = store_refines_decision_machine [OF ok, of sample_pg "''d''" "''h''" "''ALLOW''" None "''p''"]
  have "decision_run (phases empty_db) (phases ?t)" using conjunct1 [OF ref] run by blast
  moreover have "phases ?t = (phases empty_db)(''d'' := Open)"
    using conjunct1 [OF conjunct2 [OF ref]] saved by force
  ultimately show ?thesis using saved by (intro exI [of _ ?t]) simp
qed

end
