(* ===== verification/Policy.thy ===== *)
theory Policy
  imports Go_Json Eth_Sample
begin

text \<open>
  \<open>internal/policy\<close>: the wrapper around the Open Policy Agent. The policy file and its
  evaluation are parameters (an engine); the model is what the code does with them: the
  normalisation of the input, the decoding of the result document and the fallback to BLOCK.
\<close>

section \<open>Input and result\<close>

record policy_input =
  pi_agent_id :: string
  pi_account :: string
  pi_chain_id :: int
  pi_token :: string
  pi_recipient :: string
  pi_amount_atomic :: string
  pi_allowed_target :: string
  pi_selector :: string
  pi_allow_batch :: "bool option"
  pi_is_batch :: bool
  pi_session_valid_now :: "bool option"
  pi_method :: string
  pi_domain :: string
  pi_path :: string
  pi_risk_score :: int
  pi_sanctions_hit :: bool
  pi_max_per_transfer :: string
  pi_max_total_spend :: string

record policy_result =
  pr_decision :: string
  pr_reason_codes :: "string list option"
  pr_policy_hash :: string

text \<open>
  \<open>pe_eval\<close> is the prepared query: for each result the values of its expressions, or an
  error. A value stands for its JSON text, the keys of an object in the order \<open>json.Marshal\<close>
  writes them (sorted); values of the policy engine always marshal.
\<close>

record engine =
  pe_policy :: string
  pe_eval :: "policy_input \<Rightarrow> json list list res"

text \<open>
  \<open>New\<close>: the policy file is read once, compiled, and kept for its hash. Reading a file and
  preparing the query of a module text are parameters.
\<close>

definition policy_new ::
    "(string \<Rightarrow> string res) \<Rightarrow> (string \<Rightarrow> (policy_input \<Rightarrow> json list list res) res) \<Rightarrow> string \<Rightarrow> engine res" where
  "policy_new read_file prepare path =
    (case read_file path of
       Inl err \<Rightarrow> Inl err
     | Inr policy \<Rightarrow>
         (case prepare policy of
            Inl err \<Rightarrow> Inl err
          | Inr query \<Rightarrow> Inr \<lparr>pe_policy = policy, pe_eval = query\<rparr>))"

definition policy_hash :: "eth \<Rightarrow> engine \<Rightarrow> string" where
  "policy_hash E e = ''0x'' @ hex_encode (sha256 E (pe_policy e))"

section \<open>Decoding the document\<close>

text \<open>
  \<open>json.Unmarshal\<close> into \<open>Result\<close>: keys in document order, each matched to a field exactly or
  else by case folding; \<open>null\<close> leaves a string alone and makes a slice nil; a value of the
  wrong type is an error, reported after the rest has been read.
\<close>

definition unmarshal_error :: go_error where
  "unmarshal_error = Err ''json: cannot unmarshal''"

definition field_of :: "ucase \<Rightarrow> string \<Rightarrow> string option" where
  "field_of uc key =
    (let names = [''decision'', ''reasonCodes'', ''policyHash''] in
     if key \<in> set names then Some key else find (\<lambda>n. equal_fold uc n key) names)"

primrec string_items :: "json list \<Rightarrow> string list option" where
  "string_items [] = Some []"
| "string_items (j # js) =
    (case (j, string_items js) of
       (JStr s, Some ss) \<Rightarrow> Some (s # ss)
     | (JNull, Some ss) \<Rightarrow> Some ('''' # ss)
     | _ \<Rightarrow> None)"

definition set_field :: "string \<Rightarrow> json \<Rightarrow> policy_result \<Rightarrow> policy_result res" where
  "set_field name v out =
    (case v of
       JNull \<Rightarrow> Inr (if name = ''reasonCodes'' then out\<lparr>pr_reason_codes := None\<rparr> else out)
     | JStr s \<Rightarrow>
         if name = ''decision'' then Inr (out\<lparr>pr_decision := s\<rparr>)
         else if name = ''policyHash'' then Inr (out\<lparr>pr_policy_hash := s\<rparr>)
         else Inl unmarshal_error
     | JArr js \<Rightarrow>
         if name = ''reasonCodes''
         then (case string_items js of None \<Rightarrow> Inl unmarshal_error
               | Some ss \<Rightarrow> Inr (out\<lparr>pr_reason_codes := Some ss\<rparr>))
         else Inl unmarshal_error
     | _ \<Rightarrow> Inl unmarshal_error)"

primrec decode_fields :: "ucase \<Rightarrow> (string \<times> json) list \<Rightarrow> policy_result \<Rightarrow> policy_result res" where
  "decode_fields uc [] out = Inr out"
| "decode_fields uc (kv # kvs) out =
    (case field_of uc (fst kv) of
       None \<Rightarrow> decode_fields uc kvs out
     | Some name \<Rightarrow>
         (case set_field name (snd kv) out of
            Inl e \<Rightarrow> Inl e
          | Inr out' \<Rightarrow> decode_fields uc kvs out'))"

definition zero_result :: policy_result where
  "zero_result = \<lparr>pr_decision = '''', pr_reason_codes = None, pr_policy_hash = ''''\<rparr>"

definition decode_result :: "ucase \<Rightarrow> json \<Rightarrow> policy_result res" where
  "decode_result uc doc =
    (case doc of
       JObj kvs \<Rightarrow> decode_fields uc kvs zero_result
     | JNull \<Rightarrow> Inr zero_result
     | _ \<Rightarrow> Inl unmarshal_error)"

section \<open>Evaluate\<close>

definition normalise :: "ucase \<Rightarrow> policy_input \<Rightarrow> policy_input" where
  "normalise uc i =
    i\<lparr>pi_agent_id := to_lower uc (trim_space (pi_agent_id i)),
      pi_account := to_lower uc (trim_space (pi_account i)),
      pi_token := to_lower uc (trim_space (pi_token i)),
      pi_recipient := to_lower uc (trim_space (pi_recipient i)),
      pi_domain := to_lower uc (trim_space (pi_domain i))\<rparr>"

definition evaluate :: "ucase \<Rightarrow> eth \<Rightarrow> engine \<Rightarrow> policy_input \<Rightarrow> policy_result res" where
  "evaluate uc E e inp =
    (case pe_eval e (normalise uc inp) of
       Inl err \<Rightarrow> Inl err
     | Inr [] \<Rightarrow> Inr \<lparr>pr_decision = ''BLOCK'', pr_reason_codes = Some [''POLICY_EMPTY''], pr_policy_hash = ''''\<rparr>
     | Inr ([] # _) \<Rightarrow> Inr \<lparr>pr_decision = ''BLOCK'', pr_reason_codes = Some [''POLICY_EMPTY''], pr_policy_hash = ''''\<rparr>
     | Inr ((doc # _) # _) \<Rightarrow>
         (case decode_result uc doc of
            Inl err \<Rightarrow> Inl err
          | Inr out \<Rightarrow>
              (let out = out\<lparr>pr_policy_hash := policy_hash E e\<rparr>;
                   d = to_upper uc (pr_decision out)
               in Inr (out\<lparr>pr_decision := (if d \<noteq> ''ALLOW'' \<and> d \<noteq> ''BLOCK'' then ''BLOCK'' else d)\<rparr>))))"

section \<open>Properties\<close>

text \<open>
  C22: the engine fails closed: whatever the policy returns, a result of \<open>Evaluate\<close> says ALLOW
  or BLOCK, and it says ALLOW only if the first value of the first result is an object whose
  decision, upper-cased, is ALLOW; then it carries the hash of the policy file.
\<close>

theorem policy_fails_closed:
  assumes "evaluate uc E e inp = Inr out"
  shows "pr_decision out \<in> {''ALLOW'', ''BLOCK''} \<and>
    (pr_decision out = ''ALLOW'' \<longrightarrow>
      (\<exists>kvs ds rs r. pe_eval e (normalise uc inp) = Inr ((JObj kvs # ds) # rs) \<and>
         decode_fields uc kvs zero_result = Inr r \<and> to_upper uc (pr_decision r) = ''ALLOW'' \<and>
         pr_policy_hash out = policy_hash E e))"
proof -
  have up: "to_upper uc '''' = ''''" by (simp add: to_upper_def)
  have doc: "\<exists>kvs. doc = JObj kvs \<and> (\<exists>r'. decode_fields uc kvs zero_result = Inr r' \<and> to_upper uc (pr_decision r') = ''ALLOW'')"
    if "decode_result uc doc = Inr r" "to_upper uc (pr_decision r) = ''ALLOW''" for doc r
    using that by (cases doc) (auto simp: decode_result_def zero_result_def up)
  show ?thesis
    using assms
    by (auto simp: evaluate_def Let_def split: sum.splits list.splits if_splits dest!: doc)
qed

definition sample_engine :: "(string \<times> json) list \<Rightarrow> engine" where
  "sample_engine kvs = \<lparr>pe_policy = ''policy'', pe_eval = (\<lambda>_. Inr [[JObj kvs]])\<rparr>"

definition sample_input :: policy_input where
  "sample_input =
    \<lparr>pi_agent_id = ''a'', pi_account = ''x'', pi_chain_id = 1, pi_token = ''t'', pi_recipient = ''r'',
     pi_amount_atomic = ''1'', pi_allowed_target = '''', pi_selector = '''', pi_allow_batch = None,
     pi_is_batch = False, pi_session_valid_now = None, pi_method = ''GET'', pi_domain = ''d'',
     pi_path = ''/'', pi_risk_score = 0, pi_sanctions_hit = False, pi_max_per_transfer = '''',
     pi_max_total_spend = ''''\<rparr>"

theorem policy_fails_closed_witness:
  "\<exists>out. evaluate plain_case sample_eth (sample_engine [(''decision'', JStr ''maybe'')]) sample_input = Inr out \<and>
     pr_decision out \<in> {''ALLOW'', ''BLOCK''}"
proof -
  have "\<exists>out. evaluate plain_case sample_eth (sample_engine [(''decision'', JStr ''maybe'')]) sample_input = Inr out"
    by (simp add: evaluate_def sample_engine_def decode_result_def field_of_def set_field_def Let_def)
  then show ?thesis using policy_fails_closed by blast
qed

lemma set_field_other:
  "set_field name v q = Inr q' \<Longrightarrow> name \<noteq> ''reasonCodes'' \<Longrightarrow> pr_reason_codes q' = pr_reason_codes q"
  by (auto simp: set_field_def split: json.splits if_splits)

text \<open>
  The reason codes of the policy never arrive: the policy document names them
  \<open>reason_codes\<close>, the decoder looks for \<open>reasonCodes\<close>, so for a document with no key that
  folds to \<open>reasonCodes\<close> the result carries none, whatever the policy said.
\<close>

theorem reason_codes_are_lost:
  assumes "pe_eval e (normalise uc inp) = Inr ((JObj kvs # ds) # rs)"
    and "\<forall>kv \<in> set kvs. fst kv \<noteq> ''reasonCodes'' \<and> \<not> equal_fold uc ''reasonCodes'' (fst kv)"
    and "evaluate uc E e inp = Inr out"
  shows "pr_reason_codes out = None"
proof -
  have field: "field_of uc (fst kv) \<noteq> Some ''reasonCodes''" if "kv \<in> set kvs" for kv
    using assms(2) that by (auto simp: field_of_def Let_def)
  have "decode_fields uc kvs r = Inr r' \<Longrightarrow> pr_reason_codes r = None \<Longrightarrow> pr_reason_codes r' = None" for r r'
    using field
  proof (induction kvs arbitrary: r)
    case (Cons kv kvs)
    show ?case
    proof (cases "field_of uc (fst kv)")
      case None
      then show ?thesis using Cons by simp
    next
      case (Some name)
      then obtain q where q: "set_field name (snd kv) r = Inr q" "decode_fields uc kvs q = Inr r'"
        using Cons.prems(1) by (auto split: sum.splits)
      have "name \<noteq> ''reasonCodes''" using Cons.prems(3) Some by fastforce
      then have "pr_reason_codes q = None" using set_field_other [OF q(1)] Cons.prems(2) by simp
      then show ?thesis using Cons.IH [OF q(2)] Cons.prems(3) by simp
    qed
  qed simp
  then show ?thesis
    using assms(1,3)
    by (auto simp: evaluate_def decode_result_def zero_result_def Let_def split: sum.splits)
qed

theorem reason_codes_are_lost_witness:
  "\<exists>out. evaluate plain_case sample_eth (sample_engine
       [(''decision'', JStr ''BLOCK''), (''reason_codes'', JArr [JStr ''SANCTIONS_HIT''])]) sample_input = Inr out \<and>
     pr_reason_codes out = None"
proof -
  let ?e = "sample_engine [(''decision'', JStr ''BLOCK''), (''reason_codes'', JArr [JStr ''SANCTIONS_HIT''])]"
  have "\<not> equal_fold plain_case ''reasonCodes'' ''decision''" "\<not> equal_fold plain_case ''reasonCodes'' ''reason_codes''"
    by (simp_all add: equal_fold_def runes_ascii fold_rune_def lower_byte_def plain_case_def)
  note folds = this
  have other: "\<not> equal_fold plain_case ''decision'' ''reason_codes''"
    "\<not> equal_fold plain_case ''policyHash'' ''reason_codes''"
    by (simp_all add: equal_fold_def runes_ascii fold_rune_def lower_byte_def plain_case_def)
  have "field_of plain_case ''decision'' = Some ''decision''" "field_of plain_case ''reason_codes'' = None"
    using folds other by (simp_all add: field_of_def Let_def)
  then have "\<exists>out. evaluate plain_case sample_eth ?e sample_input = Inr out"
    by (simp add: evaluate_def sample_engine_def decode_result_def set_field_def Let_def)
  then obtain out where out: "evaluate plain_case sample_eth ?e sample_input = Inr out" by blast
  have "pr_reason_codes out = None"
    using folds by (intro reason_codes_are_lost [OF _ _ out]) (auto simp: sample_engine_def)
  then show ?thesis using out by blast
qed

end
