(* ===== verification/Receipt.thy ===== *)
theory Receipt
  imports Go_Json Eth_Sample
begin

text \<open>
  \<open>internal/receipt\<close>: the audit receipt of a decision, its hash and its signature. A
  receipt is checked by hashing its payload again, so what matters is that the hash covers
  every field and that the signature is over that hash.
\<close>

section \<open>Payload\<close>

record payload =
  py_receipt_version :: string
  py_decision_id :: string
  py_decision :: string
  py_reason_codes :: "string list option"
  py_agent_id :: string
  py_intent_hash :: string
  py_policy_hash :: string
  py_session_id :: string
  py_nonce_key :: string
  py_chain_id :: int
  py_token :: string
  py_recipient :: string
  py_amount_atomic :: string
  py_allow_batch :: bool
  py_valid_until :: int
  py_signer_key_id :: string
  py_created_at :: string

record signed =
  sg_payload :: payload
  sg_receipt_hash :: string
  sg_signature :: string

record signer =
  sn_key_id :: string
  sn_private_key :: string

text \<open>\<open>omitempty\<close> leaves a zero field out; a nil slice marshals as \<open>null\<close>.\<close>

definition omit_str :: "string \<Rightarrow> string \<Rightarrow> (string \<times> json) list" where
  "omit_str k s = (if s = '''' then [] else [(k, JStr s)])"

definition omit_int :: "string \<Rightarrow> int \<Rightarrow> (string \<times> json) list" where
  "omit_int k i = (if i = 0 then [] else [(k, JNum i)])"

definition slice_json :: "string list option \<Rightarrow> json" where
  "slice_json xs = (case xs of None \<Rightarrow> JNull | Some ss \<Rightarrow> JArr (map JStr ss))"

definition payload_json :: "payload \<Rightarrow> json" where
  "payload_json p = JObj (
     [(''receiptVersion'', JStr (py_receipt_version p)),
      (''decisionId'', JStr (py_decision_id p)),
      (''decision'', JStr (py_decision p)),
      (''reasonCodes'', slice_json (py_reason_codes p)),
      (''agentId'', JStr (py_agent_id p)),
      (''intentHash'', JStr (py_intent_hash p)),
      (''policyHash'', JStr (py_policy_hash p))] @
     omit_str ''sessionId'' (py_session_id p) @
     omit_str ''nonceKey'' (py_nonce_key p) @
     [(''chainId'', JNum (py_chain_id p)),
      (''token'', JStr (py_token p)),
      (''recipient'', JStr (py_recipient p)),
      (''amountAtomic'', JStr (py_amount_atomic p)),
      (''allowBatch'', JBool (py_allow_batch p))] @
     omit_int ''validUntil'' (py_valid_until p) @
     [(''signerKeyID'', JStr (py_signer_key_id p)),
      (''createdAt'', JStr (py_created_at p))])"

definition payload_text :: "payload \<Rightarrow> string" where
  "payload_text p = json_marshal (payload_json p)"

section \<open>Signing\<close>

text \<open>\<open>b[i] += n\<close> on a byte slice; out of range panics.\<close>

definition add_at :: "nat \<Rightarrow> u8 \<Rightarrow> string \<Rightarrow> string outcome" where
  "add_at i n b =
    (if length b \<le> i then Panics ''index out of range''
     else Done (b[i := char_of (unat (of_nat (of_char (b ! i)) + n))]))"

definition sign_hash :: "eth \<Rightarrow> string \<Rightarrow> string \<Rightarrow> string outcome" where
  "sign_hash E key digest =
    bind_outcome (outcome_of_res (ecdsa_sign E digest key)) (\<lambda>sig.
      if length sig \<le> 64 then Panics ''index out of range''
      else if (of_nat (of_char (sig ! 64)) :: u8) < 27 then add_at 64 27 sig
      else Done sig)"

definition hash_string :: "eth \<Rightarrow> payload \<Rightarrow> string res" where
  "hash_string E p = Inr (''0x'' @ hex_encode (sha256 E (payload_text p)))"

text \<open>\<open>now\<close> is the formatted UTC time of the call.\<close>

definition stamp :: "string \<Rightarrow> signer \<Rightarrow> payload \<Rightarrow> payload" where
  "stamp now s p =
    (let p = p\<lparr>py_receipt_version := ''railguard.v1'', py_signer_key_id := sn_key_id s\<rparr>
     in if py_created_at p = '''' then p\<lparr>py_created_at := now\<rparr> else p)"

definition sign :: "eth \<Rightarrow> string \<Rightarrow> signer \<Rightarrow> payload \<Rightarrow> signed outcome" where
  "sign E now s p =
    (let p = stamp now s p;
         sum = sha256 E (payload_text p);
         hash = ''0x'' @ hex_encode sum
     in bind_outcome (outcome_of_res (hex_to_ecdsa E (trim_prefix (sn_private_key s) ''0x''))) (\<lambda>key.
        bind_outcome (sign_hash E key sum) (\<lambda>sig.
        Done \<lparr>sg_payload = p, sg_receipt_hash = hash, sg_signature = ''0x'' @ hex_encode sig\<rparr>)))"

definition validate_private_key :: "eth \<Rightarrow> string \<Rightarrow> unit res" where
  "validate_private_key E hexKey =
    (if hexKey = '''' then Inl (Err ''missing receipt signer key'')
     else (case hex_to_ecdsa E (trim_prefix hexKey ''0x'') of Inl e \<Rightarrow> Inl e | Inr _ \<Rightarrow> Inr ()))"

section \<open>The text of a payload determines it\<close>

definition same_codes :: "string list option \<Rightarrow> string list option \<Rightarrow> bool" where
  "same_codes a b = rel_option (list_all2 same_text) a b"

definition same_payload :: "payload \<Rightarrow> payload \<Rightarrow> bool" where
  "same_payload a b \<longleftrightarrow>
     same_text (py_receipt_version a) (py_receipt_version b) \<and>
     same_text (py_decision_id a) (py_decision_id b) \<and>
     same_text (py_decision a) (py_decision b) \<and>
     same_codes (py_reason_codes a) (py_reason_codes b) \<and>
     same_text (py_agent_id a) (py_agent_id b) \<and>
     same_text (py_intent_hash a) (py_intent_hash b) \<and>
     same_text (py_policy_hash a) (py_policy_hash b) \<and>
     same_text (py_session_id a) (py_session_id b) \<and>
     same_text (py_nonce_key a) (py_nonce_key b) \<and>
     py_chain_id a = py_chain_id b \<and>
     same_text (py_token a) (py_token b) \<and>
     same_text (py_recipient a) (py_recipient b) \<and>
     same_text (py_amount_atomic a) (py_amount_atomic b) \<and>
     py_allow_batch a = py_allow_batch b \<and>
     py_valid_until a = py_valid_until b \<and>
     same_text (py_signer_key_id a) (py_signer_key_id b) \<and>
     same_text (py_created_at a) (py_created_at b)"

lemma slice_json_same: "json_same (slice_json a) (slice_json b) \<longleftrightarrow> same_codes a b"
  by (auto simp: slice_json_def same_codes_def list_all2_map1 list_all2_map2 split: option.splits)

lemma keys_differ:
  "\<not> same_text ''sessionId'' ''nonceKey''" "\<not> same_text ''nonceKey'' ''sessionId''"
  "\<not> same_text ''sessionId'' ''chainId''" "\<not> same_text ''chainId'' ''sessionId''"
  "\<not> same_text ''nonceKey'' ''chainId''" "\<not> same_text ''chainId'' ''nonceKey''"
  "\<not> same_text ''validUntil'' ''signerKeyID''" "\<not> same_text ''signerKeyID'' ''validUntil''"
  by (simp_all add: same_text_def runes_ascii)

lemma payload_json_same: "json_same (payload_json a) (payload_json b) \<Longrightarrow> same_payload a b"
  by (simp add: payload_json_def omit_str_def omit_int_def same_payload_def slice_json_same keys_differ
      split: if_splits)

lemma payload_text_inject: "payload_text a = payload_text b \<Longrightarrow> same_payload a b"
  by (auto simp: payload_text_def intro: payload_json_same json_marshal_inject)

section \<open>Properties\<close>

lemma add_at_27:
  assumes "64 < length b"
  shows "add_at 64 27 b = Done (b[64 := char_of (unat (of_nat (of_char (b ! 64)) + (27 :: u8)))])"
  using assms by (simp add: add_at_def)

lemma sign_Done:
  assumes "sign E now s p = Done g"
  obtains key raw sig where "hex_to_ecdsa E (trim_prefix (sn_private_key s) ''0x'') = Inr key"
    and "ecdsa_sign E (sha256 E (payload_text (stamp now s p))) key = Inr raw" and "64 < length raw"
    and "sign_hash E key (sha256 E (payload_text (stamp now s p))) = Done sig"
    and "g = \<lparr>sg_payload = stamp now s p,
      sg_receipt_hash = ''0x'' @ hex_encode (sha256 E (payload_text (stamp now s p))),
      sg_signature = ''0x'' @ hex_encode sig\<rparr>"
proof -
  obtain key sig where *: "hex_to_ecdsa E (trim_prefix (sn_private_key s) ''0x'') = Inr key"
    "sign_hash E key (sha256 E (payload_text (stamp now s p))) = Done sig"
    "g = \<lparr>sg_payload = stamp now s p,
      sg_receipt_hash = ''0x'' @ hex_encode (sha256 E (payload_text (stamp now s p))),
      sg_signature = ''0x'' @ hex_encode sig\<rparr>"
    using assms by (auto simp: sign_def Let_def bind_outcome_Done)
  then obtain raw where "ecdsa_sign E (sha256 E (payload_text (stamp now s p))) key = Inr raw" "64 < length raw"
    by (auto simp: sign_hash_def bind_outcome_Done split: if_splits)
  then show thesis using that * by blast
qed

lemma sign_receipt_hash:
  assumes "sign E now s p = Done g"
  shows "sg_receipt_hash g = ''0x'' @ hex_encode (sha256 E (payload_text (sg_payload g)))"
  by (rule sign_Done [OF assms]) simp

text \<open>The recovery byte is 27 or more, and only that byte is changed.\<close>

lemma sign_hash_sig:
  assumes "ecdsa_sign E digest key = Inr raw" "64 < length raw"
  shows "sign_hash E key digest = Done (raw[64 := (if (of_nat (of_char (raw ! 64)) :: u8) < 27
    then char_of (unat (of_nat (of_char (raw ! 64)) + (27 :: u8))) else raw ! 64)])"
  using assms by (simp add: sign_hash_def add_at_27)

definition sample_signer :: signer where
  "sample_signer = \<lparr>sn_key_id = ''key-1'', sn_private_key = ''0xk''\<rparr>"

definition sample_payload :: payload where
  "sample_payload =
    \<lparr>py_receipt_version = '''', py_decision_id = ''d1'', py_decision = ''ALLOW'', py_reason_codes = None,
     py_agent_id = ''a'', py_intent_hash = ''0x1'', py_policy_hash = ''0x2'', py_session_id = '''',
     py_nonce_key = '''', py_chain_id = 1, py_token = ''t'', py_recipient = ''r'', py_amount_atomic = ''5'',
     py_allow_batch = False, py_valid_until = 0, py_signer_key_id = '''', py_created_at = ''''\<rparr>"

lemma sample_signs: "\<exists>g. sign sample_eth now sample_signer p = Done g"
proof -
  have "ecdsa_sign sample_eth d k = Inr (fixed_length 65 (k @ d))" for d k by (simp add: sample_eth_def)
  moreover have "hex_to_ecdsa sample_eth (trim_prefix (sn_private_key sample_signer) s) = Inr (trim_prefix (sn_private_key sample_signer) s)" for s
    by (simp add: sample_eth_def)
  ultimately show ?thesis by (simp add: sign_def Let_def sign_hash_sig)
qed

text \<open>
  A receipt verifies: hashing the payload of a signed receipt gives the receipt hash; the
  payload is the given one with version, key identifier and creation time filled in; and the
  signature is the signer's ECDSA signature of that hash with, at most, the recovery byte
  raised by 27.
\<close>

theorem receipt_verifies:
  assumes "sign E now s p = Done g"
  shows "hash_string E (sg_payload g) = Inr (sg_receipt_hash g) \<and>
    sg_payload g = p\<lparr>py_receipt_version := ''railguard.v1'', py_signer_key_id := sn_key_id s,
      py_created_at := (if py_created_at p = '''' then now else py_created_at p)\<rparr> \<and>
    (\<exists>digest key raw v. sg_receipt_hash g = ''0x'' @ hex_encode digest \<and>
       hex_to_ecdsa E (trim_prefix (sn_private_key s) ''0x'') = Inr key \<and>
       ecdsa_sign E digest key = Inr raw \<and> sg_signature g = ''0x'' @ hex_encode (raw[64 := v]) \<and>
       (of_char (raw ! 64) \<in> {0, 1 :: nat} \<longrightarrow> of_char v \<in> {27, 28 :: nat}))"
proof -
  obtain key raw sig where *: "hex_to_ecdsa E (trim_prefix (sn_private_key s) ''0x'') = Inr key"
    "ecdsa_sign E (sha256 E (payload_text (stamp now s p))) key = Inr raw" "64 < length raw"
    "sign_hash E key (sha256 E (payload_text (stamp now s p))) = Done sig"
    "g = \<lparr>sg_payload = stamp now s p,
      sg_receipt_hash = ''0x'' @ hex_encode (sha256 E (payload_text (stamp now s p))),
      sg_signature = ''0x'' @ hex_encode sig\<rparr>"
    using sign_Done [OF assms] by blast
  define v where "v = (if (of_nat (of_char (raw ! 64)) :: u8) < 27
    then char_of (unat (of_nat (of_char (raw ! 64)) + (27 :: u8))) else raw ! 64)"
  have "sig = raw[64 := v]" using * sign_hash_sig [OF *(2,3)] by (simp add: v_def)
  moreover have "of_char (raw ! 64) \<in> {0, 1 :: nat} \<Longrightarrow> of_char v \<in> {27, 28 :: nat}"
    by (auto simp: v_def)
  moreover have "stamp now s p = p\<lparr>py_receipt_version := ''railguard.v1'', py_signer_key_id := sn_key_id s,
      py_created_at := (if py_created_at p = '''' then now else py_created_at p)\<rparr>"
    by (simp add: stamp_def Let_def)
  ultimately show ?thesis using *(1,2,5) unfolding hash_string_def
    by (intro conjI exI [of _ "sha256 E (payload_text (stamp now s p))"] exI [of _ key] exI [of _ raw]
        exI [of _ v]) simp_all
qed

theorem receipt_verifies_witness:
  "\<exists>g. sign sample_eth ''2026-01-01T00:00:00Z'' sample_signer sample_payload = Done g \<and>
     hash_string sample_eth (sg_payload g) = Inr (sg_receipt_hash g) \<and>
     py_created_at (sg_payload g) = ''2026-01-01T00:00:00Z''"
proof -
  obtain g where g: "sign sample_eth ''2026-01-01T00:00:00Z'' sample_signer sample_payload = Done g"
    using sample_signs by blast
  then show ?thesis
    using receipt_verifies [OF g] by (auto simp: sample_payload_def)
qed

text \<open>
  Every key the start-up check accepts signs: where the crypto library returns signatures
  of 65 bytes for the 32-byte digests it is given, \<open>Sign\<close> neither fails nor panics.
\<close>

theorem accepted_key_signs:
  assumes "validate_private_key E (sn_private_key s) = Inr ()"
    and "\<And>text key. \<exists>sig. ecdsa_sign E (sha256 E text) key = Inr sig \<and> length sig = 65"
  shows "\<exists>g. sign E now s p = Done g"
proof -
  obtain key where key: "hex_to_ecdsa E (trim_prefix (sn_private_key s) ''0x'') = Inr key"
    using assms(1) by (auto simp: validate_private_key_def split: if_splits sum.splits)
  obtain sig where sig: "ecdsa_sign E (sha256 E (payload_text (stamp now s p))) key = Inr sig" "length sig = 65"
    using assms(2) by blast
  then show ?thesis using key by (simp add: sign_def Let_def sign_hash_sig)
qed

theorem accepted_key_signs_witness:
  "\<exists>g. sign sample_eth ''now'' sample_signer sample_payload = Done g"
  by (rule accepted_key_signs) (simp_all add: validate_private_key_def sample_signer_def sample_eth_def)

text \<open>
  C20: a receipt hash binds the receipt: two receipts with one hash, where SHA-256 does not
  collide on their texts, agree in every field of the payload, present or omitted.
\<close>

theorem receipt_hash_binds:
  assumes "sign E now s p = Done g" and "sign E now' s' p' = Done g'"
    and "sg_receipt_hash g = sg_receipt_hash g'"
    and "inj_on (sha256 E) {payload_text (sg_payload g), payload_text (sg_payload g')}"
  shows "same_payload (sg_payload g) (sg_payload g')"
proof -
  have "hex_encode (sha256 E (payload_text (sg_payload g))) =
      hex_encode (sha256 E (payload_text (sg_payload g')))"
    using assms(3) sign_receipt_hash [OF assms(1)] sign_receipt_hash [OF assms(2)] by simp
  then have "sha256 E (payload_text (sg_payload g)) = sha256 E (payload_text (sg_payload g'))"
    by (rule hex_encode_inject)
  then have "payload_text (sg_payload g) = payload_text (sg_payload g')"
    by (rule inj_onD [OF assms(4)]) simp_all
  then show ?thesis by (rule payload_text_inject)
qed

theorem receipt_hash_binds_witness:
  "\<exists>g g'. sign sample_eth ''now'' sample_signer sample_payload = Done g \<and>
     sign sample_eth ''later'' sample_signer (sample_payload\<lparr>py_created_at := ''now''\<rparr>) = Done g' \<and>
     same_payload (sg_payload g) (sg_payload g')"
proof -
  let ?p = "sample_payload\<lparr>py_created_at := ''now''\<rparr>"
  obtain g g' where g: "sign sample_eth ''now'' sample_signer sample_payload = Done g"
    "sign sample_eth ''later'' sample_signer ?p = Done g'"
    using sample_signs by blast
  have "stamp ''now'' sample_signer sample_payload = stamp ''later'' sample_signer ?p"
    by (simp add: stamp_def sample_payload_def)
  then have pay: "sg_payload g = sg_payload g'"
    using sign_Done [OF g(1)] sign_Done [OF g(2)] by (metis signed.select_convs(1))
  then have "sg_receipt_hash g = sg_receipt_hash g'"
    using sign_receipt_hash [OF g(1)] sign_receipt_hash [OF g(2)] by simp
  then have "same_payload (sg_payload g) (sg_payload g')"
    by (rule receipt_hash_binds [OF g]) (simp add: pay)
  with g show ?thesis by blast
qed

end
