(* ===== verification/Eip712.thy ===== *)
theory Eip712
  imports Session Receipt
begin

text \<open>
  \<open>internal/eip712\<close>: the typed data of a session authorization and the service's signature
  over its digest. The hash of typed data is \<open>go-ethereum\<close>'s, so it is a parameter; what is
  modelled is the document handed to it, the panics and the recovery byte.
\<close>

section \<open>The document\<close>

definition session_auth_type :: string where
  "session_auth_type =
    ''SessionAuthorization(address account,uint192 nonceKey,address sessionKey,address token,'' @
    ''address allowedTarget,address allowedRecipient,bytes4 allowedSelector,uint256 maxPerTransfer,'' @
    ''uint256 maxTotalSpend,uint48 validAfter,uint48 validUntil,bool allowBatch,bytes32 policyHash)''"

record railguard_signer =
  rg_chain_id :: int
  rg_adapter_address :: string
  rg_signer_key :: string

definition domain_fields :: "(string \<times> string) list" where
  "domain_fields =
    [(''name'', ''string''), (''version'', ''string''), (''chainId'', ''uint256''),
     (''verifyingContract'', ''address'')]"

definition authorization_fields :: "(string \<times> string) list" where
  "authorization_fields =
    [(''account'', ''address''), (''nonceKey'', ''uint192''), (''sessionKey'', ''address''),
     (''token'', ''address''), (''allowedTarget'', ''address''), (''allowedRecipient'', ''address''),
     (''allowedSelector'', ''bytes4''), (''maxPerTransfer'', ''uint256''), (''maxTotalSpend'', ''uint256''),
     (''validAfter'', ''uint48''), (''validUntil'', ''uint48''), (''allowBatch'', ''bool''),
     (''policyHash'', ''bytes32'')]"

text \<open>A nonce key \<open>ParseBig256\<close> rejects leaves a nil integer; \<open>MustDecode\<close> panics.\<close>

definition message_of :: "eth \<Rightarrow> session_config \<Rightarrow> string \<Rightarrow> (string \<times> td_value) list" where
  "message_of E cfg selector =
    [(''account'', TD_String (sc_account cfg)),
     (''nonceKey'', TD_Int (parse_big256 E (sc_nonce_key cfg))),
     (''sessionKey'', TD_String (sc_session_key cfg)),
     (''token'', TD_String (sc_token cfg)),
     (''allowedTarget'',
       TD_String (if sc_allowed_target cfg \<noteq> '''' then sc_allowed_target cfg else sc_token cfg)),
     (''allowedRecipient'', TD_String (sc_allowed_recipient cfg)),
     (''allowedSelector'', TD_Bytes selector),
     (''maxPerTransfer'', TD_String (sc_max_per_transfer cfg)),
     (''maxTotalSpend'', TD_String (sc_max_total_spend cfg)),
     (''validAfter'', TD_Int (Some (sc_valid_after cfg))),
     (''validUntil'', TD_Int (Some (sc_valid_until cfg))),
     (''allowBatch'', TD_Bool (sc_allow_batch cfg)),
     (''policyHash'', TD_Bytes (hex_to_hash E (sc_policy_hash cfg)))]"

definition typed_data_of :: "eth \<Rightarrow> railguard_signer \<Rightarrow> session_config \<Rightarrow> typed_data outcome" where
  "typed_data_of E s cfg =
    (case hexutil_decode E (sc_allowed_selector cfg) of
       Inl e \<Rightarrow> Panics (message e)
     | Inr selector \<Rightarrow> Done
         \<lparr>td_types = [(''EIP712Domain'', domain_fields), (''SessionAuthorization'', authorization_fields)],
          td_primary_type = ''SessionAuthorization'',
          td_domain_of = \<lparr>td_name = ''Railguard'', td_version = ''1'', td_chain_id = rg_chain_id s,
            td_verifying_contract = rg_adapter_address s\<rparr>,
          td_message = message_of E cfg selector\<rparr>)"

section \<open>Hash and signature\<close>

text \<open>\<open>BytesToHash\<close>: the last 32 bytes, padded with zeros on the left.\<close>

definition bytes_to_hash :: "string \<Rightarrow> string" where
  "bytes_to_hash b =
    (let b = drop (length b - 32) b in replicate (32 - length b) (CHR 0x00) @ b)"

definition authorization_hash :: "eth \<Rightarrow> railguard_signer \<Rightarrow> session_config \<Rightarrow> string outcome" where
  "authorization_hash E s cfg =
    bind_outcome (typed_data_of E s cfg) (\<lambda>td.
    bind_outcome (outcome_of_res (typed_data_hash E td)) (\<lambda>b. Done (bytes_to_hash b)))"

definition sign_railguard ::
    "eth \<Rightarrow> railguard_signer \<Rightarrow> session_config \<Rightarrow> (string \<times> string) outcome" where
  "sign_railguard E s cfg =
    (if rg_signer_key s = '''' then Fails (Err ''railguard signer key not configured'')
     else bind_outcome (authorization_hash E s cfg) (\<lambda>digest.
          bind_outcome (outcome_of_res (hex_to_ecdsa E (trim_prefix (rg_signer_key s) ''0x''))) (\<lambda>key.
          bind_outcome (outcome_of_res (ecdsa_sign E digest key)) (\<lambda>sig.
          bind_outcome (add_at 64 27 sig) (\<lambda>sig'. Done (digest, sig'))))))"

definition type_hash :: "eth \<Rightarrow> string" where
  "type_hash E = keccak256 E session_auth_type"

section \<open>The type string\<close>

text \<open>
  EIP-712's \<open>encodeType\<close> for a type whose members are atomic: the name, then the members in
  parentheses, type before name.
\<close>

definition encode_type :: "string \<Rightarrow> (string \<times> string) list \<Rightarrow> string" where
  "encode_type name fs =
    name @ ''('' @ join '','' (map (\<lambda>(field, ty). ty @ '' '' @ field) fs) @ '')''"

text \<open>
  The type string that \<open>TypeHash\<close> hashes is the EIP-712 encoding of the field table that
  \<open>TypedData\<close> hands to the hash, and the message has exactly one value for each field, in
  the order of the table.
\<close>

theorem type_hash_matches_table:
  "type_hash E = keccak256 E (encode_type ''SessionAuthorization'' authorization_fields) \<and>
   map fst (message_of E cfg selector) = map fst authorization_fields"
proof -
  have "session_auth_type = encode_type ''SessionAuthorization'' authorization_fields" by code_simp
  moreover have "map fst (message_of E cfg selector) = map fst authorization_fields"
    by (simp add: message_of_def authorization_fields_def)
  ultimately show ?thesis by (simp add: type_hash_def)
qed

section \<open>Signing\<close>

lemma typed_data_of_Done:
  "typed_data_of E s cfg = Done td \<longleftrightarrow>
     (\<exists>selector. hexutil_decode E (sc_allowed_selector cfg) = Inr selector \<and>
        td = \<lparr>td_types = [(''EIP712Domain'', domain_fields), (''SessionAuthorization'', authorization_fields)],
          td_primary_type = ''SessionAuthorization'',
          td_domain_of = \<lparr>td_name = ''Railguard'', td_version = ''1'', td_chain_id = rg_chain_id s,
            td_verifying_contract = rg_adapter_address s\<rparr>,
          td_message = message_of E cfg selector\<rparr>)"
  by (auto simp: typed_data_of_def split: sum.splits)

lemma typed_data_message:
  assumes "typed_data_of E s cfg = Done td"
  shows "\<exists>sel. hexutil_decode E (sc_allowed_selector cfg) = Inr sel \<and> td_message td = message_of E cfg sel"
proof -
  obtain sel where sel: "hexutil_decode E (sc_allowed_selector cfg) = Inr sel"
    using assms by (cases "hexutil_decode E (sc_allowed_selector cfg)") (simp_all add: typed_data_of_def)
  with assms have "td_message td = message_of E cfg sel"
    by (simp add: typed_data_of_def) (drule arg_cong [of _ _ td_message], simp)
  with sel show ?thesis by blast
qed

lemma length_bytes_to_hash [simp]: "length (bytes_to_hash b) = 32"
  by (simp add: bytes_to_hash_def Let_def)

lemma bytes_to_hash_id: "length b = 32 \<Longrightarrow> bytes_to_hash b = b"
  by (simp add: bytes_to_hash_def)

lemma sign_railguard_Done:
  "sign_railguard E s cfg = Done (digest, sig) \<longleftrightarrow>
     rg_signer_key s \<noteq> '''' \<and> authorization_hash E s cfg = Done digest \<and>
     (\<exists>key raw. hex_to_ecdsa E (trim_prefix (rg_signer_key s) ''0x'') = Inr key \<and>
        ecdsa_sign E digest key = Inr raw \<and> add_at 64 27 raw = Done sig)"
  by (auto simp: sign_railguard_def bind_outcome_Done)

text \<open>
  The two signers of the service agree on the recovery byte exactly while the library
  returns it raw: with one key and one digest, the signature of an authorization is what the
  receipt signer would produce if the raw byte is below 27, and is different if it is not.
\<close>

theorem signers_agree_iff:
  assumes "sign_railguard E s cfg = Done (digest, sig)"
    and "hex_to_ecdsa E (trim_prefix (rg_signer_key s) ''0x'') = Inr key"
    and "ecdsa_sign E digest key = Inr raw"
  shows "sign_hash E key digest = Done sig \<longleftrightarrow> (of_char (raw ! 64) :: nat) < 27"
proof -
  have sig: "add_at 64 27 raw = Done sig" using assms by (auto simp: sign_railguard_Done)
  then have len: "64 < length raw" by (auto simp: add_at_def split: if_splits)
  let ?v = "of_nat (of_char (raw ! 64)) :: u8"
  have v: "unat ?v = of_char (raw ! 64)"
    using nat_of_char_less_256 [of "raw ! 64"] by (simp add: unat_of_nat)
  have less: "?v < 27 \<longleftrightarrow> (of_char (raw ! 64) :: nat) < 27"
    by (simp add: word_less_nat_alt v)
  have differ: "char_of (unat (?v + 27)) \<noteq> raw ! 64"
  proof
    assume "char_of (unat (?v + 27)) = raw ! 64"
    then have "(of_char (char_of (unat (?v + 27))) :: nat) = unat ?v" by (simp only: v)
    moreover have "unat (?v + 27) < 256" using unsigned_less [of "?v + 27"] by simp
    ultimately have "unat (?v + 27) = unat ?v" by simp
    then have "?v + 27 = ?v" by (rule unsigned_word_eqI)
    then show False by simp
  qed
  have "sig = raw[64 := char_of (unat (?v + 27))]"
    using sig add_at_27 [OF len] by simp
  moreover have "raw[64 := char_of (unat (?v + 27))] \<noteq> raw"
    using differ len by (metis nth_list_update_eq)
  ultimately show ?thesis
    using assms(3) len by (auto simp: sign_hash_def add_at_27 less [symmetric])
qed

section \<open>The authorization determines the session\<close>

text \<open>
  What the document relies on: a \<open>0x\<close> hex string decodes to the bytes \<open>hex\<close> reads after the
  prefix, and a decimal nonce key below \<open>2 ^ 256\<close> has one value for both parsers.
\<close>

definition decoders_agree :: "eth \<Rightarrow> session_config \<Rightarrow> bool" where
  "decoders_agree E cfg \<longleftrightarrow>
     (\<forall>b. hexutil_decode E (sc_allowed_selector cfg) = Inr b \<longrightarrow>
        hex_decode (trim_prefix (sc_allowed_selector cfg) ''0x'') = Inr b) \<and>
     parse_big256 E (sc_nonce_key cfg) = set_string (sc_nonce_key cfg)"

lemma same_message_same_session:
  assumes "message_of E a sel = message_of E b sel'" "sc_chain_id a = sc_chain_id b"
    and "sc_adapter_address a = sc_adapter_address b"
    and "hexutil_decode E (sc_allowed_selector a) = Inr sel" "hexutil_decode E (sc_allowed_selector b) = Inr sel'"
    and "decoders_agree E a" "decoders_agree E b"
  shows "on_chain E a = on_chain E b"
proof -
  have "sel = sel'" "set_string (sc_nonce_key a) = set_string (sc_nonce_key b)"
    using assms(1,6,7) by (simp_all add: message_of_def decoders_agree_def)
  moreover have "must_selector (sc_allowed_selector a) = must_selector (sc_allowed_selector b)"
    using assms(4-7) \<open>sel = sel'\<close> by (simp add: must_selector_def decoders_agree_def)
  moreover have "(if sc_allowed_target a = '''' then sc_token a else sc_allowed_target a) =
      (if sc_allowed_target b = '''' then sc_token b else sc_allowed_target b)"
    using assms(1) by (auto simp: message_of_def split: if_splits)
  ultimately show ?thesis
    using assms(1-3) by (simp only: on_chain_def) (simp add: message_of_def)
qed

text \<open>
  C17: the signed authorization determines the session identifier, though the identifier is
  not among the signed fields: two configurations of one chain and adapter whose documents
  are equal are the same session on chain and get the same identifier.
\<close>

theorem authorization_determines_session:
  assumes "typed_data_of E s a = Done td" and "typed_data_of E s b = Done td"
    and "sc_chain_id a = sc_chain_id b" and "sc_adapter_address a = sc_adapter_address b"
    and "decoders_agree E a" and "decoders_agree E b"
  shows "on_chain E a = on_chain E b \<and>
    (derive_session_id E a = Done h \<longleftrightarrow> derive_session_id E b = Done h)"
proof -
  obtain sel where a: "hexutil_decode E (sc_allowed_selector a) = Inr sel" "td_message td = message_of E a sel"
    using typed_data_message [OF assms(1)] by blast
  obtain sel' where b: "hexutil_decode E (sc_allowed_selector b) = Inr sel'" "td_message td = message_of E b sel'"
    using typed_data_message [OF assms(2)] by blast
  have "message_of E a sel = message_of E b sel'" using a(2) b(2) by simp
  note sel = a(1) b(1) this
  have "on_chain E a = on_chain E b"
    by (rule same_message_same_session [OF sel(3) assms(3,4) sel(1,2) assms(5,6)])
  then show ?thesis using on_chain_determines_id by blast
qed

definition sample_railguard :: railguard_signer where
  "sample_railguard = \<lparr>rg_chain_id = 8, rg_adapter_address = ''0xE5'', rg_signer_key = ''0xk''\<rparr>"

lemma sample_selector: "hexutil_decode sample_eth transfer_selector = Inr [chr 169, chr 5, chr 156, chr 187]"
proof -
  have "hex_decode (trim_prefix transfer_selector ''0x'') = Inr [chr 169, chr 5, chr 156, chr 187]" by code_simp
  then show ?thesis by (simp add: sample_eth_def)
qed

lemma sample_typed_data: "\<exists>td. typed_data_of sample_eth s sample_transfer = Done td"
  by (simp add: typed_data_of_Done sample_transfer_def sample_selector)

theorem authorization_determines_session_witness:
  "\<exists>h. derive_session_id sample_eth sample_transfer = Done h \<and>
     derive_session_id sample_eth (sample_transfer\<lparr>sc_allowed_target := ''''\<rparr>) = Done h"
proof -
  let ?b = "sample_transfer\<lparr>sc_allowed_target := ''''\<rparr>"
  obtain td where td: "typed_data_of sample_eth sample_railguard sample_transfer = Done td"
    using sample_typed_data by blast
  have "message_of sample_eth ?b sel = message_of sample_eth sample_transfer sel" for sel
    by (simp add: message_of_def sample_transfer_def sample_session_def)
  with td have tdb: "typed_data_of sample_eth sample_railguard ?b = Done td"
    by (simp add: typed_data_of_Done)
  obtain h where h: "derive_session_id sample_eth sample_transfer = Done h"
    using sample_derives by blast
  have agree: "decoders_agree sample_eth sample_transfer" "decoders_agree sample_eth ?b"
    by (simp_all add: decoders_agree_def sample_eth_def)
  have "derive_session_id sample_eth ?b = Done h"
    using authorization_determines_session [OF td tdb _ _ agree, of h] h by simp
  with h show ?thesis by blast
qed

lemma sample_authorization: "authorization_hash sample_eth s sample_transfer = Done (replicate 32 CHR ''d'')"
proof -
  obtain td where "typed_data_of sample_eth s sample_transfer = Done td" using sample_typed_data by blast
  moreover have "typed_data_hash sample_eth td = Inr (replicate 32 CHR ''d'')" by (simp add: sample_eth_def)
  ultimately show ?thesis by (simp add: authorization_hash_def bytes_to_hash_id)
qed

theorem signers_agree_iff_witness:
  "\<exists>digest sig. sign_railguard sample_eth sample_railguard sample_transfer = Done (digest, sig) \<and>
     sign_hash sample_eth ''k'' digest \<noteq> Done sig"
proof -
  let ?d = "replicate 32 CHR ''d''"
  let ?raw = "fixed_length 65 (''k'' @ ?d)"
  have key: "hex_to_ecdsa sample_eth (trim_prefix (rg_signer_key sample_railguard) ''0x'') = Inr ''k''"
    by (simp add: sample_eth_def sample_railguard_def trim_prefix_def has_prefix_def)
  have raw: "ecdsa_sign sample_eth ?d ''k'' = Inr ?raw" by (simp add: sample_eth_def)
  obtain sig where "add_at 64 27 ?raw = Done sig" by (simp add: add_at_27)
  then have sig: "sign_railguard sample_eth sample_railguard sample_transfer = Done (?d, sig)"
    using key raw by (simp add: sign_railguard_Done sample_authorization)
      (simp add: sample_railguard_def)
  have "?raw ! 64 = CHR ''0''" by code_simp
  then have "sign_hash sample_eth ''k'' ?d \<noteq> Done sig"
    using signers_agree_iff [OF sig key raw] by simp
  with sig show ?thesis by blast
qed

text \<open>
  Signing an authorization panics exactly if the key is configured and the selector does
  not decode, or the library hands back a signature too short to carry a recovery byte; an
  empty selector, which validation accepts, panics.
\<close>

theorem sign_railguard_panics_iff:
  "panics (sign_railguard E s cfg) \<longleftrightarrow>
     rg_signer_key s \<noteq> '''' \<and>
     (case typed_data_of E s cfg of
        Done td \<Rightarrow> (\<exists>b key sig. typed_data_hash E td = Inr b \<and>
          hex_to_ecdsa E (trim_prefix (rg_signer_key s) ''0x'') = Inr key \<and>
          ecdsa_sign E (bytes_to_hash b) key = Inr sig \<and> length sig \<le> 64)
      | _ \<Rightarrow> \<exists>e. hexutil_decode E (sc_allowed_selector cfg) = Inl e)"
proof (cases "hexutil_decode E (sc_allowed_selector cfg)")
  case (Inl e)
  then show ?thesis
    by (simp add: sign_railguard_def authorization_hash_def typed_data_of_def)
next
  case (Inr sel)
  then obtain td where "typed_data_of E s cfg = Done td" by (auto simp: typed_data_of_Done)
  then show ?thesis
    by (auto simp: sign_railguard_def authorization_hash_def panics_bind_iff bind_outcome_Done add_at_def)
qed

end
