(* ===== verification/Server.thy ===== *)
theory Server
  imports Auth Intent Policy Eip712 Reservation Store "HOL-Library.List_Lexorder" "HOL-Library.Char_ord"
begin

text \<open>
  \<open>internal/api/server.go\<close>: the HTTP handlers, which put the components together. A handler
  runs over the state of the repository and the world behind Redis, clock and identifiers; a
  request body is what the JSON decoder makes of it, \<open>None\<close> where it reports an error. A panic
  in a handler is caught by the \<open>Recoverer\<close> middleware and answered with status 500.
\<close>

unbundle bit_operations_syntax

section \<open>The server\<close>

record server =
  sv_cfg :: config
  sv_policy :: engine
  sv_eip712 :: railguard_signer
  sv_receipt :: signer

definition server_new :: "config \<Rightarrow> engine \<Rightarrow> server" where
  "server_new cfg pe =
    \<lparr>sv_cfg = cfg, sv_policy = pe,
     sv_eip712 = \<lparr>rg_chain_id = chain_id cfg, rg_adapter_address = adapter_address cfg,
       rg_signer_key = railguard_signer_key cfg\<rparr>,
     sv_receipt = \<lparr>sn_key_id = signer_key_id cfg, sn_private_key = receipt_signer_key cfg\<rparr>\<rparr>"

text \<open>The world a handler acts on: the repository's state and the one behind Redis.\<close>

type_synonym ('s, 'w) world = "'s \<times> 'w"

definition recovered :: response where
  "recovered = Http_Error 500 ''''"

section \<open>Time stamps\<close>

text \<open>
  \<open>time.RFC3339\<close> of a UTC time: the civil date of a day number, counted from 1 March of
  year 0 in eras of 400 years.
\<close>

definition civil :: "int \<Rightarrow> int \<times> int \<times> int" where
  "civil days =
    (let z = days + 719468;
         era = z div 146097;
         doe = z mod 146097;
         yoe = (doe - doe div 1460 + doe div 36524 - doe div 146096) div 365;
         doy = doe - (365 * yoe + yoe div 4 - yoe div 100);
         mp = (5 * doy + 2) div 153;
         d = doy - (153 * mp + 2) div 5 + 1;
         m = (if mp < 10 then mp + 3 else mp - 9);
         y = yoe + era * 400
     in (if m \<le> 2 then y + 1 else y, m, d))"

definition pad :: "nat \<Rightarrow> int \<Rightarrow> string" where
  "pad n i = (let s = show_int i in replicate (n - length s) (CHR ''0'') @ s)"

definition rfc3339 :: "int \<Rightarrow> string" where
  "rfc3339 now =
    (let t = unix now; (y, m, d) = civil (t div 86400); r = t mod 86400
     in pad 4 y @ ''-'' @ pad 2 m @ ''-'' @ pad 2 d @ ''T'' @ pad 2 (r div 3600) @ '':'' @
        pad 2 (r mod 3600 div 60) @ '':'' @ pad 2 (r mod 60) @ ''Z'')"

lemma rfc3339_epoch: "rfc3339 0 = ''1970-01-01T00:00:00Z''"
  by code_simp

lemma rfc3339_leap_day: "rfc3339 (1709251199 * second) = ''2024-02-29T23:59:59Z''"
  by code_simp

section \<open>Evaluating an intent\<close>

definition policy_input_of :: "evaluate_request \<Rightarrow> policy_input" where
  "policy_input_of req =
    \<lparr>pi_agent_id = er_agent_id req, pi_account = er_account req, pi_chain_id = er_chain_id req,
     pi_token = er_token req, pi_recipient = er_recipient req, pi_amount_atomic = er_amount_atomic req,
     pi_allowed_target = '''', pi_selector = '''', pi_allow_batch = None, pi_is_batch = False,
     pi_session_valid_now = None,
     pi_method = rs_method (er_resource req), pi_domain = rs_domain (er_resource req),
     pi_path = rs_path (er_resource req), pi_risk_score = 0, pi_sanctions_hit = False,
     pi_max_per_transfer = lm_max_per_transfer (er_limits req),
     pi_max_total_spend = lm_max_total_spend (er_limits req)\<rparr>"

definition receipt_payload :: "evaluate_request \<Rightarrow> string \<Rightarrow> string \<Rightarrow> policy_result \<Rightarrow> payload" where
  "receipt_payload req decisionID intentHash pout =
    \<lparr>py_receipt_version = '''', py_decision_id = decisionID, py_decision = pr_decision pout,
     py_reason_codes = pr_reason_codes pout, py_agent_id = er_agent_id req, py_intent_hash = intentHash,
     py_policy_hash = pr_policy_hash pout, py_session_id = '''', py_nonce_key = '''',
     py_chain_id = er_chain_id req, py_token = er_token req, py_recipient = er_recipient req,
     py_amount_atomic = er_amount_atomic req, py_allow_batch = False, py_valid_until = 0,
     py_signer_key_id = '''', py_created_at = ''''\<rparr>"

text \<open>
  The receipt of an ALLOW: a failure to sign or to save is ignored, a panic is not. The flag
  says whether the handler goes on.
\<close>

definition store_receipt ::
    "eth \<Rightarrow> 's repo \<Rightarrow> server \<Rightarrow> int \<Rightarrow> evaluate_request \<Rightarrow> string \<Rightarrow> string \<Rightarrow> policy_result \<Rightarrow> 's \<Rightarrow> 's \<times> bool" where
  "store_receipt E RP V now req decisionID intentHash pout s =
    (if pr_decision pout = ''ALLOW'' \<and> receipt_signer_key (sv_cfg V) \<noteq> '''' then
       (case sign E (rfc3339 now) (sv_receipt V) (receipt_payload req decisionID intentHash pout) of
          Panics _ \<Rightarrow> (s, False)
        | Fails _ \<Rightarrow> (s, True)
        | Done g \<Rightarrow>
            (fst (rp_save_receipt RP decisionID intentHash '''' (sg_receipt_hash g)
               (payload_json (sg_payload g)) (sg_signature g) (signer_key_id (sv_cfg V)) s), True))
     else (s, True))"

text \<open>Object fields are written in the order of the keys, as a Go map marshals.\<close>

definition evaluate_intent ::
    "ucase \<Rightarrow> eth \<Rightarrow> 's repo \<Rightarrow> 'w redis \<Rightarrow> server \<Rightarrow> evaluate_request option \<Rightarrow> ('s, 'w) world handler" where
  "evaluate_intent uc E RP R V body st =
    (let (s, w) = st in
     case body of
       None \<Rightarrow> (st, Http_Error 400 ''invalid json'')
     | Some req \<Rightarrow>
     (case hash_from_request uc E req of
       Inl e \<Rightarrow> (st, Http_Error 400 (message e))
     | Inr (intentHash, ci) \<Rightarrow>
     (case rp_save_intent RP intentHash (er_agent_id req) (er_account req) (er_chain_id req)
         (er_token req) (er_recipient req) (er_amount_atomic req)
         (lm_max_per_transfer (er_limits req)) (lm_max_total_spend (er_limits req))
         (lm_allow_batch (er_limits req)) (ci_domain ci) (ci_path ci) (er_idempotency_key req) s of
       (s, Inl _) \<Rightarrow> ((s, w), Http_Error 500 ''failed to persist intent'')
     | (s, Inr _) \<Rightarrow>
     (case evaluate uc E (sv_policy V) (policy_input_of req) of
       Inl e \<Rightarrow> ((s, w), Http_Error 500 (message e))
     | Inr pout \<Rightarrow>
     (case uuid_of R w of (w, uuid) \<Rightarrow>
     (let decisionID = ''dec_'' @ uuid in
      case rp_save_decision RP decisionID intentHash (pr_decision pout) (pr_reason_codes pout)
         (pr_policy_hash pout) s of
       (s, Inl _) \<Rightarrow> ((s, w), Http_Error 500 ''failed to persist decision'')
     | (s, Inr _) \<Rightarrow>
     (case now_of R w of (w, now) \<Rightarrow>
     (case store_receipt E RP V now req decisionID intentHash pout s of
       (s, False) \<Rightarrow> ((s, w), recovered)
     | (s, True) \<Rightarrow> ((s, w), Write_JSON 200 (JObj
         [(''decision'', JStr (pr_decision pout)), (''decisionId'', JStr decisionID),
          (''intentHash'', JStr intentHash), (''policyHash'', JStr (pr_policy_hash pout)),
          (''reasonCodes'', slice_json (pr_reason_codes pout))]))))))))))"

section \<open>Registering a session\<close>

record register_session_req =
  rq_decision_id :: string
  rq_session_key :: string
  rq_nonce_key :: string
  rq_valid_after :: int
  rq_valid_until :: int

definition session_of ::
    "server \<Rightarrow> register_session_req \<Rightarrow> string \<Rightarrow> intent_snapshot \<Rightarrow> session_config" where
  "session_of V req policyHash intent =
    \<lparr>sc_account = is_account intent, sc_nonce_key = rq_nonce_key req, sc_session_key = rq_session_key req,
     sc_token = is_token intent, sc_allowed_target = is_token intent,
     sc_allowed_recipient = is_recipient intent, sc_allowed_selector = ''0xa9059cbb'',
     sc_max_per_transfer = is_max_per_transfer intent, sc_max_total_spend = is_max_total_spend intent,
     sc_valid_after = rq_valid_after req, sc_valid_until = rq_valid_until req,
     sc_allow_batch = is_allow_batch intent, sc_policy_hash = policyHash,
     sc_chain_id = chain_id (sv_cfg V), sc_adapter_address = adapter_address (sv_cfg V)\<rparr>"

text \<open>\<open>hexEncode\<close>: two digits for each byte, by shift and mask.\<close>

definition server_hex :: "string \<Rightarrow> string" where
  "server_hex b =
    concat (map (\<lambda>c. let v = (of_nat (of_char c) :: u8)
      in [hexdigits ! unat (drop_bit 4 v), hexdigits ! unat (v AND 15)]) b)"

definition register_session ::
    "ucase \<Rightarrow> eth \<Rightarrow> 's repo \<Rightarrow> server \<Rightarrow> register_session_req option \<Rightarrow> ('s, 'w) world handler" where
  "register_session uc E RP V body st =
    (let (s, w) = st in
     if adapter_address (sv_cfg V) = '''' \<or> railguard_signer_key (sv_cfg V) = ''''
       then (st, Http_Error 503 ''session cosigning not configured'')
     else (case body of
       None \<Rightarrow> (st, Http_Error 400 ''invalid json'')
     | Some req \<Rightarrow>
     if rq_decision_id req = '''' \<or> rq_session_key req = '''' \<or> rq_nonce_key req = ''''
       then (st, Http_Error 400 ''decisionId, sessionKey, and nonceKey are required'')
     else if rq_valid_after req \<le> 0 \<or> rq_valid_until req \<le> rq_valid_after req
       then (st, Http_Error 400 ''validAfter and validUntil are required'')
     else (case rp_get_allow_decision RP (rq_decision_id req) s of
       (s, Inl _) \<Rightarrow> ((s, w), Http_Error 403 ''decision not authorizable'')
     | (s, Inr (_, policyHash, intent)) \<Rightarrow>
     if \<not> equal_fold uc policyHash (policy_hash E (sv_policy V))
       then ((s, w), Http_Error 400 ''policyHash mismatch'')
     else (let cfg = session_of V req policyHash intent in
     case validate_v1 uc cfg of
       Inl e \<Rightarrow> ((s, w), Http_Error 400 (message e))
     | Inr _ \<Rightarrow>
     (case derive_session_id E cfg of
       Panics _ \<Rightarrow> ((s, w), recovered)
     | Fails e \<Rightarrow> ((s, w), Http_Error 500 (message e))
     | Done sessionID \<Rightarrow>
     (case session_config_physical_hash E cfg of
       Panics _ \<Rightarrow> ((s, w), recovered)
     | physicalOutcome \<Rightarrow>
     (let physical = (case physicalOutcome of Done h \<Rightarrow> h | _ \<Rightarrow> replicate 32 (CHR 0x00)) in
     case sign_railguard E (sv_eip712 V) cfg of
       Panics _ \<Rightarrow> ((s, w), recovered)
     | Fails e \<Rightarrow> ((s, w), Http_Error 500 (message e))
     | Done (digest, sig) \<Rightarrow>
     (case rp_authorize_session RP (rq_decision_id req) (hash_hex E sessionID) (is_agent_id intent) cfg s of
       (s, Inl _) \<Rightarrow> ((s, w), Http_Error 409 ''session authorization failed'')
     | (s, Inr _) \<Rightarrow> ((s, w), Write_JSON 200 (JObj
         [(''authorizationDigest'', JStr (hash_hex E digest)),
          (''railguardSignature'', JStr (''0x'' @ server_hex sig)),
          (''sessionConfigPhysicalHash'', JStr (hash_hex E physical)),
          (''sessionId'', JStr (hash_hex E sessionID))]))))))))))"

section \<open>Reserving budget\<close>

record reserve_req =
  rr_session :: string
  rr_agent :: string
  rr_intent :: string
  rr_amount_atomic :: string
  rr_idempotency :: string
  rr_max_total_spend :: string

text \<open>\<open>time.Until\<close>, which saturates at the bounds of a \<open>Duration\<close>.\<close>

definition time_until :: "int \<Rightarrow> int \<Rightarrow> int" where
  "time_until t now = max (- (2 ^ 63)) (min (2 ^ 63 - 1) (t - now))"

definition session_ttl :: "session_reserve_snapshot \<Rightarrow> int \<Rightarrow> int" where
  "session_ttl snap now =
    (let ttl = time_until (rs_valid_until snap * second) now in if ttl < minute then minute else ttl)"

definition denied :: response where
  "denied = Write_JSON 409 (JObj [(''status'', JStr ''BUDGET_DENIED'')])"

definition reserved_response :: "string \<Rightarrow> response" where
  "reserved_response resID = Write_JSON 200 (JObj [(''reservationId'', JStr resID), (''status'', JStr ''RESERVED'')])"

text \<open>The checks against the snapshot; \<open>Inl\<close> is the answer to a request that fails one.\<close>

definition check_reserve ::
    "ucase \<Rightarrow> reserve_req \<Rightarrow> session_reserve_snapshot \<Rightarrow> int \<Rightarrow> response + unit" where
  "check_reserve uc req snap now =
    (if rs_status snap \<noteq> '''' \<and> to_upper uc (rs_status snap) \<noteq> ''SESSION_AUTHORIZED''
       then Inl (Http_Error 409 ''session not active'')
     else if unix now < rs_valid_after snap \<or> rs_valid_until snap < unix now
       then Inl (Http_Error 409 ''session outside validity window'')
     else if \<not> equal_fold uc (rr_agent req) (rs_agent_id snap) then Inl (Http_Error 409 ''agent mismatch'')
     else if rs_intent_hash snap \<noteq> '''' \<and> \<not> equal_fold uc (rr_intent req) (rs_intent_hash snap)
       then Inl (Http_Error 409 ''intent mismatch'')
     else (case set_string (rr_amount_atomic req) of
       None \<Rightarrow> Inl (Http_Error 400 ''invalid amount'')
     | Some amount \<Rightarrow>
         if amount \<le> 0 then Inl (Http_Error 400 ''invalid amount'')
         else (case set_string (rs_max_per_transfer snap) of
           None \<Rightarrow> Inl denied
         | Some maxPer \<Rightarrow> if maxPer < amount then Inl denied else Inr ())))"

text \<open>The row of a reservation Redis granted; a clash with its own earlier row is a retry.\<close>

definition persist_reservation ::
    "'s repo \<Rightarrow> 'w redis \<Rightarrow> reserve_req \<Rightarrow> string \<Rightarrow> ('s, 'w) world handler" where
  "persist_reservation RP R req resID st =
    (let (s, w) = st in
     case rp_save_reservation RP resID (rr_session req) (rr_intent req) (rr_agent req)
         (rr_amount_atomic req) ''BUDGET_RESERVED'' (rr_idempotency req) s of
       (s, Inr _) \<Rightarrow> ((s, w), reserved_response resID)
     | (s, Inl _) \<Rightarrow>
         (case rp_get_reservation_id_by_idempotency RP (rr_idempotency req) s of (s, r) \<Rightarrow>
            if r = Inr resID then ((s, w), reserved_response resID)
            else ((s, fst (run R (release_reservation resID) w)),
                  Http_Error 500 ''failed to persist reservation'')))"

definition reserve_budget ::
    "ucase \<Rightarrow> 's repo \<Rightarrow> 'w redis \<Rightarrow> reserve_req option \<Rightarrow> ('s, 'w) world handler" where
  "reserve_budget uc RP R body st =
    (let (s, w) = st in
     case body of
       None \<Rightarrow> (st, Http_Error 400 ''invalid json'')
     | Some req \<Rightarrow>
     (case rp_get_session_reserve_snapshot RP (rr_session req) s of
       (s, Inl _) \<Rightarrow> ((s, w), Http_Error 404 ''session not found'')
     | (s, Inr snap) \<Rightarrow>
     (case now_of R w of (w, now) \<Rightarrow>
     (case check_reserve uc req snap now of
       Inl answer \<Rightarrow> ((s, w), answer)
     | Inr _ \<Rightarrow>
     (case now_of R w of (w, now) \<Rightarrow>
     (case run R (reserve (rr_session req) (rr_idempotency req) (rr_amount_atomic req)
         (rs_max_total_spend snap) (5 * minute) (session_ttl snap now)) w of
       (w, Inl _) \<Rightarrow> ((s, w), denied)
     | (w, Inr resID) \<Rightarrow> persist_reservation RP R req resID (s, w)))))))"

section \<open>User operations\<close>

record submitted_req =
  su_reservation_id :: string
  su_user_op_hash :: string
  su_bundler :: string
  su_execution_digest :: string

definition user_op_submitted ::
    "'s repo \<Rightarrow> 'w redis \<Rightarrow> submitted_req option \<Rightarrow> ('s, 'w) world handler" where
  "user_op_submitted RP R body st =
    (let (s, w) = st in
     case body of
       None \<Rightarrow> (st, Http_Error 400 ''invalid json'')
     | Some req \<Rightarrow>
     (case rp_update_reservation_status RP (su_reservation_id req) ''USEROP_SUBMITTED'' s of
       (s, Inl _) \<Rightarrow> ((s, w), Http_Error 404 ''reservation not found'')
     | (s, Inr _) \<Rightarrow>
     (case (if su_execution_digest req \<noteq> ''''
            then rp_bind_reservation_execution_digest RP (su_reservation_id req) (su_execution_digest req) s
            else (s, Inr ())) of
       (s, Inl _) \<Rightarrow> ((s, w), Http_Error 409 ''failed to bind execution digest'')
     | (s, Inr _) \<Rightarrow>
     (case now_of R w of (w, now) \<Rightarrow>
     (case rp_save_user_op RP now (su_user_op_hash req) (su_reservation_id req) '''' ''USEROP_SUBMITTED''
         (su_bundler req) s of
       (s, Inl _) \<Rightarrow> ((s, w), Http_Error 500 ''failed to persist userop'')
     | (s, Inr _) \<Rightarrow> ((s, w), Write_JSON 200 (JObj [(''status'', JStr ''USEROP_SUBMITTED'')])))))))"

record finalized_req =
  fi_user_op_hash :: string
  fi_tx_hash :: string
  fi_block_number :: int
  fi_status :: string

text \<open>Settling a reservation: the budget in Redis, then the row; both errors are dropped.\<close>

definition settle :: "'s repo \<Rightarrow> 'w redis \<Rightarrow> string \<Rightarrow> string \<Rightarrow> ('s, 'w) world \<Rightarrow> ('s, 'w) world" where
  "settle RP R status reservationID st =
    (let (s, w) = st in
     if status = ''USEROP_FINALIZED''
     then (fst (rp_update_reservation_status RP reservationID ''BUDGET_COMMITTED'' s),
           fst (run R (commit_reservation reservationID) w))
     else (fst (rp_update_reservation_status RP reservationID ''BUDGET_RELEASED'' s),
           fst (run R (release_reservation reservationID) w)))"

definition user_op_finalized ::
    "ucase \<Rightarrow> 's repo \<Rightarrow> 'w redis \<Rightarrow> finalized_req option \<Rightarrow> ('s, 'w) world handler" where
  "user_op_finalized uc RP R body st =
    (let (s, w) = st in
     case body of
       None \<Rightarrow> (st, Http_Error 400 ''invalid json'')
     | Some req \<Rightarrow>
     (let status = to_upper uc (trim_space (fi_status req)) in
      if status \<noteq> ''USEROP_FINALIZED'' \<and> status \<noteq> ''USEROP_REVERTED''
        then (st, Http_Error 400 ''invalid status'')
      else (case now_of R w of (w, now) \<Rightarrow>
      (case rp_finalize_user_op RP now (fi_user_op_hash req) (fi_tx_hash req) (fi_block_number req) status s of
         (s, Inl _) \<Rightarrow> ((s, w), Http_Error 404 ''userop not found'')
       | (s, Inr _) \<Rightarrow>
       (case rp_get_reservation_id_by_user_op RP (fi_user_op_hash req) s of (s, r) \<Rightarrow>
       (let st = (case r of Inl _ \<Rightarrow> (s, w) | Inr reservationID \<Rightarrow> settle RP R status reservationID (s, w));
            outStatus = (if status = ''USEROP_REVERTED'' then ''BUDGET_RELEASED'' else ''BUDGET_COMMITTED'')
        in (st, Write_JSON 200 (JObj [(''status'', JStr outStatus)]))))))))"

section \<open>Queries\<close>

text \<open>
  A stored payload is read into an \<open>any\<close> and written again: objects become maps, whose keys
  are written in byte order. Numbers pass through \<open>float64\<close>, which is exact up to \<open>2^53\<close> (chain
  numbers and seconds); larger ones, which the code rounds, are left alone here.
\<close>

primrec any_json :: "json \<Rightarrow> json" where
  "any_json JNull = JNull"
| "any_json (JBool b) = JBool b"
| "any_json (JNum n) = JNum n"
| "any_json (JStr s) = JStr s"
| "any_json (JArr js) = JArr (map any_json js)"
| "any_json (JObj kvs) = JObj (sort_key fst (map (map_prod id any_json) kvs))"

definition get_receipt_handler :: "'s repo \<Rightarrow> string \<Rightarrow> ('s, 'w) world handler" where
  "get_receipt_handler RP decisionID st =
    (let (s, w) = st in
     case rp_get_receipt RP decisionID s of
       (s, Inl _) \<Rightarrow> ((s, w), Http_Error 404 ''not found'')
     | (s, Inr (decision, receiptHash, signature, payload)) \<Rightarrow> ((s, w), Write_JSON 200 (JObj
         [(''decision'', JStr decision), (''decisionId'', JStr decisionID), (''payload'', any_json payload),
          (''receiptHash'', JStr receiptHash), (''signature'', JStr signature)])))"

definition get_chain_execution_handler :: "'s repo \<Rightarrow> string \<Rightarrow> ('s, 'w) world handler" where
  "get_chain_execution_handler RP sessionID st =
    (let (s, w) = st in
     case rp_get_chain_execution_by_session_id RP sessionID s of
       (s, Inl _) \<Rightarrow> ((s, w), Http_Error 404 ''not found'')
     | (s, Inr e) \<Rightarrow> ((s, w), Write_JSON 200 (JObj
         [(''account'', JStr (ce_account e)), (''blockNumber'', JNum (ce_block_number e)),
          (''frameSpend'', JStr (ce_frame_spend e)), (''logIndex'', JNum (ce_log_index e)),
          (''nonceKey'', JStr (ce_nonce_key e)), (''sessionId'', JStr (ce_session_id e)),
          (''totalSpendAfter'', JStr (ce_total_spend_after e)), (''txHash'', JStr (ce_tx_hash e))])))"

definition health :: "('s, 'w) world handler" where
  "health st = (st, Write_JSON 200 (JObj [(''status'', JStr ''ok'')]))"

section \<open>The router\<close>

text \<open>A request that matches a route, with its decoded body or its path parameter.\<close>

datatype request =
    Health
  | Evaluate_Intent "evaluate_request option"
  | Register_Session "register_session_req option"
  | Reserve_Budget "reserve_req option"
  | User_Op_Submitted "submitted_req option"
  | User_Op_Finalized "finalized_req option"
  | Get_Receipt string
  | Get_Chain_Execution string

definition router ::
    "ucase \<Rightarrow> eth \<Rightarrow> 's repo \<Rightarrow> 'w redis \<Rightarrow> server \<Rightarrow> headers \<Rightarrow> request \<Rightarrow> ('s, 'w) world handler" where
  "router uc E RP R V hdr q =
    (let guarded = require_api_key uc (api_key (sv_cfg V)) hdr in
     case q of
       Health \<Rightarrow> health
     | Evaluate_Intent body \<Rightarrow> evaluate_intent uc E RP R V body
     | Register_Session body \<Rightarrow> guarded (register_session uc E RP V body)
     | Reserve_Budget body \<Rightarrow> guarded (reserve_budget uc RP R body)
     | User_Op_Submitted body \<Rightarrow> guarded (user_op_submitted RP R body)
     | User_Op_Finalized body \<Rightarrow> guarded (user_op_finalized uc RP R body)
     | Get_Receipt i \<Rightarrow> guarded (get_receipt_handler RP i)
     | Get_Chain_Execution i \<Rightarrow> guarded (get_chain_execution_handler RP i))"

end
