(* ===== verification/Watcher.thy ===== *)
theory Watcher
  imports Config Store Reservation
begin

text \<open>
  \<open>internal/watcher\<close>: the reconciler, which polls the chain for execution events, records
  them in the store and keeps a block cursor. The chain client is a parameter, one answer
  for each question a poll asks; the store is any repository. Block numbers are 64-bit
  words, so the loop over blocks may not end, and is a partial function.
\<close>

section \<open>The chain\<close>

text \<open>\<open>types.Log\<close>: topics are 32-byte hashes.\<close>

record log =
  lg_topics :: "string list"
  lg_data :: string
  lg_block :: u64
  lg_tx_hash :: string
  lg_index :: nat

text \<open>
  The client during one poll: the head, \<open>FilterLogs\<close> for a block range, a hook address and
  an event signature, and the hash of the header of a block number.
\<close>

record chain =
  ch_block_number :: "u64 res"
  ch_filter_logs :: "u64 \<Rightarrow> u64 \<Rightarrow> string \<Rightarrow> string \<Rightarrow> log list res"
  ch_header_hash :: "int \<Rightarrow> string res"

definition execution_allowed_sig :: "eth \<Rightarrow> string" where
  "execution_allowed_sig E =
    keccak256 E ''ExecutionAllowed(address,bytes32,uint192,bytes32,uint256,uint256)''"

section \<open>One event\<close>

text \<open>\<open>new(big.Int).SetBytes\<close>: big-endian.\<close>

definition set_bytes :: "string \<Rightarrow> int" where
  "set_bytes b = foldl (\<lambda>n c. 256 * n + of_char c) 0 b"

text \<open>\<open>BytesToAddress\<close>: the last 20 bytes, padded with zeros on the left.\<close>

definition bytes_to_address :: "string \<Rightarrow> string" where
  "bytes_to_address b =
    (let b = drop (length b - 20) b in replicate (20 - length b) (CHR 0x00) @ b)"

definition slice :: "string \<Rightarrow> nat \<Rightarrow> nat \<Rightarrow> string" where
  "slice b i j = drop i (take j b)"

definition event_amounts :: "eth \<Rightarrow> string \<Rightarrow> string \<times> string \<times> string" where
  "event_amounts E data =
    (if 96 \<le> length data
       then (hash_hex E (slice data 0 32), show_int (set_bytes (slice data 32 64)),
             show_int (set_bytes (slice data 64 96)))
     else if 64 \<le> length data
       then ('''', show_int (set_bytes (slice data 0 32)), show_int (set_bytes (slice data 32 64)))
     else ('''', '''', ''''))"

definition execution_of :: "ucase \<Rightarrow> eth \<Rightarrow> log \<Rightarrow> chain_execution" where
  "execution_of uc E lg =
    (let (executionDigest, frameSpend, totalSpendAfter) = event_amounts E (lg_data lg) in
    \<lparr>ce_account = to_lower uc (address_hex E (bytes_to_address (lg_topics lg ! 1))),
     ce_session_id = hash_hex E (lg_topics lg ! 2),
     ce_nonce_key = show_int (set_bytes (lg_topics lg ! 3)),
     ce_frame_spend = frameSpend, ce_total_spend_after = totalSpendAfter,
     ce_execution_digest = to_lower uc executionDigest,
     ce_block_number = sint (lg_block lg),
     ce_tx_hash = to_lower uc (hash_hex E (lg_tx_hash lg)),
     ce_log_index = int (lg_index lg)\<rparr>)"

definition ingest_log :: "ucase \<Rightarrow> eth \<Rightarrow> 's repo \<Rightarrow> int \<Rightarrow> log \<Rightarrow> 's \<Rightarrow> 's \<times> unit res" where
  "ingest_log uc E RP now lg s =
    (if length (lg_topics lg) < 4 then (s, Inr ())
     else rp_record_chain_execution RP now (execution_of uc E lg) s)"

primrec ingest_logs :: "ucase \<Rightarrow> eth \<Rightarrow> 's repo \<Rightarrow> int \<Rightarrow> log list \<Rightarrow> 's \<Rightarrow> 's \<times> unit res" where
  "ingest_logs uc E RP now [] s = (s, Inr ())"
| "ingest_logs uc E RP now (lg # lgs) s =
    (case ingest_log uc E RP now lg s of
       (s', Inl e) \<Rightarrow> (s', Inl e)
     | (s', Inr _) \<Rightarrow> ingest_logs uc E RP now lgs s')"

section \<open>One poll\<close>

definition compute_safe_head :: "u64 \<Rightarrow> u64 \<Rightarrow> u64 \<times> bool" where
  "compute_safe_head head confirm =
    (if 0 < confirm \<and> head < confirm then (0, False)
     else (if 0 < confirm then head - confirm else head, True))"

definition poll_from :: "u64 \<Rightarrow> u64 \<Rightarrow> u64" where
  "poll_from rescan lastBlock =
    (let from = lastBlock + 1 in
     if 0 < rescan \<and> rescan \<le> lastBlock
     then (let rewind = lastBlock - rescan + 1 in if rewind < from then rewind else from)
     else from)"

text \<open>A block: its events, its header, the cursor.\<close>

definition poll_block ::
    "ucase \<Rightarrow> eth \<Rightarrow> 's repo \<Rightarrow> chain \<Rightarrow> int \<Rightarrow> log list \<Rightarrow> u64 \<Rightarrow> 's \<Rightarrow> 's \<times> unit res" where
  "poll_block uc E RP C now logs block s =
    (case ingest_logs uc E RP now (filter (\<lambda>lg. lg_block lg = block) logs) s of
       (s', Inl e) \<Rightarrow> (s', Inl e)
     | (s', Inr _) \<Rightarrow>
         (case ch_header_hash C (sint block) of
            Inl e \<Rightarrow> (s', Inl e)
          | Inr h \<Rightarrow> rp_set_watcher_block_cursor RP block h s'))"

text \<open>
  \<open>for block := from; block <= to; block++\<close> over \<open>uint64\<close>; the state is the store and the
  reconciler's \<open>lastBlock\<close>. \<open>None\<close> is a loop that never ends.
\<close>

partial_function (option) poll_loop ::
    "ucase \<Rightarrow> eth \<Rightarrow> 's repo \<Rightarrow> chain \<Rightarrow> int \<Rightarrow> log list \<Rightarrow> u64 \<Rightarrow> u64 \<Rightarrow> u64 \<Rightarrow> 's \<Rightarrow>
     ((u64 \<times> 's) \<times> unit res) option" where
  "poll_loop uc E RP C now logs to block lastBlock s =
    (if block \<le> to
     then (case poll_block uc E RP C now logs block s of
             (s', Inl e) \<Rightarrow> Some ((lastBlock, s'), Inl e)
           | (s', Inr _) \<Rightarrow> poll_loop uc E RP C now logs to (block + 1) block s')
     else Some ((lastBlock, s), Inr ()))"

definition poll ::
    "ucase \<Rightarrow> eth \<Rightarrow> 's repo \<Rightarrow> config \<Rightarrow> chain \<Rightarrow> int \<Rightarrow> u64 \<times> 's \<Rightarrow> ((u64 \<times> 's) \<times> unit res) option" where
  "poll uc E RP c C now st =
    (case ch_block_number C of
       Inl e \<Rightarrow> Some (st, Inl e)
     | Inr head \<Rightarrow>
         (let (safeHead, ready) = compute_safe_head head (of_int (watcher_confirmation c)) in
          if \<not> ready then Some (st, Inr ())
          else if safeHead \<le> fst st then Some (st, Inr ())
          else (let from = poll_from (of_int (watcher_rescan_blocks c)) (fst st) in
            case ch_filter_logs C from safeHead (hex_to_address E (hook_address c)) (execution_allowed_sig E) of
              Inl e \<Rightarrow> Some (st, Inl e)
            | Inr logs \<Rightarrow> poll_loop uc E RP C now logs safeHead from (fst st) (snd st))))"

section \<open>The loop of the process\<close>

text \<open>Times are in nanoseconds; the error of either step is only logged.\<close>

definition stale_seconds :: "config \<Rightarrow> int" where
  "stale_seconds c = (if userop_stale_seconds c \<le> 0 then 300 else userop_stale_seconds c)"

text \<open>
  The cutoff before which a submitted operation is stale: a \<open>Duration\<close> has 64 bits, so the
  product with a second wraps around.
\<close>

definition stale_cutoff :: "config \<Rightarrow> int \<Rightarrow> int" where
  "stale_cutoff c now = now + sint (of_int (- stale_seconds c * second) :: 64 word)"

definition tick ::
    "ucase \<Rightarrow> eth \<Rightarrow> 's repo \<Rightarrow> config \<Rightarrow> chain \<Rightarrow> int \<Rightarrow> u64 \<times> 's \<Rightarrow> ((u64 \<times> 's) \<times> unit res) option" where
  "tick uc E RP c C now st =
    (let (s', _) = rp_mark_stale_user_ops RP now (stale_cutoff c now) (snd st)
     in poll uc E RP c C now (fst st, s'))"

definition start_block :: "'s repo \<Rightarrow> config \<Rightarrow> 's \<Rightarrow> u64 \<times> 's" where
  "start_block RP c s =
    (case rp_get_watcher_block_cursor RP s of
       (s', Inr cursor) \<Rightarrow> (cursor, s')
     | (s', Inl _) \<Rightarrow> (if 0 < watcher_start_block c then of_int (watcher_start_block c - 1) else 0, s'))"

text \<open>
  The ticks until the context is done, each with its time and its view of the chain;
  \<open>None\<close> if one of them never returns.
\<close>

primrec ticks ::
    "ucase \<Rightarrow> eth \<Rightarrow> 's repo \<Rightarrow> config \<Rightarrow> (int \<times> chain) list \<Rightarrow> u64 \<times> 's \<Rightarrow> (u64 \<times> 's) option" where
  "ticks uc E RP c [] st = Some st"
| "ticks uc E RP c (v # vs) st =
    (case tick uc E RP c (snd v) (fst v) st of
       None \<Rightarrow> None
     | Some (st', _) \<Rightarrow> ticks uc E RP c vs st')"

text \<open>\<open>Run\<close>: \<open>dial\<close> says whether the RPC endpoint could be dialled.\<close>

definition watcher_run ::
    "ucase \<Rightarrow> eth \<Rightarrow> 's repo \<Rightarrow> config \<Rightarrow> bool \<Rightarrow> (int \<times> chain) list \<Rightarrow> 's \<Rightarrow> 's option" where
  "watcher_run uc E RP c dial vs s =
    (if hook_address c = '''' \<or> rpc_url c = '''' then Some s
     else if \<not> dial then Some s
     else map_option snd (ticks uc E RP c vs (start_block RP c s)))"

section \<open>Block arithmetic\<close>

text \<open>The safe head never wraps below zero and never passes the head.\<close>

lemma safe_head_unat:
  assumes "compute_safe_head head confirm = (safe, True)"
  shows "unat safe = unat head - unat confirm" "unat confirm \<le> unat head"
proof -
  have "confirm \<le> head" using assms by (auto simp: compute_safe_head_def word_gt_0 split: if_splits)
  then have "unat (head - confirm) = unat head - unat confirm" by (rule unat_sub)
  moreover have "safe = head - confirm" using assms by (auto simp: compute_safe_head_def word_gt_0 split: if_splits)
  ultimately show "unat safe = unat head - unat confirm" by simp
  show "unat confirm \<le> unat head" using \<open>confirm \<le> head\<close> by (simp add: word_le_nat_alt)
qed

lemma unat_u64: "unat (y :: u64) < 18446744073709551616"
  using unsigned_less [of y] by simp

lemma unat_Suc_below: "(x :: u64) < y \<Longrightarrow> unat (x + 1) = Suc (unat x)"
  using unat_add_lem [of x 1] unat_u64 [of y] by (simp add: word_less_nat_alt)

text \<open>The window starts no later than the block after the last one.\<close>

lemma poll_from_unat:
  assumes "lastBlock < to"
  shows "unat (poll_from rescan lastBlock) =
    (if 0 < rescan \<and> rescan \<le> lastBlock then unat lastBlock - unat rescan + 1 else unat lastBlock + 1)"
proof (cases "0 < rescan \<and> rescan \<le> lastBlock")
  case True
  then have sub: "unat (lastBlock - rescan) = unat lastBlock - unat rescan" by (simp add: unat_sub)
  have pos: "0 < unat rescan" using True by (simp add: word_less_nat_alt)
  have le: "unat rescan \<le> unat lastBlock" using True by (simp add: word_le_nat_alt)
  have "lastBlock - rescan < to" using assms True by (simp add: word_less_nat_alt sub)
  then have rewind: "unat (lastBlock - rescan + 1) = unat lastBlock - unat rescan + 1"
    by (simp add: unat_Suc_below sub)
  have "lastBlock - rescan + 1 < lastBlock + 1"
    using pos le by (simp add: word_less_nat_alt rewind unat_Suc_below [OF assms])
  then show ?thesis using True rewind by (simp add: poll_from_def Let_def)
next
  case False
  then show ?thesis using unat_Suc_below [OF assms] by (auto simp: poll_from_def Let_def)
qed

end
