(* ===== verification/Watcher_Log.thy ===== *)
theory Watcher_Log
  imports Watcher Repository
begin

text \<open>
  What the watcher needs of its store, as an extension of the repository contract: an
  execution recorded once stays recorded, and the block cursor is moved only by the
  operation that sets it. From this alone no event at or below the cursor is ever missed,
  across failed polls, rescans and restarts.
\<close>

section \<open>The loop\<close>

lemma poll_loop_returns:
  assumes "to < - 1"
  shows "\<exists>r. poll_loop uc E RP C now logs to block lastBlock s = Some r"
proof (induction "Suc (unat to) - unat block" arbitrary: block lastBlock s)
  case 0
  then have "\<not> block \<le> to" by (simp add: word_le_nat_alt)
  then show ?case by (simp add: poll_loop.simps)
next
  case (Suc n)
  show ?case
  proof (cases "block \<le> to")
    case True
    obtain s' r where b: "poll_block uc E RP C now logs block s = (s', r)" by fastforce
    have "block < - 1" using True assms by simp
    then have "unat (block + 1) = Suc (unat block)" by (rule unat_Suc_below)
    then have "n = Suc (unat to) - unat (block + 1)" using Suc.hyps(2) by simp
    then show ?thesis
      using Suc.hyps(1) [of "block + 1" block s'] b True by (cases r) (simp_all add: poll_loop.simps [of _ _ _ _ _ _ _ block])
  qed (simp add: poll_loop.simps)
qed

text \<open>Partial correctness: an invariant of the blocks is an invariant of the loop.\<close>

lemma poll_loop_invariant:
  assumes ret: "poll_loop uc E RP C now logs to block lastBlock s = Some ((lastBlock', s'), r)"
    and init: "I block lastBlock s"
    and step: "\<And>b l s t. b \<le> to \<Longrightarrow> I b l s \<Longrightarrow> poll_block uc E RP C now logs b s = (t, Inr ()) \<Longrightarrow> I (b + 1) b t"
    and fail: "\<And>b l s t e. b \<le> to \<Longrightarrow> I b l s \<Longrightarrow> poll_block uc E RP C now logs b s = (t, Inl e) \<Longrightarrow> Q (l, t) (Inl e)"
    and final: "\<And>b l s. \<not> b \<le> to \<Longrightarrow> I b l s \<Longrightarrow> Q (l, s) (Inr ())"
  shows "Q (lastBlock', s') r"
proof -
  let ?P = "\<lambda>uc' E' RP' C' now' logs' to' b l s x. uc' = uc \<longrightarrow> E' = E \<longrightarrow> RP' = RP \<longrightarrow> C' = C \<longrightarrow>
    now' = now \<longrightarrow> logs' = logs \<longrightarrow> to' = to \<longrightarrow> I b l s \<longrightarrow> Q (fst x) (snd x)"
  have "?P uc E RP C now logs to block lastBlock s ((lastBlock', s'), r)"
  proof (rule poll_loop.raw_induct [where P = ?P, OF _ ret])
    fix f uc' E' RP' C' now' logs' to' b l s x
    assume IH: "\<And>uc' E' RP' C' now' logs' to' b l s x.
        f uc' E' RP' C' now' logs' to' b l s = Some x \<Longrightarrow> ?P uc' E' RP' C' now' logs' to' b l s x"
      and eq: "(if b \<le> to'
        then (case poll_block uc' E' RP' C' now' logs' b s of
             (s', Inl e) \<Rightarrow> Some ((l, s'), Inl e)
           | (s', Inr _) \<Rightarrow> f uc' E' RP' C' now' logs' to' (b + 1) b s')
        else Some ((l, s), Inr ())) = Some x"
    show "?P uc' E' RP' C' now' logs' to' b l s x"
    proof (intro impI)
      assume fixed: "uc' = uc" "E' = E" "RP' = RP" "C' = C" "now' = now" "logs' = logs" "to' = to"
        and I: "I b l s"
      obtain t q where pb: "poll_block uc E RP C now logs b s = (t, q)" by fastforce
      show "Q (fst x) (snd x)"
      proof (cases "b \<le> to"; cases q)
        fix u assume *: "b \<le> to" "q = Inr u"
        then have "f uc E RP C now logs to (b + 1) b t = Some x" using eq pb fixed by simp
        then show ?thesis using IH [of uc E RP C now logs to "b + 1" b t x] step [OF *(1) I] pb * by simp
      next
        fix e assume *: "b \<le> to" "q = Inl e"
        then have "x = ((l, t), Inl e)" using eq pb fixed by simp
        then show ?thesis using fail [OF *(1) I] pb * by simp
      qed (use eq fixed final [of b l s] I in auto)
    qed
  qed
  then show ?thesis using init by simp
qed

section \<open>Coverage\<close>

definition log_key :: "ucase \<Rightarrow> eth \<Rightarrow> log \<Rightarrow> string \<times> int" where
  "log_key uc E lg = (ce_tx_hash (execution_of uc E lg), ce_log_index (execution_of uc E lg))"

text \<open>
  \<open>L\<close> are the events of the hook on the chain, \<open>B\<close> is where the watcher began: every event
  with an execution's topics after \<open>B\<close> and up to block \<open>n\<close> is recorded.
\<close>

definition covered :: "(log \<Rightarrow> bool) \<Rightarrow> log list \<Rightarrow> u64 \<Rightarrow> u64 \<Rightarrow> bool" where
  "covered R L B n \<longleftrightarrow>
     (\<forall>lg \<in> set L. 4 \<le> length (lg_topics lg) \<longrightarrow> B < lg_block lg \<longrightarrow> lg_block lg \<le> n \<longrightarrow> R lg)"

definition covered_below :: "(log \<Rightarrow> bool) \<Rightarrow> log list \<Rightarrow> u64 \<Rightarrow> u64 \<Rightarrow> bool" where
  "covered_below R L B n \<longleftrightarrow>
     (\<forall>lg \<in> set L. 4 \<le> length (lg_topics lg) \<longrightarrow> B < lg_block lg \<longrightarrow> lg_block lg < n \<longrightarrow> R lg)"

lemma covered_mono: "covered R L B n \<Longrightarrow> (\<And>lg. R lg \<Longrightarrow> R' lg) \<Longrightarrow> covered R' L B n"
  by (auto simp: covered_def)

lemma covered_below_mono: "covered_below R L B n \<Longrightarrow> (\<And>lg. R lg \<Longrightarrow> R' lg) \<Longrightarrow> covered_below R' L B n"
  by (auto simp: covered_below_def)

lemma covered_self: "covered R L B B"
  by (auto simp: covered_def)

lemma covered_le: "covered R L B n \<Longrightarrow> m \<le> n \<Longrightarrow> covered R L B m"
  by (auto simp: covered_def)

lemma below_Suc: "covered R L B n \<Longrightarrow> covered_below R L B (n + 1)"
  unfolding covered_def covered_below_def by (metis inc_le linorder_not_less)

lemma below_covered:
  "covered_below R L B b \<Longrightarrow>
     (\<And>lg. lg \<in> set L \<Longrightarrow> 4 \<le> length (lg_topics lg) \<Longrightarrow> B < b \<Longrightarrow> lg_block lg = b \<Longrightarrow> R lg) \<Longrightarrow> covered R L B b"
  unfolding covered_def covered_below_def by (metis order_le_less)

text \<open>The client's log filter omits none of the hook's events in the range it is asked for.\<close>

definition serves :: "log list \<Rightarrow> chain \<Rightarrow> bool" where
  "serves L C \<longleftrightarrow> (\<forall>from to hook topic logs. ch_filter_logs C from to hook topic = Inr logs \<longrightarrow>
     (\<forall>lg \<in> set L. from \<le> lg_block lg \<longrightarrow> lg_block lg \<le> to \<longrightarrow> lg \<in> set logs))"

section \<open>The contract\<close>

text \<open>A repository in which the block cursor cannot be set.\<close>

definition frozen :: "'s repo \<Rightarrow> 's repo" where
  "frozen RP = RP\<lparr>rp_set_watcher_block_cursor := \<lambda>_ _ s. (s, Inr ())\<rparr>"

lemma frozen_step: "repo_step (frozen RP) s t \<Longrightarrow> repo_step RP s t \<or> t = s"
  by (erule repo_stepE) (auto simp: frozen_def intro: repo_step.intros)

lemma frozen_run: "repo_run (frozen RP) s t \<Longrightarrow> repo_run RP s t"
proof (induction rule: repo_run.induct)
  case (rr_step t u)
  then show ?case using frozen_step [OF rr_step.hyps(2)] repo_run.rr_step [OF rr_step.IH] by auto
qed (rule rr_refl)

locale chain_log = repository RP ok consumer allowed
  for RP :: "'s repo" and ok :: "'s \<Rightarrow> bool" and consumer :: "'s \<Rightarrow> string \<Rightarrow> string option"
    and allowed :: "'s \<Rightarrow> string \<Rightarrow> (string \<times> string \<times> intent_snapshot) option" +
  fixes recorded :: "'s \<Rightarrow> string \<times> int \<Rightarrow> bool" and cursor :: "'s \<Rightarrow> u64 option"
  assumes quiet_cursor: "ok s \<Longrightarrow> repo_step (frozen RP) s t \<Longrightarrow> cursor t = cursor s"
    and step_recorded: "ok s \<Longrightarrow> repo_step RP s t \<Longrightarrow> recorded s k \<Longrightarrow> recorded t k"
    and record_law: "ok s \<Longrightarrow> rp_record_chain_execution RP now e s = (t, Inr ()) \<Longrightarrow>
      recorded t (ce_tx_hash e, ce_log_index e)"
    and get_law: "ok s \<Longrightarrow> rp_get_watcher_block_cursor RP s = (t, Inr c) \<Longrightarrow> cursor s = Some c"
    and set_cursor: "ok s \<Longrightarrow> cursor (fst (rp_set_watcher_block_cursor RP b h s)) \<in> {cursor s, Some b}"
    and set_law: "ok s \<Longrightarrow> rp_set_watcher_block_cursor RP b h s = (t, Inr ()) \<Longrightarrow> cursor t = Some b"
begin

lemma record_cursor: "ok s \<Longrightarrow> cursor (fst (rp_record_chain_execution RP now e s)) = cursor s"
  using quiet_cursor [OF _ st_record [of "frozen RP" s now e]] by (simp add: frozen_def)

lemma mark_cursor: "ok s \<Longrightarrow> cursor (fst (rp_mark_stale_user_ops RP now since s)) = cursor s"
  using quiet_cursor [OF _ st_mark_stale [of "frozen RP" s now since]] by (simp add: frozen_def)

lemma get_cursor: "ok s \<Longrightarrow> cursor (fst (rp_get_watcher_block_cursor RP s)) = cursor s"
  using quiet_cursor [OF _ st_get_cursor [of "frozen RP" s]] by (simp add: frozen_def)

lemma quiet_run: "repo_run (frozen RP) s t \<Longrightarrow> ok s \<Longrightarrow> cursor t = cursor s"
proof (induction rule: repo_run.induct)
  case (rr_step t u)
  then show ?case using quiet_cursor [OF run_ok [OF frozen_run [OF rr_step.hyps(1)]] rr_step.hyps(2)] by simp
qed simp

lemma run_recorded: "repo_run RP s t \<Longrightarrow> ok s \<Longrightarrow> recorded s k \<Longrightarrow> recorded t k"
proof (induction rule: repo_run.induct)
  case (rr_step t u)
  then show ?case using step_recorded [OF run_ok [OF rr_step.hyps(1)] rr_step.hyps(2)] by blast
qed

lemma ingest_one:
  assumes "ok s" "ingest_log uc E RP now lg s = (t, r)"
  shows "ok t \<and> cursor t = cursor s \<and> (recorded s k \<longrightarrow> recorded t k) \<and>
    (r = Inr () \<and> 4 \<le> length (lg_topics lg) \<longrightarrow>
       recorded t (ce_tx_hash (execution_of uc E lg), ce_log_index (execution_of uc E lg)))"
proof (cases "length (lg_topics lg) < 4")
  case True
  then show ?thesis using assms by (simp add: ingest_log_def)
next
  case False
  then have rec: "rp_record_chain_execution RP now (execution_of uc E lg) s = (t, r)"
    using assms(2) by (simp add: ingest_log_def)
  have st: "repo_step RP s t" using st_record [of RP s now "execution_of uc E lg"] rec by simp
  have "cursor t = cursor s" using record_cursor [OF assms(1), of now "execution_of uc E lg"] rec by simp
  moreover have "r = Inr () \<Longrightarrow> recorded t (ce_tx_hash (execution_of uc E lg), ce_log_index (execution_of uc E lg))"
    using record_law [OF assms(1)] rec by simp
  ultimately show ?thesis using step_ok [OF assms(1) st] step_recorded [OF assms(1) st] by blast
qed

lemma ingest_all:
  assumes "ok s" "ingest_logs uc E RP now lgs s = (t, r)"
  shows "ok t \<and> cursor t = cursor s \<and> (recorded s k \<longrightarrow> recorded t k) \<and>
    (r = Inr () \<longrightarrow> (\<forall>lg \<in> set lgs. 4 \<le> length (lg_topics lg) \<longrightarrow>
       recorded t (ce_tx_hash (execution_of uc E lg), ce_log_index (execution_of uc E lg))))"
  using assms
proof (induction lgs arbitrary: s k)
  case (Cons lg lgs)
  obtain u q where u: "ingest_log uc E RP now lg s = (u, q)" by fastforce
  note one = ingest_one [OF Cons.prems(1) u]
  show ?case
  proof (cases q)
    case (Inl e)
    then show ?thesis using Cons.prems(2) u one [of k] by auto
  next
    case (Inr x)
    then have rest: "ingest_logs uc E RP now lgs u = (t, r)" using Cons.prems(2) u by simp
    show ?thesis using Cons.IH [OF _ rest] one Inr by auto
  qed
qed auto

lemma block_effect:
  assumes s: "ok s" and pb: "poll_block uc E RP C now logs b s = (t, r)"
  shows "ok t" and "recorded s k \<Longrightarrow> recorded t k"
    and "cursor t = cursor s \<or>
      cursor t = Some b \<and> (\<forall>lg \<in> set logs. lg_block lg = b \<longrightarrow> 4 \<le> length (lg_topics lg) \<longrightarrow> recorded t (log_key uc E lg))"
    and "r = Inr () \<Longrightarrow> cursor t = Some b \<and>
      (\<forall>lg \<in> set logs. lg_block lg = b \<longrightarrow> 4 \<le> length (lg_topics lg) \<longrightarrow> recorded t (log_key uc E lg))"
proof -
  obtain u q where u: "ingest_logs uc E RP now (filter (\<lambda>lg. lg_block lg = b) logs) s = (u, q)" by fastforce
  note in_all = ingest_all [OF s u]
  define Here where "Here v \<longleftrightarrow> (\<forall>lg \<in> set logs. lg_block lg = b \<longrightarrow> 4 \<le> length (lg_topics lg) \<longrightarrow>
    recorded v (log_key uc E lg))" for v
  have here: "q = Inr () \<Longrightarrow> Here u" using in_all by (auto simp: Here_def log_key_def)
  have "ok t \<and> (recorded s k \<longrightarrow> recorded t k) \<and> (cursor t = cursor s \<or> cursor t = Some b \<and> Here t) \<and>
      (r = Inr () \<longrightarrow> cursor t = Some b \<and> Here t)"
  proof (cases "q = Inr () \<and> (\<exists>h. ch_header_hash C (sint b) = Inr h)")
    case False
    then have "t = u \<and> r \<noteq> Inr ()" using pb u by (cases q) (auto simp: poll_block_def split: sum.splits)
    then show ?thesis using in_all by blast
  next
    case True
    then obtain h where h: "ch_header_hash C (sint b) = Inr h" by blast
    then have set: "rp_set_watcher_block_cursor RP b h u = (t, r)" using pb u True by (simp add: poll_block_def)
    have st: "repo_step RP u t" using st_set_cursor [of RP u b h] set by simp
    have u_ok: "ok u" using in_all by blast
    have rec: "recorded u k' \<Longrightarrow> recorded t k'" for k' by (rule step_recorded [OF u_ok st])
    have "Here t" using here True rec by (auto simp: Here_def)
    moreover have "cursor t \<in> {cursor u, Some b}" using set_cursor [OF u_ok, of b h] set by simp
    moreover have "r = Inr () \<Longrightarrow> cursor t = Some b" using set_law [OF u_ok, of b h t] set by simp
    ultimately show ?thesis using in_all rec step_ok [OF u_ok st] by auto
  qed
  then show "ok t" "recorded s k \<Longrightarrow> recorded t k"
    "cursor t = cursor s \<or> cursor t = Some b \<and>
      (\<forall>lg \<in> set logs. lg_block lg = b \<longrightarrow> 4 \<le> length (lg_topics lg) \<longrightarrow> recorded t (log_key uc E lg))"
    "r = Inr () \<Longrightarrow> cursor t = Some b \<and>
      (\<forall>lg \<in> set logs. lg_block lg = b \<longrightarrow> 4 \<le> length (lg_topics lg) \<longrightarrow> recorded t (log_key uc E lg))"
    unfolding Here_def by blast+
qed

text \<open>
  The invariant of the watcher: whatever the cursor in the store, and the block in memory,
  say is done, is recorded.
\<close>

definition sound :: "ucase \<Rightarrow> eth \<Rightarrow> log list \<Rightarrow> u64 \<Rightarrow> 's \<Rightarrow> bool" where
  "sound uc E L B s \<longleftrightarrow> ok s \<and>
     (\<forall>n. cursor s = Some n \<longrightarrow> covered (\<lambda>lg. recorded s (log_key uc E lg)) L B n)"

definition sound_at :: "ucase \<Rightarrow> eth \<Rightarrow> log list \<Rightarrow> u64 \<Rightarrow> u64 \<times> 's \<Rightarrow> bool" where
  "sound_at uc E L B st \<longleftrightarrow> sound uc E L B (snd st) \<and>
     covered (\<lambda>lg. recorded (snd st) (log_key uc E lg)) L B (fst st)"

lemma block_sound:
  assumes s: "sound uc E L B s" and below: "covered_below (\<lambda>lg. recorded s (log_key uc E lg)) L B b"
    and logs: "\<And>lg. lg \<in> set L \<Longrightarrow> B < b \<Longrightarrow> lg_block lg = b \<Longrightarrow> 4 \<le> length (lg_topics lg) \<Longrightarrow>
      lg \<in> set logs \<or> recorded s (log_key uc E lg)"
    and pb: "poll_block uc E RP C now logs b s = (t, r)"
  shows "sound uc E L B t"
    and "covered (\<lambda>lg. recorded s (log_key uc E lg)) L B n \<Longrightarrow> covered (\<lambda>lg. recorded t (log_key uc E lg)) L B n"
    and "r = Inr () \<Longrightarrow> covered (\<lambda>lg. recorded t (log_key uc E lg)) L B b"
proof -
  have s_ok: "ok s" using s by (simp add: sound_def)
  note eff = block_effect [OF s_ok pb]
  have here: "covered (\<lambda>lg. recorded t (log_key uc E lg)) L B b"
    if "\<forall>lg \<in> set logs. lg_block lg = b \<longrightarrow> 4 \<le> length (lg_topics lg) \<longrightarrow> recorded t (log_key uc E lg)"
    using that logs eff(2) by (intro below_covered [OF covered_below_mono [OF below]]) blast+
  show "covered (\<lambda>lg. recorded s (log_key uc E lg)) L B n \<Longrightarrow>
      covered (\<lambda>lg. recorded t (log_key uc E lg)) L B n" for n
    by (erule covered_mono) (rule eff(2))
  then show "sound uc E L B t"
    using s eff(1,3) here unfolding sound_def by auto
  show "r = Inr () \<Longrightarrow> covered (\<lambda>lg. recorded t (log_key uc E lg)) L B b"
    using eff(4) here by blast
qed

lemma loop_sound:
  assumes st: "sound_at uc E L B (lastBlock, s)" and window: "from \<le> lastBlock + 1" "lastBlock < to"
    and logs: "\<And>lg. lg \<in> set L \<Longrightarrow> from \<le> lg_block lg \<Longrightarrow> lg_block lg \<le> to \<Longrightarrow> lg \<in> set logs"
    and ret: "poll_loop uc E RP C now logs to from lastBlock s = Some (st', r)"
  shows "sound_at uc E L B st'"
proof -
  let ?R = "\<lambda>s lg. recorded s (log_key uc E lg)"
  let ?I = "\<lambda>b l s. sound_at uc E L B (l, s) \<and> covered_below (?R s) L B b \<and> covered_below (?R s) L B from"
  obtain l' s' where st': "st' = (l', s')" by (cases st')
  have step: "sound uc E L B t \<and> covered (?R t) L B l \<and> (r = Inr () \<longrightarrow> covered (?R t) L B b) \<and>
      covered_below (?R t) L B from"
    if "b \<le> to" "?I b l s" "poll_block uc E RP C now logs b s = (t, r)" for b l s t r
  proof -
    have snd: "sound uc E L B s" and cov: "covered (?R s) L B l" and below: "covered_below (?R s) L B b"
      and base: "covered_below (?R s) L B from"
      using that(2) by (simp_all add: sound_at_def)
    have "lg \<in> set logs \<or> ?R s lg" if "lg \<in> set L" "B < b" "lg_block lg = b" "4 \<le> length (lg_topics lg)" for lg
      using that logs [of lg] base \<open>b \<le> to\<close> by (auto simp: covered_below_def not_less [symmetric])
    note eff = block_sound [OF snd below this that(3)]
    have "covered_below (?R t) L B from"
      using block_effect(2) [OF _ that(3)] snd by (intro covered_below_mono [OF base]) (simp add: sound_def)
    then show ?thesis using eff cov by blast
  qed
  have from_below: "covered_below (?R s) L B from"
  proof -
    have "covered_below (?R s) L B (lastBlock + 1)"
      using st by (intro below_Suc) (simp add: sound_at_def)
    then show ?thesis using window(1) by (auto simp: covered_below_def)
  qed
  have "sound_at uc E L B (l', s')"
  proof (rule poll_loop_invariant [OF ret [unfolded st'], where I = ?I and Q = "\<lambda>st r. sound_at uc E L B st"])
    show "?I from lastBlock s" using st from_below by blast
    fix b l v t
    assume b: "b \<le> to" "?I b l v"
    show "?I (b + 1) b t" if "poll_block uc E RP C now logs b v = (t, Inr ())"
      using step [OF b that] below_Suc unfolding sound_at_def by auto
    show "sound_at uc E L B (l, t)" if "poll_block uc E RP C now logs b v = (t, Inl e)" for e
      using step [OF b that] by (simp add: sound_at_def)
  qed blast
  then show ?thesis by (simp add: st')
qed

lemma poll_sound:
  assumes st: "sound_at uc E L B st" and serves: "serves L C"
    and ret: "poll uc E RP c C now st = Some (st', r)"
  shows "sound_at uc E L B st'"
proof (cases "st' = st")
  case True
  then show ?thesis using st by simp
next
  case False
  obtain l s where l: "st = (l, s)" by (cases st)
  from False ret obtain to logs where *: "l < to"
    "ch_filter_logs C (poll_from (of_int (watcher_rescan_blocks c)) l) to
       (hex_to_address E (hook_address c)) (execution_allowed_sig E) = Inr logs"
    "poll_loop uc E RP C now logs to (poll_from (of_int (watcher_rescan_blocks c)) l) l s = Some (st', r)"
    by (auto simp: poll_def l Let_def linorder_not_le split: sum.splits prod.splits if_splits)
  have "poll_from rescan l \<le> l + 1" for rescan by (auto simp: poll_from_def Let_def)
  moreover have "lg \<in> set logs" if "lg \<in> set L" "poll_from (of_int (watcher_rescan_blocks c)) l \<le> lg_block lg"
    "lg_block lg \<le> to" for lg
    using serves that *(2) unfolding serves_def by blast
  ultimately show ?thesis using loop_sound [OF st [unfolded l] _ *(1) _ *(3)] by blast
qed

lemma mark_sound:
  assumes "sound_at uc E L B (l, s)"
  shows "sound_at uc E L B (l, fst (rp_mark_stale_user_ops RP now since s))"
proof -
  have s: "ok s" using assms by (simp add: sound_at_def sound_def)
  have st: "repo_step RP s (fst (rp_mark_stale_user_ops RP now since s))" by (rule st_mark_stale)
  have "covered (\<lambda>lg. recorded (fst (rp_mark_stale_user_ops RP now since s)) (log_key uc E lg)) L B n"
    if "covered (\<lambda>lg. recorded s (log_key uc E lg)) L B n" for n
    using that by (rule covered_mono) (rule step_recorded [OF s st])
  then show ?thesis
    using assms step_ok [OF s st] mark_cursor [OF s] unfolding sound_at_def sound_def by auto
qed

lemma tick_sound:
  assumes "sound_at uc E L B st" "serves L C" "tick uc E RP c C now st = Some (st', r)"
  shows "sound_at uc E L B st'"
proof -
  let ?s = "fst (rp_mark_stale_user_ops RP now (stale_cutoff c now) (snd st))"
  have "sound_at uc E L B (fst st, ?s)" using assms(1) by (cases st) (simp add: mark_sound)
  moreover have "poll uc E RP c C now (fst st, ?s) = Some (st', r)"
    using assms(3) by (simp add: tick_def split_beta Let_def)
  ultimately show ?thesis by (rule poll_sound [OF _ assms(2)])
qed

lemma ticks_sound:
  assumes "sound_at uc E L B st" "\<forall>v \<in> set vs. serves L (snd v)" "ticks uc E RP c vs st = Some st'"
  shows "sound_at uc E L B st'"
  using assms
proof (induction vs arbitrary: st)
  case (Cons v vs)
  then obtain st1 r where "tick uc E RP c (snd v) (fst v) st = Some (st1, r)" "ticks uc E RP c vs st1 = Some st'"
    by (auto split: option.splits)
  then show ?case using Cons.IH [of st1] tick_sound [OF Cons.prems(1), of "snd v" c "fst v" st1 r] Cons.prems(2)
    by simp
qed simp

lemma start_sound:
  assumes s: "sound uc E L B s"
    and B: "B = (if 0 < watcher_start_block c then of_int (watcher_start_block c - 1) else 0)"
  shows "sound_at uc E L B (start_block RP c s)"
proof -
  obtain t r where g: "rp_get_watcher_block_cursor RP s = (t, r)" by fastforce
  have s_ok: "ok s" using s by (simp add: sound_def)
  have st: "repo_step RP s t" using st_get_cursor [of RP s] g by simp
  note rec = step_recorded [OF s_ok st]
  have cur: "cursor t = cursor s" using get_cursor [OF s_ok] g by simp
  have "covered (\<lambda>lg. recorded t (log_key uc E lg)) L B n" if "cursor s = Some n" for n
    using s that rec unfolding sound_def by (blast intro: covered_mono)
  moreover have "covered (\<lambda>lg. recorded t (log_key uc E lg)) L B B" by (rule covered_self)
  ultimately show ?thesis
    using g get_law [OF s_ok, of t] cur step_ok [OF s_ok st] B
    by (cases r) (auto simp: start_block_def sound_at_def sound_def)
qed

lemma run_sound:
  assumes "sound uc E L B s" "B = (if 0 < watcher_start_block c then of_int (watcher_start_block c - 1) else 0)"
    and "\<forall>v \<in> set vs. serves L (snd v)" "watcher_run uc E RP c dial vs s = Some t"
  shows "sound uc E L B t"
proof -
  have "sound uc E L B (snd st)" if "ticks uc E RP c vs (start_block RP c s) = Some st" for st
    using ticks_sound [OF start_sound [OF assms(1,2)] assms(3) that] by (simp add: sound_at_def)
  then show ?thesis using assms(1,4) by (auto simp: watcher_run_def split: if_splits)
qed

text \<open>A poll that succeeds and had something to do has reached the safe head.\<close>

lemma loop_reaches:
  assumes ret: "poll_loop uc E RP C now logs to from lastBlock s = Some ((l, t), Inr ())"
    and window: "from \<le> to" and s: "ok s"
  shows "l = to \<and> cursor t = Some to"
proof -
  obtain u r where u: "poll_block uc E RP C now logs from s = (u, r)" by fastforce
  have rest: "r = Inr ()" "poll_loop uc E RP C now logs to (from + 1) from u = Some ((l, t), Inr ())"
    using ret u window by (auto simp: poll_loop.simps [of _ _ _ _ _ _ _ "from"] split: sum.splits)
  let ?I = "\<lambda>b l s. ok s \<and> b = l + 1 \<and> l \<le> to \<and> cursor s = Some l"
  let ?Q = "\<lambda>st (r :: unit res). r = Inr () \<longrightarrow> fst st = to \<and> cursor (snd st) = Some to"
  have "?Q (l, t) (Inr ())"
  proof (rule poll_loop_invariant [OF rest(2), where I = ?I and Q = ?Q])
    show "?I (from + 1) from u" using block_effect [OF s u] rest(1) window by simp
    fix b k v w
    show "?I (b + 1) b w" if "b \<le> to" "?I b k v" "poll_block uc E RP C now logs b v = (w, Inr ())"
      using block_effect [of v uc E C now logs b w "Inr ()"] that by simp
    show "?Q (k, v) (Inr ())" if "\<not> b \<le> to" "?I b k v"
    proof -
      have "\<not> k < to" using that inc_le [of k to] by auto
      then show ?thesis using that by auto
    qed
  qed simp
  then show ?thesis by simp
qed

end

section \<open>\<open>Store\<close> provides it\<close>

definition db_recorded :: "db \<Rightarrow> string \<times> int \<Rightarrow> bool" where
  "db_recorded s k \<longleftrightarrow>
     (\<exists>r \<in> set (chain_executions s). (ce_tx_hash (cr_execution r), ce_log_index (cr_execution r)) = k)"

definition db_cursor :: "db \<Rightarrow> u64 option" where
  "db_cursor s =
    (case watcher_state s ''last_block'' of
       None \<Rightarrow> None
     | Some v \<Rightarrow> (case scan_u64 v of Inl _ \<Rightarrow> None | Inr c \<Rightarrow> Some c))"

lemma scan_show [simp]: "scan_u64 (show_nat (unat b)) = Inr b"
  using unat_u64 [of b] by (simp add: scan_u64_def parse_show_nat)

lemma db_cursor_cong: "watcher_state t = watcher_state s \<Longrightarrow> db_cursor t = db_cursor s"
  by (simp add: db_cursor_def)

text \<open>Every statement but one leaves the table of the cursor alone.\<close>

interpretation watch: sql_relation "\<lambda>s t. watcher_state t = watcher_state s"
  by unfold_locales simp_all

lemma watch_same: "(\<And>s. watcher_state (fst (m s)) = watcher_state s) \<Longrightarrow> watch.keeps m"
  by (rule watch.keepsI)

lemma watch_sessions: "watch.keeps (insert_session P f sid ag cfg st)"
  unfolding insert_session_def by (rule watch_same) (simp split: option.split)

lemma watch_authorize: "watch.keeps (authorize_session P d sid ag cfg)"
proof -
  have "watch.keeps (consume_decision d sid)"
    by (rule watch_same) (simp add: consume_decision_def Let_def split_beta)
  then show ?thesis
    unfolding authorize_session_def by (intro watch.keeps_intros watch_sessions)
qed

lemma watch_commit: "watch.keeps (commit_budget_on_chain_execution P now sid d)"
  unfolding commit_budget_on_chain_execution_def
  by (intro watch.keeps_intros watch_same) (simp split: list.split)

lemma watch_operations:
  "watch.keeps (save_intent P h ag ac ch tok rec am mp mt ab dm pa idem)"
  "watch.keeps (save_decision d h dec rc ph)" "watch.keeps (save_session_draft P sid ag cfg st)"
  "watch.keeps (save_reservation P r sid h ag am st idem)" "watch.keeps (update_reservation_status r st)"
  "watch.keeps (save_user_op now u r sid st b)" "watch.keeps (finalize_user_op now u tx bn st)"
  "watch.keeps (save_receipt d h sid rh pl sg k)" "watch.keeps (get_receipt d)" "watch.keeps (get_allow_decision d)"
  "watch.keeps (get_reservation_id_by_user_op u)" "watch.keeps (get_reservation_id_by_idempotency k)"
  "watch.keeps (bind_reservation_execution_digest r d)" "watch.keeps get_watcher_block_cursor"
  "watch.keeps (record_chain_execution P now e)" "watch.keeps (get_chain_execution_by_session_id P sid)"
  "watch.keeps (get_session_reserve_snapshot P sid)" "watch.keeps (mark_stale_user_ops now since)"
  unfolding save_intent_def save_decision_def save_session_draft_def save_reservation_def
    update_reservation_status_def save_user_op_def finalize_user_op_def save_receipt_def get_receipt_def
    get_allow_decision_def get_reservation_id_by_user_op_def get_reservation_id_by_idempotency_def
    bind_reservation_execution_digest_def get_watcher_block_cursor_def record_chain_execution_def
    get_chain_execution_by_session_id_def get_session_reserve_snapshot_def mark_stale_user_ops_def
  by (intro watch.keeps_intros watch_commit watch_sessions watch_same;
      simp add: set_status_def Let_def split_beta split: option.split)+

lemma frozen_pg_cursor:
  assumes "repo_step (frozen (pg_repo P)) s t"
  shows "db_cursor t = db_cursor s"
proof (rule db_cursor_cong)
  show "watcher_state t = watcher_state s"
    using assms
    by cases (simp_all add: frozen_def watch.keepsD watch_operations watch_authorize watch_commit)
qed

lemma record_Inr:
  assumes "record_chain_execution P now e s = (t, Inr ())"
  shows "db_recorded t (ce_tx_hash e, ce_log_index e)"
proof -
  let ?commit = "if ce_execution_digest e = '''' then (\<lambda>s. (s, Inr ()))
         else commit_budget_on_chain_execution P now (ce_session_id e) (ce_execution_digest e)"
  obtain u y where ins: "stmt (\<lambda>s.
      case (numeric_in P (ce_frame_spend e), numeric_in P (ce_total_spend_after e)) of
        (Some f, Some t) \<Rightarrow>
          if \<exists>r \<in> set (chain_executions s). ce_tx_hash (cr_execution r) = ce_tx_hash e \<and>
               ce_log_index (cr_execution r) = ce_log_index e
          then (s, Inr ())
          else if ce_execution_digest e \<noteq> '''' \<and>
               (\<exists>r \<in> set (chain_executions s). cr_digest r = Some (ce_execution_digest e))
          then (s, Inl sql_error)
          else (s\<lparr>chain_executions := chain_executions s @
            [\<lparr>cr_execution = e\<lparr>ce_frame_spend := f, ce_total_spend_after := t\<rparr>,
              cr_digest = (if ce_execution_digest e = '''' then None else Some (ce_execution_digest e)),
              cr_created_at = db_now s\<rparr>]\<rparr>, Inr ())
      | _ \<Rightarrow> (s, Inl sql_error)) s = (u, Inr y)"
    and rest: "?commit u = (t, Inr ())"
    using assms unfolding record_chain_execution_def by (rule bind_Inr)
  have u: "db_recorded u (ce_tx_hash e, ce_log_index e)"
    using stmt_Inr [OF ins] by (auto simp: db_recorded_def split: option.splits if_splits)
  have "chain_executions t = chain_executions u"
    using rest by (auto simp: commit_budget_on_chain_execution_def stmt_def Let_def
        split: if_splits fault.splits list.splits)
  then show ?thesis using u by (simp add: db_recorded_def)
qed

lemma get_cursor_Inr:
  assumes "get_watcher_block_cursor s = (t, Inr c)"
  shows "db_cursor s = Some c"
proof -
  obtain u v where q: "query_row (\<lambda>s. watcher_state s ''last_block'') s = (u, Inr v)"
    and c: "(u, scan_u64 v) = (t, Inr c)"
    using assms unfolding get_watcher_block_cursor_def by (rule bind_Inr)
  have "watcher_state s ''last_block'' = Some v" using query_row_Inr [OF q] by simp
  then show ?thesis using c by (simp add: db_cursor_def)
qed

lemma set_cursor_effect:
  assumes "set_watcher_block_cursor b h s = (t, r)"
  shows "db_cursor t \<in> {db_cursor s, Some b}" "r = Inr () \<Longrightarrow> db_cursor t = Some b"
  using assms
  by (auto simp: set_watcher_block_cursor_def sql_bind_def stmt_def Let_def db_cursor_def
      split: fault.splits if_splits prod.splits)

lemma grows_recorded: "grows s t \<Longrightarrow> db_recorded s k \<Longrightarrow> db_recorded t k"
proof -
  assume "grows s t"
  then obtain zs where "chain_executions t = chain_executions s @ zs" by (auto simp: grows_def prefix_of_def)
  then show "db_recorded s k \<Longrightarrow> db_recorded t k" by (auto simp: db_recorded_def)
qed

interpretation pgw: chain_log "pg_repo P" db_ok db_consumer db_allowed db_recorded db_cursor for P
proof unfold_locales
  fix s t k now since e b h c
  show "db_recorded t k" if "db_ok s" "repo_step (pg_repo P) s t" "db_recorded s k"
    using grows_recorded [OF conjunct2 [OF pg_step [OF that(1,2)]] that(3)] .
  show "db_recorded t (ce_tx_hash e, ce_log_index e)"
    if "rp_record_chain_execution (pg_repo P) now e s = (t, Inr ())"
    by (rule record_Inr [where P = P and now = now and s = s]) (use that in simp)
  show "db_cursor t = db_cursor s" if "repo_step (frozen (pg_repo P)) s t"
    by (rule frozen_pg_cursor [OF that])
  show "db_cursor s = Some c" if "rp_get_watcher_block_cursor (pg_repo P) s = (t, Inr c)"
    by (rule get_cursor_Inr [where s = s and t = t]) (use that in simp)
  show "db_cursor (fst (rp_set_watcher_block_cursor (pg_repo P) b h s)) \<in> {db_cursor s, Some b}"
    using set_cursor_effect(1) [OF prod.collapse [symmetric], of b h s] by simp
  show "db_cursor t = Some b" if "rp_set_watcher_block_cursor (pg_repo P) b h s = (t, Inr ())"
    using set_cursor_effect(2) [of b h s t "Inr ()"] that by simp
qed

end
