(* ===== verification/Server_Log.thy ===== *)
theory Server_Log
  imports Server Watcher_Log
begin

text \<open>
  What the handlers do to the repository: each runs a sequence of repository operations, so
  the contract of \<open>Repository\<close> holds along any traffic; and what an answer of status 200 from
  \<open>registerSession\<close> says about the decision behind it.
\<close>

section \<open>A successful registration\<close>

definition register_answer :: "eth \<Rightarrow> string \<Rightarrow> string \<Rightarrow> string \<Rightarrow> string \<Rightarrow> response" where
  "register_answer E digest sig physical sessionID = Write_JSON 200 (JObj
     [(''authorizationDigest'', JStr (hash_hex E digest)),
      (''railguardSignature'', JStr (''0x'' @ server_hex sig)),
      (''sessionConfigPhysicalHash'', JStr (hash_hex E physical)),
      (''sessionId'', JStr (hash_hex E sessionID))])"

lemma register_ok:
  assumes "register_session uc E RP V (Some req) (s, w) = ((t, w'), resp)" and "ok_response resp"
  obtains h ph intent s1 sid physical digest sig where
    "rp_get_allow_decision RP (rq_decision_id req) s = (s1, Inr (h, ph, intent))"
    "equal_fold uc ph (policy_hash E (sv_policy V))"
    "validate_v1 uc (session_of V req ph intent) = Inr ()"
    "derive_session_id E (session_of V req ph intent) = Done sid"
    "sign_railguard E (sv_eip712 V) (session_of V req ph intent) = Done (digest, sig)"
    "rp_authorize_session RP (rq_decision_id req) (hash_hex E sid) (is_agent_id intent)
       (session_of V req ph intent) s1 = (t, Inr ())"
    "resp = register_answer E digest sig physical sid" "w' = w"
proof -
  obtain s1 r where g: "rp_get_allow_decision RP (rq_decision_id req) s = (s1, r)" by fastforce
  obtain h ph intent where r: "r = Inr (h, ph, intent)"
    using assms g by (cases r) (auto simp: register_session_def split: if_splits)
  let ?cfg = "session_of V req ph intent"
  have fold: "equal_fold uc ph (policy_hash E (sv_policy V))"
    using assms g r by (auto simp: register_session_def split: if_splits)
  have val: "validate_v1 uc ?cfg = Inr ()"
    using assms g r fold by (auto simp: register_session_def Let_def split: if_splits sum.splits)
  obtain sid where sid: "derive_session_id E ?cfg = Done sid"
    using assms g r fold val
    by (cases "derive_session_id E ?cfg") (auto simp: register_session_def recovered_def Let_def split: if_splits)
  obtain po where ph': "session_config_physical_hash E ?cfg = Done po"
    using sid by (auto simp: session_id_Done)
  obtain digest sig where sg: "sign_railguard E (sv_eip712 V) ?cfg = Done (digest, sig)"
    using assms g r fold val sid ph'
    by (cases "sign_railguard E (sv_eip712 V) ?cfg") (auto simp: register_session_def recovered_def Let_def split: if_splits)
  obtain s2 q where a: "rp_authorize_session RP (rq_decision_id req) (hash_hex E sid) (is_agent_id intent) ?cfg s1 = (s2, q)"
    by fastforce
  have "q = Inr () \<and> t = s2 \<and> w' = w \<and> resp = register_answer E digest sig po sid"
    using assms g r fold val sid ph' sg a
    by (cases q) (auto simp: register_session_def register_answer_def Let_def split: if_splits)
  then show thesis using that g r fold val sid sg a by blast
qed

section \<open>Every handler is a run of the repository\<close>

lemma repo_run_step: "repo_step RP s t \<Longrightarrow> repo_run RP s t"
  using rr_step [OF rr_refl] .

lemmas run_intros = repo_run_step [OF st_save_intent] repo_run_step [OF st_save_decision]
  repo_run_step [OF st_save_receipt] repo_run_step [OF st_get_allow] repo_run_step [OF st_authorize]
  repo_run_step [OF st_get_snapshot] repo_run_step [OF st_save_reservation] repo_run_step [OF st_get_by_key]
  repo_run_step [OF st_update_status] repo_run_step [OF st_bind] repo_run_step [OF st_save_user_op]
  repo_run_step [OF st_finalize] repo_run_step [OF st_get_by_op] repo_run_step [OF st_get_receipt]
  repo_run_step [OF st_get_chain]

text \<open>
  Each handler is a tree of cases over the answers of repository operations; these rules walk
  it, threading the repository's state.
\<close>

lemma run_case:
  assumes "repo_run RP s (fst m)" and "\<And>x. repo_run RP (fst m) (fst (fst (f (fst m) x)))"
  shows "repo_run RP s (fst (fst (case m of (s', x) \<Rightarrow> f s' x)))"
  using assms repo_run_trans by (cases m) fastforce

lemma run_world: "(\<And>a b. repo_run RP s (fst (fst (f a b)))) \<Longrightarrow> repo_run RP s (fst (fst (case m of (a, b) \<Rightarrow> f a b)))"
  by (cases m) simp

lemma run_sum:
  "(\<And>e. repo_run RP s (fst (fst (f e)))) \<Longrightarrow> (\<And>x. repo_run RP s (fst (fst (g x)))) \<Longrightarrow>
     repo_run RP s (fst (fst (case r of Inl e \<Rightarrow> f e | Inr x \<Rightarrow> g x)))"
  by (cases r) simp_all

lemma run_option:
  "repo_run RP s (fst (fst f)) \<Longrightarrow> (\<And>x. repo_run RP s (fst (fst (g x)))) \<Longrightarrow>
     repo_run RP s (fst (fst (case r of None \<Rightarrow> f | Some x \<Rightarrow> g x)))"
  by (cases r) simp_all

lemma run_outcome:
  "(\<And>x. repo_run RP s (fst (fst (f x)))) \<Longrightarrow> (\<And>e. repo_run RP s (fst (fst (g e)))) \<Longrightarrow>
     (\<And>p. repo_run RP s (fst (fst (h p)))) \<Longrightarrow>
     repo_run RP s (fst (fst (case r of Done x \<Rightarrow> f x | Fails e \<Rightarrow> g e | Panics p \<Rightarrow> h p)))"
  by (cases r) simp_all

lemma run_if:
  "repo_run RP s (fst (fst f)) \<Longrightarrow> repo_run RP s (fst (fst g)) \<Longrightarrow> repo_run RP s (fst (fst (if b then f else g)))"
  by simp

lemma run_done: "repo_run RP s (fst (fst ((s, w), r)))"
  by (simp add: rr_refl)

lemma run_bool:
  "repo_run RP s (fst (fst f)) \<Longrightarrow> repo_run RP s (fst (fst g)) \<Longrightarrow>
     repo_run RP s (fst (fst (case b of True \<Rightarrow> f | False \<Rightarrow> g)))"
  by (cases b) simp_all

lemmas walk = run_case run_world run_sum run_option run_outcome run_if run_bool run_done

lemma register_run: "repo_run RP s (fst (fst (register_session uc E RP V body (s, w))))"
  unfolding register_session_def Let_def prod.case
  by (intro walk) (rule run_intros run_done)+

lemma receipt_stored: "repo_run RP s (fst (store_receipt E RP V now req d h pout s))"
  by (auto simp: store_receipt_def rr_refl split: outcome.split intro: run_intros)

lemma evaluate_run: "repo_run RP s (fst (fst (evaluate_intent uc E RP R V body (s, w))))"
  unfolding evaluate_intent_def Let_def prod.case
  by (intro walk) (rule run_intros run_done receipt_stored)+

lemma persisted_run: "repo_run RP s (fst (fst (persist_reservation RP R req i (s, w))))"
  unfolding persist_reservation_def Let_def prod.case
  by (intro walk) (rule run_intros run_done)+

lemma reserve_run: "repo_run RP s (fst (fst (reserve_budget uc RP R body (s, w))))"
  unfolding reserve_budget_def Let_def prod.case
  by (intro walk) (rule run_intros run_done persisted_run)+

lemma bound_run:
  "repo_run RP s (fst (if d \<noteq> '''' then rp_bind_reservation_execution_digest RP i d s else (s, Inr ())))"
  by (auto intro: run_intros simp: rr_refl)

lemma submitted_run: "repo_run RP s (fst (fst (user_op_submitted RP R body (s, w))))"
  unfolding user_op_submitted_def Let_def prod.case
  by (intro walk) (rule run_intros run_done bound_run)+

lemma settled_run: "repo_run RP s (fst (fst (case r of Inl _ \<Rightarrow> (s, w) | Inr i \<Rightarrow> settle RP R status i (s, w), x)))"
  by (cases r) (auto simp: settle_def rr_refl intro: run_intros)

lemma finalized_run: "repo_run RP s (fst (fst (user_op_finalized uc RP R body (s, w))))"
  unfolding user_op_finalized_def Let_def prod.case
  by (intro walk) (rule run_intros run_done settled_run)+

lemma receipt_run: "repo_run RP s (fst (fst (get_receipt_handler RP i (s, w))))"
  unfolding get_receipt_handler_def Let_def prod.case
  by (intro walk) (rule run_intros run_done)+

lemma chain_run: "repo_run RP s (fst (fst (get_chain_execution_handler RP i (s, w))))"
  unfolding get_chain_execution_handler_def Let_def prod.case
  by (intro walk) (rule run_intros run_done)+

lemma router_run: "repo_run RP s (fst (fst (router uc E RP R V hdr q (s, w))))"
  by (cases q) (simp_all add: router_def require_api_key_cases health_def rr_refl evaluate_run
      register_run reserve_run submitted_run finalized_run receipt_run chain_run)

section \<open>Traffic\<close>

text \<open>
  What can happen to the store while the service runs: requests in any order, each at some
  state of the world behind Redis, and polls of the watcher.
\<close>

inductive traffic :: "ucase \<Rightarrow> eth \<Rightarrow> 's repo \<Rightarrow> 'w redis \<Rightarrow> server \<Rightarrow> 's \<Rightarrow> 's \<Rightarrow> bool"
  for uc E RP R V s where
  tr_start: "traffic uc E RP R V s s"
| tr_request: "traffic uc E RP R V s t \<Longrightarrow> traffic uc E RP R V s (fst (fst (router uc E RP R V hdr q (t, w))))"
| tr_watcher: "traffic uc E RP R V s t \<Longrightarrow> tick uc E RP c C now (l, t) = Some ((l', t'), r) \<Longrightarrow>
    traffic uc E RP R V s t'"

lemma ingest_run: "ingest_logs uc E RP now lgs s = (t, r) \<Longrightarrow> repo_run RP s t"
proof (induction lgs arbitrary: s)
  case (Cons lg lgs)
  obtain u q where u: "ingest_log uc E RP now lg s = (u, q)" by fastforce
  have su: "repo_run RP s u"
    using u repo_run_step [OF st_record [of RP s now "execution_of uc E lg"]]
    by (auto simp: ingest_log_def rr_refl split: if_splits)
  show ?case
  proof (cases q)
    case (Inl e)
    then show ?thesis using Cons.prems u su by simp
  next
    case (Inr x)
    then have "repo_run RP u t" using Cons u by simp
    then show ?thesis using su by (rule repo_run_trans)
  qed
qed (simp add: rr_refl)

lemma block_run:
  assumes "poll_block uc E RP C now logs b s = (t, r)"
  shows "repo_run RP s t"
proof -
  obtain u q where u: "ingest_logs uc E RP now (filter (\<lambda>lg. lg_block lg = b) logs) s = (u, q)" by fastforce
  have su: "repo_run RP s u" by (rule ingest_run [OF u])
  have "t = u \<or> (\<exists>h. t = fst (rp_set_watcher_block_cursor RP b h u))"
    using assms u by (auto simp: poll_block_def split: sum.splits) (metis fst_conv)
  then show ?thesis using su repo_run_trans [OF repo_run_step [OF st_set_cursor] su] by auto
qed

lemma tick_run:
  assumes "tick uc E RP c C now (l, s) = Some ((l', t), r)"
  shows "repo_run RP s t"
proof -
  let ?m = "fst (rp_mark_stale_user_ops RP now (stale_cutoff c now) s)"
  have m: "repo_run RP s ?m" by (rule repo_run_step [OF st_mark_stale])
  have p: "poll uc E RP c C now (l, ?m) = Some ((l', t), r)"
    using assms by (simp add: tick_def split_beta Let_def)
  have "repo_run RP ?m t"
  proof (cases "t = ?m")
    case False
    with p obtain to logs b where loop: "poll_loop uc E RP C now logs to b l ?m = Some ((l', t), r)"
      by (auto simp: poll_def Let_def split: sum.splits prod.splits if_splits)
    let ?Q = "\<lambda>st (r :: unit res). repo_run RP ?m (snd st)"
    have "?Q (l', t) r"
      by (rule poll_loop_invariant [OF loop, where I = "\<lambda>_ _ u. repo_run RP ?m u" and Q = ?Q])
        (auto simp: rr_refl dest: block_run intro: repo_run_trans)
    then show ?thesis by simp
  qed (simp add: rr_refl)
  then show ?thesis using m by (rule repo_run_trans)
qed

lemma traffic_run: "traffic uc E RP R V s t \<Longrightarrow> repo_run RP s t"
proof (induction rule: traffic.induct)
  case tr_start
  show ?case by (rule rr_refl)
next
  case tr_request
  show ?case by (rule repo_run_trans [OF router_run tr_request.IH])
next
  case tr_watcher
  show ?case by (rule repo_run_trans [OF tick_run [OF tr_watcher.hyps(2)] tr_watcher.IH])
qed

end
