(* ===== verification/Server_Props.thy ===== *)
theory Server_Props
  imports Server_Log Store_Props Reservation_Props
begin

text \<open>
  The properties of the handlers, where the components meet: what a cosigned session rests on,
  what the router protects, what a granted reservation has passed, and where the checks of the
  store and of Redis do not fit together.
\<close>

section \<open>A sample deployment\<close>

definition sample_pe :: engine where
  "sample_pe = \<lparr>pe_policy = ''policy'', pe_eval = (\<lambda>_. Inr [[JObj [(''decision'', JStr ''ALLOW'')]]])\<rparr>"

definition deploy_config :: config where
  "deploy_config = (load plain_case (\<lambda>_. ''''))\<lparr>api_key := ''k'', chain_id := 8, adapter_address := ''0xE5'',
     railguard_signer_key := ''0xk'', receipt_signer_key := '''', signer_key_id := ''key-1''\<rparr>"

definition sample_server :: server where
  "sample_server = server_new deploy_config sample_pe"

definition sample_policy_hash :: string where
  "sample_policy_hash = policy_hash sample_eth sample_pe"

definition stored_intent :: intent_row where
  "stored_intent =
    \<lparr>ir_intent_hash = ''h'', ir_agent_id = ''a'', ir_account = ''0xA1'', ir_chain_id = 8, ir_token = ''0xC3'',
     ir_recipient = ''0xD4'', ir_amount = ''5'', ir_max_per_transfer = Some ''10'',
     ir_max_total_spend = Some ''25'', ir_allow_batch = False, ir_domain = ''d'', ir_path = ''/'',
     ir_idempotency_key = ''ik''\<rparr>"

definition deploy_db :: db where
  "deploy_db = empty_db\<lparr>payment_intents := [stored_intent],
     policy_decisions := [sample_decision\<lparr>dr_policy_hash := sample_policy_hash\<rparr>]\<rparr>"

definition sample_register :: register_session_req where
  "sample_register =
    \<lparr>rq_decision_id = ''d'', rq_session_key = ''0xB2'', rq_nonce_key = ''7'', rq_valid_after = 100,
     rq_valid_until = 200\<rparr>"

definition deploy_session :: session_config where
  "deploy_session = sample_transfer\<lparr>sc_policy_hash := sample_policy_hash\<rparr>"

lemma deploy_db_ok: "db_ok deploy_db" "db_faults deploy_db = []"
  by (simp_all add: db_ok_def deploy_db_def empty_db_def decisions_ok_def decision_ok_def sample_decision_def)

lemma deploy_config_simps [simp]:
  "sv_cfg sample_server = deploy_config" "sv_policy sample_server = sample_pe"
  "sv_eip712 sample_server = sample_railguard"
  "chain_id deploy_config = 8" "adapter_address deploy_config = ''0xE5''"
  "railguard_signer_key deploy_config = ''0xk''" "api_key deploy_config = ''k''"
  "receipt_signer_key deploy_config = ''''"
  by (simp_all add: sample_server_def server_new_def deploy_config_def sample_railguard_def)

lemma deploy_session_of:
  "session_of sample_server sample_register sample_policy_hash (snapshot_of stored_intent) = deploy_session"
  by (simp add: session_of_def snapshot_of_def stored_intent_def sample_register_def deploy_session_def
      sample_transfer_def sample_session_def transfer_selector_def)

lemma sample_policy_hash_ok:
  "\<exists>b. hex_decode (trim_prefix sample_policy_hash ''0x'') = Inr b \<and> length b = 32"
  by (simp add: sample_policy_hash_def policy_hash_def trim_prefix_def has_prefix_def sample_pe_def sample_eth_def)

lemma deploy_session_valid: "validate_v1 plain_case deploy_session = Inr ()"
  unfolding validate_v1_ok_iff
  using sample_policy_hash_ok
  by (auto simp: v1_ok_def deploy_session_def sample_transfer_def sample_session_def sample_numbers not_blank_0x)

lemma deploy_derives: "\<exists>sid. derive_session_id sample_eth deploy_session = Done sid"
  using sample_derives by (simp add: deploy_session_def derive_session_id_ignores_policy_hash)

lemma deploy_typed_data: "\<exists>td. typed_data_of sample_eth s deploy_session = Done td"
  by (simp add: typed_data_of_Done deploy_session_def sample_transfer_def sample_selector)

lemma deploy_signs: "\<exists>digest sig. sign_railguard sample_eth sample_railguard deploy_session = Done (digest, sig)"
proof -
  obtain td where td: "typed_data_of sample_eth sample_railguard deploy_session = Done td"
    using deploy_typed_data by blast
  let ?d = "replicate 32 CHR ''d''"
  have "typed_data_hash sample_eth td = Inr ?d" by (simp add: sample_eth_def)
  then have h: "authorization_hash sample_eth sample_railguard deploy_session = Done ?d"
    using td by (simp add: authorization_hash_def bytes_to_hash_id)
  obtain key where key: "hex_to_ecdsa sample_eth (trim_prefix (rg_signer_key sample_railguard) ''0x'') = Inr key"
    by (simp add: sample_eth_def)
  have sg: "ecdsa_sign sample_eth ?d key = Inr (fixed_length 65 (key @ ?d))" by (simp add: sample_eth_def)
  have "rg_signer_key sample_railguard \<noteq> ''''" by (simp add: sample_railguard_def)
  then show ?thesis using h key sg by (simp add: sign_railguard_Done add_at_27)
qed

lemma deploy_allow:
  assumes "db_faults s = []" "payment_intents s = [stored_intent]" "decision_of ''d'' s = Some r"
    and "dr_decision r = ''ALLOW''" "dr_intent_hash r = ''h''" "dr_policy_hash r = sample_policy_hash"
  shows "get_allow_decision ''d'' s = (s, Inr (''h'', sample_policy_hash, snapshot_of stored_intent))"
proof -
  have "ir_intent_hash stored_intent = ''h''" by (simp add: stored_intent_def)
  then show ?thesis
    using assms by (simp add: get_allow_decision_def sql_bind_def or_error_def query_row_healthy)
qed

lemma deploy_allows: "get_allow_decision ''d'' deploy_db = (deploy_db, Inr (''h'', sample_policy_hash, snapshot_of stored_intent))"
  by (rule deploy_allow [where r = "sample_decision\<lparr>dr_policy_hash := sample_policy_hash\<rparr>"])
    (simp_all add: deploy_db_ok deploy_db_def empty_db_def sample_decision_def decision_of_def)

lemma deploy_registers_on:
  assumes "rp_get_allow_decision RP ''d'' s = (s1, Inr (''h'', sample_policy_hash, snapshot_of stored_intent))"
    and "derive_session_id sample_eth deploy_session = Done sid"
    and "rp_authorize_session RP ''d'' sid ''a'' deploy_session s1 = (t, Inr ())"
  shows "\<exists>resp. register_session plain_case sample_eth RP sample_server (Some sample_register) (s, w) =
      ((t, w), resp) \<and> ok_response resp"
proof -
  obtain digest sig where sg: "sign_railguard sample_eth sample_railguard deploy_session = Done (digest, sig)"
    using deploy_signs by blast
  obtain ph where ph: "session_config_physical_hash sample_eth deploy_session = Done ph"
    using assms(2) by (auto simp: session_id_Done)
  have req: "rq_decision_id sample_register = ''d''" "rq_session_key sample_register = ''0xB2''"
    "rq_nonce_key sample_register = ''7''" "rq_valid_after sample_register = 100" "rq_valid_until sample_register = 200"
    by (simp_all add: sample_register_def)
  have hex: "hash_hex sample_eth sid = sid" by (simp add: sample_eth_def)
  have agent: "is_agent_id (snapshot_of stored_intent) = ''a''" by (simp add: snapshot_of_def stored_intent_def)
  show ?thesis
    using assms sg ph
    by (simp add: register_session_def req deploy_session_of deploy_session_valid hex agent
        sample_policy_hash_def [symmetric])
qed

lemma deploy_registers:
  assumes "get_allow_decision ''d'' s = (s, Inr (''h'', sample_policy_hash, snapshot_of stored_intent))"
    and "derive_session_id sample_eth deploy_session = Done sid"
    and "authorize_session sample_pg ''d'' sid ''a'' deploy_session s = (t, Inr ())"
  shows "\<exists>resp. register_session plain_case sample_eth (pg_repo sample_pg) sample_server (Some sample_register) (s, w) =
      ((t, w), resp) \<and> ok_response resp"
  by (rule deploy_registers_on) (use assms in simp_all)

lemma deploy_authorizes:
  obtains sid t r where "derive_session_id sample_eth deploy_session = Done sid"
    "authorize_session sample_pg ''d'' sid ''a'' deploy_session deploy_db = (t, Inr ())"
    "db_faults t = []" "payment_intents t = [stored_intent]" "decision_of ''d'' t = Some r"
    "dr_decision r = ''ALLOW''" "dr_intent_hash r = ''h''" "dr_policy_hash r = sample_policy_hash"
    "dr_consumed_at r \<noteq> None" "dr_consumed_session r = Some sid"
proof -
  obtain sid where sid: "derive_session_id sample_eth deploy_session = Done sid" using deploy_derives by blast
  let ?d = "sample_decision\<lparr>dr_policy_hash := sample_policy_hash\<rparr>"
  let ?r = "?d\<lparr>dr_consumed_at := Some 0, dr_consumed_session := Some sid\<rparr>"
  have dec: "decision_of ''d'' deploy_db = Some ?d"
    by (simp add: decision_of_def deploy_db_def sample_decision_def)
  have caps: "sc_max_per_transfer deploy_session = ''10''" "sc_max_total_spend deploy_session = ''25''"
    by (simp_all add: deploy_session_def sample_transfer_def sample_session_def)
  have fields: "dr_decision ?d = ''ALLOW''" "dr_consumed_at ?d = None" "dr_decision_id ?d = ''d''"
    by (simp_all add: sample_decision_def)
  let ?t = "deploy_db\<lparr>policy_decisions := [?r],
    sessions := [session_row_of sid ''a'' deploy_session ''10'' ''25'' ''SESSION_AUTHORIZED'']\<rparr>"
  have "authorize_session sample_pg ''d'' sid ''a'' deploy_session deploy_db = (?t, Inr ())"
    by (simp add: authorize_healthy deploy_db_ok dec fields caps sample_numeric insert_session_def)
      (simp add: consume_decision_def update_where_def deploy_db_def empty_db_def sample_decision_def
        insert_session_def caps sample_numeric)
  moreover have "decision_of ''d'' ?t = Some ?r" by (simp add: decision_of_def sample_decision_def)
  ultimately show thesis
    using that [OF sid] deploy_db_ok(2) by (simp add: deploy_db_def sample_decision_def)
qed

section \<open>Cosigned sessions\<close>

text \<open>
  C2: a session is cosigned on an ALLOW only: when \<open>registerSession\<close> answers 200, the store
  held an ALLOW decision under the policy in force, the session registered is valid, has the
  account, token, recipient and caps of that decision's intent, the answer carries the
  identifier derived from it and the signature over it, and the decision is consumed by it.
\<close>

theorem cosigned_session_was_allowed:
  assumes "db_ok s"
    and "register_session uc E (pg_repo P) V (Some req) (s, w) = ((t, w'), resp)" and "ok_response resp"
  shows "\<exists>h ph intent sid physical digest sig.
    db_allowed s (rq_decision_id req) = Some (h, ph, intent) \<and>
    equal_fold uc ph (policy_hash E (sv_policy V)) \<and>
    (let cfg = session_of V req ph intent in
       validate_v1 uc cfg = Inr () \<and> derive_session_id E cfg = Done sid \<and>
       sc_account cfg = is_account intent \<and> sc_token cfg = is_token intent \<and>
       sc_allowed_recipient cfg = is_recipient intent \<and>
       sc_max_per_transfer cfg = is_max_per_transfer intent \<and>
       sc_max_total_spend cfg = is_max_total_spend intent \<and>
       sign_railguard E (sv_eip712 V) cfg = Done (digest, sig)) \<and>
    resp = register_answer E digest sig physical sid \<and>
    db_consumer t (rq_decision_id req) = Some (hash_hex E sid)"
proof -
  obtain h ph intent s1 sid physical digest sig where *:
    "get_allow_decision (rq_decision_id req) s = (s1, Inr (h, ph, intent))"
    "equal_fold uc ph (policy_hash E (sv_policy V))"
    "validate_v1 uc (session_of V req ph intent) = Inr ()"
    "derive_session_id E (session_of V req ph intent) = Done sid"
    "sign_railguard E (sv_eip712 V) (session_of V req ph intent) = Done (digest, sig)"
    "authorize_session P (rq_decision_id req) (hash_hex E sid) (is_agent_id intent)
       (session_of V req ph intent) s1 = (t, Inr ())"
    "resp = register_answer E digest sig physical sid"
    using register_ok [OF assms(2,3)] by (metis pg_repo_simps)
  have "db_allowed s (rq_decision_id req) = Some (h, ph, intent)" by (rule get_allow_Inr [OF *(1)])
  moreover have "db_consumer t (rq_decision_id req) = Some (hash_hex E sid)" by (rule authorize_consumer [OF *(6)])
  ultimately show ?thesis using *(2-5,7) by (auto simp: session_of_def Let_def)
qed

theorem cosigned_session_was_allowed_witness:
  "\<exists>h ph intent. db_allowed deploy_db ''d'' = Some (h, ph, intent)"
proof -
  obtain sid t where sid: "derive_session_id sample_eth deploy_session = Done sid"
    "authorize_session sample_pg ''d'' sid ''a'' deploy_session deploy_db = (t, Inr ())"
    using deploy_authorizes by blast
  obtain resp where
    "register_session plain_case sample_eth (pg_repo sample_pg) sample_server (Some sample_register) (deploy_db, ()) =
      ((t, ()), resp)" "ok_response resp"
    using deploy_registers [OF deploy_allows sid, where w = "()"] by (elim exE conjE) (rule that)
  from cosigned_session_was_allowed [OF deploy_db_ok(1) this] show ?thesis
    by (auto simp: sample_register_def)
qed

text \<open>
  One decision, one session: two registrations on one decision that both answer 200, with
  any requests and watcher polls in between, are of one session: the two configurations have
  the same identifier (so, by the binding of identifiers, the same terms on chain).
\<close>

theorem one_decision_one_session:
  assumes "db_ok s" and "inj (hash_hex E)"
    and "register_session uc E (pg_repo P) V (Some req) (s, w) = ((t, w'), resp)" and "ok_response resp"
    and "traffic uc' E' (pg_repo P) R V' t u"
    and "register_session uc E (pg_repo P) V (Some req') (u, v) = ((x, v'), resp')" and "ok_response resp'"
    and "rq_decision_id req' = rq_decision_id req"
  shows "\<exists>h ph intent sid. db_allowed s (rq_decision_id req) = Some (h, ph, intent) \<and>
    derive_session_id E (session_of V req ph intent) = Done sid \<and>
    derive_session_id E (session_of V req' ph intent) = Done sid"
proof -
  obtain h ph intent s1 sid where a:
    "get_allow_decision (rq_decision_id req) s = (s1, Inr (h, ph, intent))"
    "derive_session_id E (session_of V req ph intent) = Done sid"
    "authorize_session P (rq_decision_id req) (hash_hex E sid) (is_agent_id intent)
       (session_of V req ph intent) s1 = (t, Inr ())"
    using register_ok [OF assms(3,4)] by (metis pg_repo_simps)
  obtain h' ph' intent' u1 sid' where b:
    "get_allow_decision (rq_decision_id req) u = (u1, Inr (h', ph', intent'))"
    "derive_session_id E (session_of V req' ph' intent') = Done sid'"
    "authorize_session P (rq_decision_id req) (hash_hex E sid') (is_agent_id intent')
       (session_of V req' ph' intent') u1 = (x, Inr ())"
    using register_ok [OF assms(6,7)] assms(8) by (metis pg_repo_simps)
  have su: "repo_run (pg_repo P) s s1" "repo_run (pg_repo P) u u1"
    using run_intros(4) [of "pg_repo P" s "rq_decision_id req"] run_intros(4) [of "pg_repo P" u "rq_decision_id req"] a(1) b(1)
    by simp_all
  have s1: "db_ok s1" by (rule pg.run_ok [OF su(1) assms(1)])
  have tu: "repo_run (pg_repo P) t u" by (rule traffic_run [OF assms(5)])
  have st: "repo_run (pg_repo P) s1 t"
    using run_intros(5) [of "pg_repo P" s1 "rq_decision_id req" "hash_hex E sid" "is_agent_id intent"
        "session_of V req ph intent"] a(3) by simp
  have "db_allowed s (rq_decision_id req) = Some (h, ph, intent)" by (rule get_allow_Inr [OF a(1)])
  moreover have "db_allowed u (rq_decision_id req) = Some (h', ph', intent')" by (rule get_allow_Inr [OF b(1)])
  moreover have "repo_run (pg_repo P) s u" using repo_run_trans [OF tu repo_run_trans [OF st su(1)]] .
  ultimately have same: "ph' = ph" "intent' = intent" using pg.run_allowed [of P s u] assms(1) by fastforce+
  have "hash_hex E sid' = hash_hex E sid"
    using pg.authorized_once [OF s1 _ repo_run_trans [OF su(2) tu]] a(3) b(3) by simp
  then have "sid' = sid" using assms(2) by (simp add: inj_eq)
  then show ?thesis using a(2) b(2) same \<open>db_allowed s (rq_decision_id req) = Some (h, ph, intent)\<close> by blast
qed

theorem one_decision_one_session_witness:
  "\<exists>ph intent sid. derive_session_id sample_eth (session_of sample_server sample_register ph intent) = Done sid"
proof -
  obtain sid t r where *: "derive_session_id sample_eth deploy_session = Done sid"
    "authorize_session sample_pg ''d'' sid ''a'' deploy_session deploy_db = (t, Inr ())"
    "db_faults t = []" "payment_intents t = [stored_intent]" "decision_of ''d'' t = Some r"
    "dr_decision r = ''ALLOW''" "dr_intent_hash r = ''h''" "dr_policy_hash r = sample_policy_hash"
    "dr_consumed_at r \<noteq> None" "dr_consumed_session r = Some sid"
    using deploy_authorizes by blast
  obtain resp where 1:
    "register_session plain_case sample_eth (pg_repo sample_pg) sample_server (Some sample_register) (deploy_db, sample_start) =
      ((t, sample_start), resp)" "ok_response resp"
    using deploy_registers [OF deploy_allows *(1,2), where w = sample_start] by (elim exE conjE) (rule that)
  have "authorize_session sample_pg ''d'' sid ''a'' deploy_session t = (t, Inr ())"
    using * by (simp add: authorize_healthy)
  note again = deploy_registers [OF deploy_allow [OF *(3-8)] *(1) this, where w = sample_start]
  obtain resp' where 2:
    "register_session plain_case sample_eth (pg_repo sample_pg) sample_server (Some sample_register) (t, sample_start) =
      ((t, sample_start), resp')" "ok_response resp'"
    using again by (elim exE conjE) (rule that)
  have "inj (hash_hex sample_eth)" by (simp add: sample_eth_def inj_def)
  from one_decision_one_session [OF deploy_db_ok(1) this 1 tr_start [where R = view_redis] 2] show ?thesis by auto
qed

section \<open>The router\<close>

text \<open>
  C37: what the API key protects: a request without the key, other than the health check and
  the evaluation of an intent, is answered 401 (503 if no key is configured) and changes
  nothing; the evaluation of an intent does not look at the key.
\<close>

theorem router_guards_all_but_evaluate:
  "(presented_key uc hdr \<noteq> api_key (sv_cfg V) \<or> api_key (sv_cfg V) = '''' \<longrightarrow>
      q \<noteq> Health \<longrightarrow> (\<forall>body. q \<noteq> Evaluate_Intent body) \<longrightarrow>
      fst (router uc E RP R V hdr q st) = st \<and>
      status_of (snd (router uc E RP R V hdr q st)) = (if api_key (sv_cfg V) = '''' then 503 else 401)) \<and>
   router uc E RP R V hdr (Evaluate_Intent body) st = router uc E RP R V hdr' (Evaluate_Intent body) st"
  by (cases q) (auto simp: router_def require_api_key_cases)

theorem router_guards_all_but_evaluate_witness:
  "status_of (snd (router plain_case sample_eth (pg_repo sample_pg) view_redis sample_server (\<lambda>_. '''')
     (Register_Session None) (deploy_db, sample_start))) = 401"
  using router_guards_all_but_evaluate [of plain_case "\<lambda>_. ''''" sample_server "Register_Session None"
      sample_eth "pg_repo sample_pg" view_redis "(deploy_db, sample_start)" None]
  by (simp add: presented_key_def has_prefix_def to_lower_def trim_space_def)

section \<open>Hexadecimal\<close>

text \<open>
  The server's own hex encoder, by shift and mask on bytes, is the library's: the digits
  of the quotient and the remainder by 16.
\<close>

theorem server_hex_is_hex: "server_hex b = hex_encode b"
proof -
  have "unat (drop_bit 4 (of_nat (ord c) :: u8)) = ord c div 16" "unat (of_nat (ord c) AND (15 :: u8)) = ord c mod 16" for c
  proof -
    have c: "unat (of_nat (ord c) :: u8) = ord c"
      using nat_of_char_less_256 [of c] by (simp add: unat_of_nat)
    show "unat (drop_bit 4 (of_nat (ord c) :: u8)) = ord c div 16"
      by (simp add: drop_bit_eq_div unat_div_distrib c)
    have "(of_nat (ord c) AND (15 :: u8)) = take_bit 4 (of_nat (ord c))"
      by (simp add: take_bit_eq_mask mask_eq_exp_minus_1)
    then show "unat (of_nat (ord c) AND (15 :: u8)) = ord c mod 16"
      by (simp add: take_bit_eq_mod unat_mod_distrib c)
  qed
  then show ?thesis by (simp add: server_hex_def hex_encode_def hex_byte_def Let_def)
qed

section \<open>Reserving budget\<close>

text \<open>A request the snapshot admits, on an idle Redis with room under the cap, is granted.\<close>

lemma redis_grants:
  assumes "idle v" and "idem_key sid key = Inr idem" and "live_reservation v idem = None"
    and "set_string amt = Some a" and "0 < a"
    and "set_string cap = Some c" and "current_total (swept (clock v) v) sid + a \<le> c" and "0 < c"
  shows "\<exists>v'. run view_redis (reserve sid key amt cap pre agg) v = (v', Inr (next_rid v))"
proof -
  have rid: "next_rid (swept (clock v) v) = next_rid v" by (simp add: next_rid_def assms(1))
  show ?thesis
    using assms(2-8)
    by (simp add: run_reserve [OF assms(1)] reserve_outcome_def live_swept [OF assms(2)] rid positive_amount_def Let_def)
qed

lemma reserve_granted:
  assumes snap: "rp_get_session_reserve_snapshot RP (rr_session req) s = (s1, Inr snap)"
    and check: "check_reserve uc req snap (clock v) = Inr ()" and idle: "idle v"
    and idem: "idem_key (rr_session req) (rr_idempotency req) = Inr idem" "live_reservation v idem = None"
    and amount: "set_string (rr_amount_atomic req) = Some a" "0 < a"
    and cap: "set_string (rs_max_total_spend snap) = Some c"
      "current_total (swept (clock v) v) (rr_session req) + a \<le> c" "0 < c"
    and save: "rp_save_reservation RP (next_rid v) (rr_session req) (rr_intent req) (rr_agent req)
         (rr_amount_atomic req) ''BUDGET_RESERVED'' (rr_idempotency req) s1 = (t, Inr ())"
  shows "snd (reserve_budget uc RP view_redis (Some req) (s, v)) = reserved_response (next_rid v)"
proof -
  obtain v' where "run view_redis (reserve (rr_session req) (rr_idempotency req) (rr_amount_atomic req)
      (rs_max_total_spend snap) (5 * minute) (session_ttl snap (clock v))) v = (v', Inr (next_rid v))"
    using redis_grants [OF idle idem amount cap] by blast
  then show ?thesis
    using snap check save
    by (simp add: reserve_budget_def v_now_def persist_reservation_def)
qed

lemma no_total_swept: "idle v \<Longrightarrow> kv v (session_key sid) = None \<Longrightarrow> current_total (swept now v) sid = 0"
  by (simp add: current_total_def total_swept) (simp add: total_def)

section \<open>A sample reservation\<close>

definition stored_session :: session_row where
  "stored_session = session_row_of ''s'' ''a''
     (sample_cfg\<lparr>sc_valid_after := 0, sc_valid_until := 3600\<rparr>) ''25'' ''25'' ''SESSION_AUTHORIZED''"

definition reserve_db :: db where
  "reserve_db = empty_db\<lparr>sessions := [stored_session]\<rparr>"

definition stored_snapshot :: session_reserve_snapshot where
  "stored_snapshot =
    \<lparr>rs_agent_id = ''a'', rs_intent_hash = '''', rs_max_per_transfer = ''25'', rs_max_total_spend = ''25'',
     rs_valid_after = 0, rs_valid_until = 3600, rs_status = ''SESSION_AUTHORIZED''\<rparr>"

definition sample_req :: "string \<Rightarrow> reserve_req" where
  "sample_req sid =
    \<lparr>rr_session = sid, rr_agent = ''a'', rr_intent = '''', rr_amount_atomic = ''25'', rr_idempotency = ''k2'',
     rr_max_total_spend = ''''\<rparr>"

lemma reserve_db_faults: "db_faults reserve_db = []"
  by (simp add: reserve_db_def empty_db_def)

lemma lower_s: "to_lower plain_case ''S'' = ''s''" "to_lower plain_case ''s'' = ''s''"
  by code_simp+

lemma sample_snapshot:
  "get_session_reserve_snapshot sample_pg ''s'' reserve_db = (reserve_db, Inr stored_snapshot)"
proof -
  have "sql_lower sample_pg = to_lower plain_case" by (simp add: sample_pg_def)
  then show ?thesis
    by (simp add: get_session_reserve_snapshot_def or_error_def query_row_healthy reserve_db_faults reserve_snapshot_def)
      (simp add: reserve_db_def empty_db_def stored_session_def stored_snapshot_def session_row_of_def
        sample_cfg_def)
qed

lemma sample_req_simps:
  "rr_session (sample_req sid) = sid" "rr_agent (sample_req sid) = ''a''" "rr_intent (sample_req sid) = ''''"
  "rr_amount_atomic (sample_req sid) = ''25''" "rr_idempotency (sample_req sid) = ''k2''"
  by (simp_all add: sample_req_def)

lemma stored_snapshot_simps:
  "rs_max_total_spend stored_snapshot = ''25''" "rs_valid_until stored_snapshot = 3600"
  by (simp_all add: stored_snapshot_def)

lemma sample_check:
  assumes "0 \<le> unix now" "unix now \<le> 3600"
  shows "check_reserve plain_case (sample_req sid) stored_snapshot now = Inr ()"
proof -
  have "to_upper plain_case ''SESSION_AUTHORIZED'' = ''SESSION_AUTHORIZED''" by code_simp
  then show ?thesis
    using assms by (simp add: check_reserve_def sample_req_def stored_snapshot_def sample_amounts)
qed

lemma sample_save:
  "\<exists>t. save_reservation sample_pg rid sid ''''  ''a'' ''25'' ''BUDGET_RESERVED'' ''k2'' reserve_db = (t, Inr ())"
  using sample_numeric(2)
  by (simp add: save_reservation_def stmt_healthy reserve_db_faults) (simp add: reserve_db_def empty_db_def)

lemma sample_after_eq:
  obtains n where "sample_after =
      reserved ''s'' ''idem:s:k'' ''10'' n (ttl_seconds (5 * minute)) (aggregate_ttl hour) sample_start"
  using new_reservation [OF sample_start_idle _ sample_fresh sample_idem_key sample_live
      sample_reserved [unfolded sample_reserve_def]] sample_swept by auto

lemma sample_after_kv:
  "kv sample_after (session_key ''S'') = None"
  "\<exists>n. kv sample_after (session_key ''s'') = Some (n, Some (3600 * second))"
  "kv sample_after ''idem:S:k2'' = None" "kv sample_after ''idem:s:k2'' = None" "clock sample_after = 0"
proof -
  obtain n where eq: "sample_after =
      reserved ''s'' ''idem:s:k'' ''10'' n (ttl_seconds (5 * minute)) (aggregate_ttl hour) sample_start"
    by (rule sample_after_eq)
  show "kv sample_after (session_key ''S'') = None"
    "kv sample_after ''idem:S:k2'' = None" "kv sample_after ''idem:s:k2'' = None"
    unfolding eq by (simp_all add: reserved_kv sample_start_def session_key_def reservation_meta_key_def)
  show "clock sample_after = 0" unfolding eq by (simp add: sample_start_def)
  show "\<exists>n. kv sample_after (session_key ''s'') = Some (n, Some (3600 * second))"
    unfolding eq by (simp add: reserved_kv sample_start_def session_key_def aggregate_ttl_def hour_def minute_def
        second_def reservation_meta_key_def next_rid_def)
qed

lemma sample_idem_keys: "idem_key ''S'' ''k2'' = Inr ''idem:S:k2''" "idem_key ''s'' ''k2'' = Inr ''idem:s:k2''"
proof -
  have "trim_space ''S'' = ''S''" "trim_space ''s'' = ''s''" "trim_space ''k2'' = ''k2''"
    by (rule trim_space_ascii_id; simp add: is_space_def)+
  then show "idem_key ''S'' ''k2'' = Inr ''idem:S:k2''" "idem_key ''s'' ''k2'' = Inr ''idem:s:k2''"
    by (simp_all add: idem_key_def)
qed

lemma sample_live_keys:
  "live_reservation sample_after ''idem:S:k2'' = None"
  "live_reservation (pass d sample_after) ''idem:s:k2'' = None"
  using sample_after_kv(3,4) by (simp_all add: live_reservation_def pass_def)

lemmas sample_request = sample_req_simps stored_snapshot_simps sample_idem_keys sample_amounts sample_live_keys

text \<open>The checks of \<open>reserveBudget\<close> against the session's snapshot, as one condition.\<close>

lemma check_reserve_iff:
  "check_reserve uc req snap now = Inr () \<longleftrightarrow>
     (rs_status snap = '''' \<or> to_upper uc (rs_status snap) = ''SESSION_AUTHORIZED'') \<and>
     rs_valid_after snap \<le> unix now \<and> unix now \<le> rs_valid_until snap \<and>
     equal_fold uc (rr_agent req) (rs_agent_id snap) \<and>
     (rs_intent_hash snap = '''' \<or> equal_fold uc (rr_intent req) (rs_intent_hash snap)) \<and>
     (\<exists>a m. set_string (rr_amount_atomic req) = Some a \<and> 0 < a \<and>
        set_string (rs_max_per_transfer snap) = Some m \<and> a \<le> m)"
  by (auto simp: check_reserve_def split: option.split)

text \<open>
  C23: a reservation that is granted has passed every check: for any store and any Redis, an
  answer 200 of \<open>reserveBudget\<close> means that the session was found and is authorized, the time
  is in its window, agent and intent match, the amount is positive and within the cap per
  transfer, and Redis granted the reservation named in the answer against the session's
  total cap.
\<close>

theorem granted_reservation_passed_checks:
  assumes "reserve_budget uc RP R body (s, w) = (st, resp)" and "ok_response resp"
  shows "\<exists>req s1 snap w1 now w2 now' w3 resID. body = Some req \<and>
    rp_get_session_reserve_snapshot RP (rr_session req) s = (s1, Inr snap) \<and> now_of R w = (w1, now) \<and>
    (rs_status snap = '''' \<or> to_upper uc (rs_status snap) = ''SESSION_AUTHORIZED'') \<and>
    rs_valid_after snap \<le> unix now \<and> unix now \<le> rs_valid_until snap \<and>
    equal_fold uc (rr_agent req) (rs_agent_id snap) \<and>
    (rs_intent_hash snap = '''' \<or> equal_fold uc (rr_intent req) (rs_intent_hash snap)) \<and>
    (\<exists>a m. set_string (rr_amount_atomic req) = Some a \<and> 0 < a \<and>
       set_string (rs_max_per_transfer snap) = Some m \<and> a \<le> m) \<and>
    now_of R w1 = (w2, now') \<and>
    run R (reserve (rr_session req) (rr_idempotency req) (rr_amount_atomic req) (rs_max_total_spend snap)
      (5 * minute) (session_ttl snap now')) w2 = (w3, Inr resID) \<and>
    resp = reserved_response resID"
proof -
  obtain req where req: "body = Some req"
    using assms by (cases body) (auto simp: reserve_budget_def)
  obtain s1 r where r: "rp_get_session_reserve_snapshot RP (rr_session req) s = (s1, r)" by fastforce
  obtain snap where snap: "r = Inr snap" using assms r req by (cases r) (auto simp: reserve_budget_def)
  obtain w1 now where now: "now_of R w = (w1, now)" by fastforce
  obtain w2 now' where now': "now_of R w1 = (w2, now')" by fastforce
  have answers: "\<not> ok_response x" if "check_reserve uc req snap now = Inl x" for x
    using that by (auto simp: check_reserve_def denied_def split: if_splits option.splits)
  have check: "check_reserve uc req snap now = Inr ()"
    using assms r snap now req answers
    by (cases "check_reserve uc req snap now") (auto simp: reserve_budget_def)
  obtain w3 q where q: "run R (reserve (rr_session req) (rr_idempotency req) (rr_amount_atomic req)
      (rs_max_total_spend snap) (5 * minute) (session_ttl snap now')) w2 = (w3, q)" by fastforce
  obtain resID where resID: "q = Inr resID"
    using assms r snap now now' req check q by (cases q) (auto simp: reserve_budget_def denied_def)
  have "persist_reservation RP R req resID (s1, w3) = (st, resp)"
    using assms(1) r snap now now' req check q resID by (simp add: reserve_budget_def)
  then have "resp = reserved_response resID"
    using assms(2) by (auto simp: persist_reservation_def split: prod.splits sum.splits if_splits)
  then show ?thesis using check [unfolded check_reserve_iff] r snap now now' req q resID by blast
qed

text \<open>
  C38: the cap is kept per spelling of the session identifier: the store finds a session by its
  identifier up to case, Redis keeps the aggregate under the identifier as the request spells
  it. So a request under a spelling that has no aggregate yet is granted any amount up to the
  caps, whatever is reserved or committed under another spelling.
\<close>

theorem casing_splits_the_cap:
  assumes "get_session_reserve_snapshot P sid s = (s1, Inr snap)"
    and "sql_lower P (rr_session req) = sql_lower P sid"
    and "check_reserve uc req snap (clock v) = Inr ()" and "idle v"
    and "kv v (session_key (rr_session req)) = None"
    and "idem_key (rr_session req) (rr_idempotency req) = Inr idem" and "live_reservation v idem = None"
    and "set_string (rr_amount_atomic req) = Some a" and "set_string (rs_max_total_spend snap) = Some c" and "a \<le> c"
    and "save_reservation P (next_rid v) (rr_session req) (rr_intent req) (rr_agent req)
         (rr_amount_atomic req) ''BUDGET_RESERVED'' (rr_idempotency req) s1 = (t, Inr ())"
  shows "snd (reserve_budget uc (pg_repo P) view_redis (Some req) (s, v)) = reserved_response (next_rid v)"
proof (rule reserve_granted [OF _ assms(3,4,6,7,8) _ assms(9)])
  have "reserve_snapshot P (rr_session req) = reserve_snapshot P sid"
    by (rule ext) (simp add: reserve_snapshot_def assms(2))
  then show "rp_get_session_reserve_snapshot (pg_repo P) (rr_session req) s = (s1, Inr snap)"
    using assms(1) by (simp add: get_session_reserve_snapshot_def)
  show "0 < a" using assms(3,8) by (auto simp: check_reserve_iff)
  then show "current_total (swept (clock v) v) (rr_session req) + a \<le> c" "0 < c"
    using assms(10) by (simp_all add: no_total_swept [OF assms(4,5)])
qed (use assms(11) in simp)

lemma sample_granted:
  "snd (reserve_budget plain_case (pg_repo sample_pg) view_redis (Some (sample_req ''s'')) (reserve_db, sample_start)) =
     reserved_response (next_rid sample_start)"
proof -
  have c: "clock sample_start = 0" by (simp add: sample_start_def)
  obtain t where t: "save_reservation sample_pg (next_rid sample_start) ''s'' [] ''a'' ''25'' ''BUDGET_RESERVED'' ''k2'' reserve_db = (t, Inr ())"
    using sample_save by blast
  show ?thesis
  proof (rule reserve_granted [where snap = stored_snapshot and a = 25 and c = 25 and idem = "''idem:s:k2''"])
    show "check_reserve plain_case (sample_req ''s'') stored_snapshot (clock sample_start) = Inr ()"
      by (rule sample_check) (simp_all add: c unix_def)
    show "live_reservation sample_start ''idem:s:k2'' = None"
      by (simp add: live_reservation_def sample_start_def)
    show "current_total (swept (clock sample_start) sample_start) (rr_session (sample_req ''s'')) + 25 \<le> 25"
      using no_total_swept [OF sample_start_idle] by (simp add: sample_start_def)
  qed (use t sample_snapshot sample_start_idle in \<open>simp_all add: sample_request\<close>)
qed

theorem granted_reservation_passed_checks_witness:
  "\<exists>s1 snap. get_session_reserve_snapshot sample_pg ''s'' reserve_db = (s1, Inr snap) \<and> rs_valid_after snap \<le> 0"
proof -
  let ?r = "reserve_budget plain_case (pg_repo sample_pg) view_redis (Some (sample_req ''s'')) (reserve_db, sample_start)"
  obtain st resp where r: "?r = (st, resp)" by fastforce
  then have "ok_response resp" using sample_granted by (simp add: reserved_response_def)
  from granted_reservation_passed_checks [OF r this] show ?thesis
    using sample_snapshot by (auto simp: stored_snapshot_def sample_req_simps)
qed

theorem casing_splits_the_cap_witness:
  "ok_response (snd (reserve_budget plain_case (pg_repo sample_pg) view_redis (Some (sample_req ''S'')) (reserve_db, sample_after)))"
proof -
  obtain t where t: "save_reservation sample_pg (next_rid sample_after) ''S'' [] ''a'' ''25'' ''BUDGET_RESERVED'' ''k2'' reserve_db = (t, Inr ())"
    using sample_save by blast
  have check: "check_reserve plain_case (sample_req ''S'') stored_snapshot (clock sample_after) = Inr ()"
    by (rule sample_check) (simp_all add: sample_after_kv(5) unix_def)
  have same: "sql_lower sample_pg ''S'' = sql_lower sample_pg ''s''" by (simp add: sample_pg_def lower_s)
  have "snd (reserve_budget plain_case (pg_repo sample_pg) view_redis (Some (sample_req ''S'')) (reserve_db, sample_after)) =
      reserved_response (next_rid sample_after)"
    by (rule casing_splits_the_cap [OF sample_snapshot _ check sample_after_idle, where a = 25 and c = 25 and
          idem = "''idem:S:k2''"])
      (use sample_after_kv(1) t same in \<open>simp_all add: sample_request\<close>)
  then show ?thesis by (simp add: reserved_response_def)
qed



end
