(* ===== verification/Startup.thy ===== *)
theory Startup
  imports Server_Props
begin

text \<open>
  \<open>cmd/api/main.go\<close> and \<open>ListenAndServe\<close>: how the process puts itself together, when it
  refuses to start, and how it ends. The environment, the policy file, the policy compiler,
  the database driver and the HTTP library are parameters.
\<close>

section \<open>The process\<close>

record 'p host =
  ho_env :: environ
  ho_read_file :: "string \<Rightarrow> string res"
  ho_prepare :: "string \<Rightarrow> (policy_input \<Rightarrow> json list list res) res"
  ho_open_pool :: "string \<Rightarrow> 'p res"
  ho_ping_pool :: "'p \<Rightarrow> unit res"

text \<open>The store behind the handlers, and what serves once the start-up is through.\<close>

datatype 'p backend = Postgres 'p | Noop

record 'p service =
  se_server :: server
  se_backend :: "'p backend"
  se_watching :: bool
  se_addr :: string

text \<open>\<open>log.Fatal\<close> prints its message and exits with status 1.\<close>

datatype ending = Exit_1 (fatal: string) go_error | Return_Main

definition open_store :: "ucase \<Rightarrow> 'p host \<Rightarrow> config \<Rightarrow> ending + 'p backend" where
  "open_store uc H cfg =
    (case store_new (ho_open_pool H) (ho_ping_pool H) (postgres_url cfg) of
       Inl err \<Rightarrow>
         if is_local uc cfg \<and> allow_noop_store cfg then Inr Noop
         else Inl (Exit_1 ''postgres required'' err)
     | Inr db \<Rightarrow> Inr (Postgres db))"

definition server_addr :: "config \<Rightarrow> string" where
  "server_addr cfg = '':'' @ http_port cfg"

definition start :: "ucase \<Rightarrow> 'p host \<Rightarrow> 'w redis \<Rightarrow> 'w \<Rightarrow> 'w \<times> (ending + 'p service)" where
  "start uc H R w =
    (let cfg = load uc (ho_env H) in
     case validate uc cfg of
       Inl err \<Rightarrow> (w, Inl (Exit_1 ''invalid configuration'' err))
     | Inr _ \<Rightarrow>
     (case policy_new (ho_read_file H) (ho_prepare H) (opa_policy_path cfg) of
       Inl err \<Rightarrow> (w, Inl (Exit_1 ''load opa policy'' err))
     | Inr pe \<Rightarrow>
     (case run R ping w of (w, _) \<Rightarrow>
     (case open_store uc H cfg of
       Inl e \<Rightarrow> (w, Inl e)
     | Inr backend \<Rightarrow> (w, Inr
         \<lparr>se_server = server_new cfg pe, se_backend = backend, se_watching = watcher_enabled cfg,
          se_addr = server_addr cfg\<rparr>)))))"

text \<open>
  \<open>main\<close>: \<open>listen\<close> is \<open>http.Server.ListenAndServe\<close> on the address, which comes back when
  the listener fails or \<open>Shutdown\<close> is called; \<open>None\<close> is a nil error. The deferred \<open>Close\<close> of
  the store runs when \<open>main\<close> returns and not when it exits; the list is the pools it closed.
\<close>

definition deferred_close :: "'p service \<Rightarrow> 'p list" where
  "deferred_close sv = (case se_backend sv of Postgres db \<Rightarrow> store_close db | Noop \<Rightarrow> [])"

definition main_process ::
    "ucase \<Rightarrow> 'p host \<Rightarrow> 'w redis \<Rightarrow> (string \<Rightarrow> go_error option) \<Rightarrow> 'w \<Rightarrow> ending \<times> 'p list" where
  "main_process uc H R listen w =
    (case snd (start uc H R w) of
       Inl e \<Rightarrow> (e, [])
     | Inr sv \<Rightarrow>
         (case listen (se_addr sv) of
            None \<Rightarrow> (Return_Main, deferred_close sv)
          | Some err \<Rightarrow> (Exit_1 ''server stopped'' err, [])))"

text \<open>The repository the handlers of a service use.\<close>

definition repository_of :: "('p \<Rightarrow> 's repo) \<Rightarrow> 'p backend \<Rightarrow> 's repo" where
  "repository_of pool b = (case b of Postgres db \<Rightarrow> pool db | Noop \<Rightarrow> noop_repo)"

definition service_handler ::
    "ucase \<Rightarrow> eth \<Rightarrow> ('p \<Rightarrow> 's repo) \<Rightarrow> 'w redis \<Rightarrow> 'p service \<Rightarrow> headers \<Rightarrow> request \<Rightarrow> ('s, 'w) world handler" where
  "service_handler uc E pool R sv = router uc E (repository_of pool (se_backend sv)) R (se_server sv)"

section \<open>What a start has checked\<close>

lemma policy_new_Inr:
  "policy_new read_file prepare path = Inr pe \<longleftrightarrow>
     (\<exists>text query. read_file path = Inr text \<and> prepare text = Inr query \<and> pe = \<lparr>pe_policy = text, pe_eval = query\<rparr>)"
  by (auto simp: policy_new_def split: sum.splits)

lemma store_new_Inr: "store_new op pg url = Inr db \<longleftrightarrow> op url = Inr db \<and> pg db = Inr ()"
  by (auto simp: store_new_def split: sum.splits)

lemma open_store_Inr:
  "open_store uc H cfg = Inr b \<longleftrightarrow>
     (case b of
        Postgres db \<Rightarrow> store_new (ho_open_pool H) (ho_ping_pool H) (postgres_url cfg) = Inr db
      | Noop \<Rightarrow> is_local uc cfg \<and> allow_noop_store cfg \<and>
          (\<exists>err. store_new (ho_open_pool H) (ho_ping_pool H) (postgres_url cfg) = Inl err))"
  by (cases b) (auto simp: open_store_def split: sum.splits)

lemma start_Inr:
  "start uc H R w = (w', Inr sv) \<longleftrightarrow>
     validate uc (load uc (ho_env H)) = Inr () \<and> w' = fst (run R ping w) \<and>
     (\<exists>pe b. policy_new (ho_read_file H) (ho_prepare H) (opa_policy_path (load uc (ho_env H))) = Inr pe \<and>
        open_store uc H (load uc (ho_env H)) = Inr b \<and>
        sv = \<lparr>se_server = server_new (load uc (ho_env H)) pe, se_backend = b,
              se_watching = watcher_enabled (load uc (ho_env H)), se_addr = server_addr (load uc (ho_env H))\<rparr>)"
  by (auto simp: start_def Let_def split: sum.splits prod.splits)

lemma server_new_simps [simp]: "sv_cfg (server_new cfg pe) = cfg" "sv_policy (server_new cfg pe) = pe"
  by (simp_all add: server_new_def)

section \<open>Properties\<close>

text \<open>
  C21: what a running service rests on: outside the local environment it has a database that
  answered, its own API key, a signer key, an adapter address and, with the watcher, a hook;
  the store that forgets is used only in the local environment, on request, and when the
  database cannot be reached; the policy in force is the text of the configured file.
\<close>

theorem started_service_rests_on:
  assumes "start uc H R w = (w', Inr sv)"
  shows "let cfg = sv_cfg (se_server sv) in
    cfg = load uc (ho_env H) \<and> trim_space (api_key cfg) \<noteq> '''' \<and>
    ho_read_file H (opa_policy_path cfg) = Inr (pe_policy (sv_policy (se_server sv))) \<and>
    (se_backend sv = Noop \<longrightarrow> is_local uc cfg \<and> ho_env H ''ALLOW_NOOP_STORE'' = ''true'' \<and>
       (\<forall>db. ho_open_pool H (postgres_url cfg) = Inr db \<longrightarrow> (\<exists>e. ho_ping_pool H db = Inl e))) \<and>
    (\<not> is_local uc cfg \<longrightarrow>
       (\<exists>db. se_backend sv = Postgres db \<and> ho_ping_pool H db = Inr ()) \<and>
       api_key cfg \<noteq> dev_api_key \<and> trim_space (railguard_signer_key cfg) \<noteq> '''' \<and>
       \<not> is_zero_address uc (adapter_address cfg) \<and>
       (se_watching sv \<longrightarrow> \<not> is_zero_address uc (hook_address cfg)))"
proof -
  let ?c = "load uc (ho_env H)"
  obtain pe b where v: "validate uc ?c = Inr ()"
    and p: "policy_new (ho_read_file H) (ho_prepare H) (opa_policy_path ?c) = Inr pe"
    and b: "open_store uc H ?c = Inr b" and sv: "se_server sv = server_new ?c pe" "se_backend sv = b"
      "se_watching sv = watcher_enabled ?c"
    using assms by (auto simp: start_Inr)
  have noop: "allow_noop_store ?c \<longleftrightarrow> ho_env H ''ALLOW_NOOP_STORE'' = ''true''"
    by (simp add: load_def get_env_def Let_def)
  have b': "b = Noop \<longrightarrow> is_local uc ?c \<and> allow_noop_store ?c \<and>
      (\<forall>db. ho_open_pool H (postgres_url ?c) = Inr db \<longrightarrow> (\<exists>e. ho_ping_pool H db = Inl e))"
    using b by (auto simp: open_store_Inr store_new_def split: sum.splits)
  have db: "\<not> is_local uc ?c \<longrightarrow> (\<exists>db. b = Postgres db \<and> ho_ping_pool H db = Inr ())"
    using b b' by (cases b) (auto simp: open_store_Inr store_new_Inr)
  show ?thesis
    using v p b' db noop sv by (auto simp: Let_def validate_ok_iff production_ready_def policy_new_Inr)
qed

definition sample_host :: "unit host" where
  "sample_host =
    \<lparr>ho_env = (\<lambda>k. if k = ''ALLOW_NOOP_STORE'' then ''true'' else ''''), ho_read_file = (\<lambda>_. Inr ''policy''),
     ho_prepare = (\<lambda>_. Inr (\<lambda>_. Inr [])), ho_open_pool = (\<lambda>_. Inr ()),
     ho_ping_pool = (\<lambda>_. Inl (Err ''refused''))\<rparr>"

lemma sample_local: "is_local plain_case (load plain_case (ho_env sample_host))"
  "api_key (load plain_case (ho_env sample_host)) = dev_api_key"
  by (rule conjunct2 conjunct1, rule load_local_key; simp add: sample_host_def)+

lemma sample_ping: "fst (run view_redis ping sample_start) = sample_start"
  by (simp add: ping_def v_ping_def serve_def next_fault_def sample_start_def Let_def split_beta)

lemma sample_starts: "\<exists>sv. start plain_case sample_host view_redis sample_start = (sample_start, Inr sv)"
proof -
  have v: "validate plain_case (load plain_case (ho_env sample_host)) = Inr ()"
    using sample_local by (simp add: validate_ok_iff dev_api_key_def) (metis sample_local(2) trim_dev_api_key dev_api_key_def list.distinct(1))
  have s: "open_store plain_case sample_host (load plain_case (ho_env sample_host)) = Inr Noop"
    using sample_local by (simp add: open_store_Inr store_new_def sample_host_def load_def get_env_def Let_def)
  show ?thesis using v sample_ping s by (auto simp: start_Inr policy_new_Inr sample_host_def)
qed

theorem started_service_rests_on_witness:
  "\<exists>sv. trim_space (api_key (sv_cfg (se_server (sv :: unit service)))) \<noteq> ''''"
proof -
  obtain sv where "start plain_case sample_host view_redis sample_start = (sample_start, Inr sv)"
    using sample_starts by blast
  from started_service_rests_on [OF this] show ?thesis by (auto simp: Let_def)
qed

text \<open>
  A service started outside the local environment never serves the development key: a
  request that presents it, other than the health check and the evaluation of an intent, is
  answered 401 and changes neither store nor Redis.
\<close>

theorem started_service_refuses_dev_key:
  assumes "start uc H R w = (w', Inr sv)" and "\<not> is_local uc (load uc (ho_env H))"
    and "presented_key uc hdr = dev_api_key" and "q \<noteq> Health" and "\<And>body. q \<noteq> Evaluate_Intent body"
  shows "fst (service_handler uc E pool R' sv hdr q st) = st \<and> status_of (snd (service_handler uc E pool R' sv hdr q st)) = 401"
proof -
  have c: "sv_cfg (se_server sv) = load uc (ho_env H)" and v: "validate uc (load uc (ho_env H)) = Inr ()"
    using assms(1) by (auto simp: start_Inr)
  have "api_key (load uc (ho_env H)) \<noteq> dev_api_key" "api_key (load uc (ho_env H)) \<noteq> ''''"
    using v assms(2) by (auto simp: validate_ok_iff production_ready_def)
  then show ?thesis
    using assms(3-5) by (cases q) (auto simp: service_handler_def router_def require_api_key_cases c)
qed

definition prod_host :: "unit host" where
  "prod_host = sample_host\<lparr>ho_ping_pool := (\<lambda>_. Inr ()),
     ho_env := (\<lambda>k. if k = ''APP_ENV'' then ''prod'' else if k = ''SIGNGATE_API_KEY'' then ''k''
       else if k = ''RAILGUARD_SIGNER_PRIVATE_KEY'' then ''0xk'' else if k = ''ADAPTER_ADDRESS'' then ''0xE5''
       else if k = ''WATCHER_ENABLED'' then ''false'' else [])\<rparr>"

lemma prod_not_local: "\<not> is_local plain_case (load plain_case (ho_env prod_host))"
  by (simp add: is_local_def load_def get_env_def prod_host_def Let_def equal_fold_def runes_ascii
      fold_rune_def lower_byte_def plain_case_def)

lemma prod_starts: "\<exists>sv. start plain_case prod_host view_redis sample_start = (sample_start, Inr sv)"
proof -
  let ?c = "load plain_case (ho_env prod_host)"
  have f: "api_key ?c = ''k''" "railguard_signer_key ?c = ''0xk''" "adapter_address ?c = ''0xE5''"
    "\<not> watcher_enabled ?c"
    by (simp_all add: load_def get_env_def prod_host_def Let_def)
  have t: "trim_space ''k'' = ''k''" "trim_space ''0xk'' = ''0xk''" "trim_space ''0xE5'' = ''0xE5''"
    by (rule trim_space_ascii_id; simp add: is_space_def)+
  have z: "\<not> is_zero_address plain_case ''0xE5''"
    unfolding is_zero_address_def t Let_def by code_simp
  have v: "validate plain_case ?c = Inr ()"
    using f t z by (simp add: validate_ok_iff production_ready_def dev_api_key_def)
  have s: "open_store plain_case prod_host ?c = Inr (Postgres ())"
    by (simp add: open_store_Inr store_new_Inr prod_host_def sample_host_def)
  show ?thesis using v sample_ping s by (auto simp: start_Inr policy_new_Inr prod_host_def sample_host_def)
qed

theorem started_service_refuses_dev_key_witness:
  "\<exists>sv. status_of (snd (service_handler plain_case sample_eth (\<lambda>_. pg_repo sample_pg) view_redis (sv :: unit service)
     (\<lambda>k. if k = ''X-SignGate-API-Key'' then dev_api_key else []) (Register_Session None) (deploy_db, sample_start))) = 401"
proof -
  let ?hdr = "\<lambda>k. if k = ''X-SignGate-API-Key'' then dev_api_key else []"
  obtain sv where sv: "start plain_case prod_host view_redis sample_start = (sample_start, Inr sv)"
    using prod_starts by blast
  have "presented_key plain_case ?hdr = dev_api_key"
    using trim_dev_api_key by (simp add: presented_key_def dev_api_key_def Let_def)
  from started_service_refuses_dev_key [OF sv prod_not_local this] show ?thesis by blast
qed

text \<open>
  The process never ends cleanly: the HTTP library's \<open>ListenAndServe\<close> always comes back
  with an error, \<open>ErrServerClosed\<close> after a requested shutdown, so \<open>main\<close> always ends in a
  fatal exit, after a start that succeeded with the message \<open>server stopped\<close>, and the
  deferred close of the database never runs.
\<close>

theorem shutdown_is_fatal:
  assumes "\<And>addr. listen addr \<noteq> None"
  shows "fst (main_process uc H R listen w) \<noteq> Return_Main \<and> snd (main_process uc H R listen w) = [] \<and>
    (start uc H R w = (w', Inr sv) \<longrightarrow> fatal (fst (main_process uc H R listen w)) = ''server stopped'')"
proof -
  obtain v r where s: "start uc H R w = (v, r)" by fastforce
  obtain e where e: "listen (server_addr (load uc (ho_env H))) = Some e" using assms by fastforce
  have "r \<noteq> Inl Return_Main"
    using s by (auto simp: start_def open_store_def Let_def split: sum.splits prod.splits if_splits)
  moreover have "listen (se_addr x) = Some e" if "r = Inr x" for x
    using s that e by (auto simp: start_Inr)
  ultimately show ?thesis by (cases r) (auto simp: main_process_def s)
qed

theorem shutdown_is_fatal_witness:
  "fatal (fst (main_process plain_case sample_host view_redis (\<lambda>_. Some (Err ''http: Server closed'')) sample_start)) =
     ''server stopped''"
proof -
  obtain sv where "start plain_case sample_host view_redis sample_start = (sample_start, Inr sv)"
    using sample_starts by blast
  then show ?thesis
    using shutdown_is_fatal [of "\<lambda>_. Some (Err ''http: Server closed'')" plain_case sample_host view_redis sample_start
        sample_start sv] by simp
qed

end
