(* ===== verification/Answers.thy ===== *)
theory Answers
  imports Server
begin

text \<open>
  What a client can rely on of the shape of an answer: per route, the fields of a 200 with the
  types of their values, in the order they are written, and the statuses of its errors.
\<close>

section \<open>Types of answers\<close>

datatype json_type = T_String | T_Number | T_Strings | T_Any

text \<open>A list of texts may be \<open>null\<close>: Go writes a nil slice that way.\<close>

fun has_type :: "json \<Rightarrow> json_type \<Rightarrow> bool" where
  "has_type (JStr _) T_String \<longleftrightarrow> True"
| "has_type (JNum _) T_Number \<longleftrightarrow> True"
| "has_type JNull T_Strings \<longleftrightarrow> True"
| "has_type (JArr js) T_Strings \<longleftrightarrow> list_all (\<lambda>j. case j of JStr _ \<Rightarrow> True | _ \<Rightarrow> False) js"
| "has_type _ T_Any \<longleftrightarrow> True"
| "has_type _ _ \<longleftrightarrow> False"

definition has_fields :: "(string \<times> json_type) list \<Rightarrow> json \<Rightarrow> bool" where
  "has_fields ts j \<longleftrightarrow>
     (case j of
        JObj kvs \<Rightarrow> list_all2 (\<lambda>kv t. fst kv = fst t \<and> has_type (snd kv) (snd t)) kvs ts
      | _ \<Rightarrow> False)"

fun answer_fields :: "request \<Rightarrow> (string \<times> json_type) list" where
  "answer_fields Health = [(''status'', T_String)]"
| "answer_fields (Evaluate_Intent _) =
     [(''decision'', T_String), (''decisionId'', T_String), (''intentHash'', T_String),
      (''policyHash'', T_String), (''reasonCodes'', T_Strings)]"
| "answer_fields (Register_Session _) =
     [(''authorizationDigest'', T_String), (''railguardSignature'', T_String),
      (''sessionConfigPhysicalHash'', T_String), (''sessionId'', T_String)]"
| "answer_fields (Reserve_Budget _) = [(''reservationId'', T_String), (''status'', T_String)]"
| "answer_fields (User_Op_Submitted _) = [(''status'', T_String)]"
| "answer_fields (User_Op_Finalized _) = [(''status'', T_String)]"
| "answer_fields (Get_Receipt _) =
     [(''decision'', T_String), (''decisionId'', T_String), (''payload'', T_Any),
      (''receiptHash'', T_String), (''signature'', T_String)]"
| "answer_fields (Get_Chain_Execution _) =
     [(''account'', T_String), (''blockNumber'', T_Number), (''frameSpend'', T_String),
      (''logIndex'', T_Number), (''nonceKey'', T_String), (''sessionId'', T_String),
      (''totalSpendAfter'', T_String), (''txHash'', T_String)]"

text \<open>401 and 503 come from the middleware, and 503 from a server without a signer.\<close>

fun error_statuses :: "request \<Rightarrow> nat set" where
  "error_statuses Health = {}"
| "error_statuses (Evaluate_Intent _) = {400, 500}"
| "error_statuses (Register_Session _) = {400, 401, 403, 409, 500, 503}"
| "error_statuses (Reserve_Budget _) = {400, 401, 404, 409, 500, 503}"
| "error_statuses (User_Op_Submitted _) = {400, 401, 404, 409, 500, 503}"
| "error_statuses (User_Op_Finalized _) = {400, 401, 404, 503}"
| "error_statuses (Get_Receipt _) = {401, 404, 503}"
| "error_statuses (Get_Chain_Execution _) = {401, 404, 503}"

definition well_typed :: "request \<Rightarrow> response \<Rightarrow> bool" where
  "well_typed q resp \<longleftrightarrow>
     (case resp of
        Http_Error n _ \<Rightarrow> n \<in> error_statuses q
      | Write_JSON n j \<Rightarrow>
          n = 200 \<and> has_fields (answer_fields q) j \<or>
          n = 409 \<and> (\<exists>body. q = Reserve_Budget body) \<and> has_fields [(''status'', T_String)] j)"

lemma well_typed_simps [simp]:
  "well_typed q (Http_Error n m) \<longleftrightarrow> n \<in> error_statuses q"
  "well_typed q (Write_JSON 200 j) \<longleftrightarrow> has_fields (answer_fields q) j"
  "well_typed q (Write_JSON 409 j) \<longleftrightarrow> (\<exists>body. q = Reserve_Budget body) \<and> has_fields [(''status'', T_String)] j"
  by (simp_all add: well_typed_def)

lemma has_fields_JObj [simp]:
  "has_fields ts (JObj kvs) \<longleftrightarrow> list_all2 (\<lambda>kv t. fst kv = fst t \<and> has_type (snd kv) (snd t)) kvs ts"
  by (simp add: has_fields_def)

lemma has_type_Any [simp]: "has_type j T_Any"
  by (cases j) simp_all

lemma slice_typed [simp]: "has_type (slice_json xs) T_Strings"
  by (cases xs) (auto simp: slice_json_def list_all_iff)

section \<open>Every handler answers in its types\<close>

text \<open>A handler is a tree of cases; these rules carry a property of its answers to the leaves.\<close>

lemma answer_pair: "(\<And>a b. well_typed q (snd (f a b))) \<Longrightarrow> well_typed q (snd (case m of (a, b) \<Rightarrow> f a b))"
  by (cases m) simp

lemma answer_sum: "(\<And>e. well_typed q (snd (f e))) \<Longrightarrow> (\<And>x. well_typed q (snd (g x))) \<Longrightarrow> well_typed q (snd (case r of Inl e \<Rightarrow> f e | Inr x \<Rightarrow> g x))"
  by (cases r) simp_all

lemma answer_option: "well_typed q (snd f) \<Longrightarrow> (\<And>x. well_typed q (snd (g x))) \<Longrightarrow> well_typed q (snd (case r of None \<Rightarrow> f | Some x \<Rightarrow> g x))"
  by (cases r) simp_all

lemma answer_outcome:
  "(\<And>x. well_typed q (snd (f x))) \<Longrightarrow> (\<And>e. well_typed q (snd (g e))) \<Longrightarrow> (\<And>p. well_typed q (snd (h p))) \<Longrightarrow>
     well_typed q (snd (case r of Done x \<Rightarrow> f x | Fails e \<Rightarrow> g e | Panics p \<Rightarrow> h p))"
  by (cases r) simp_all

lemma answer_if: "well_typed q (snd f) \<Longrightarrow> well_typed q (snd g) \<Longrightarrow> well_typed q (snd (if b then f else g))"
  by simp

lemma answer_bool: "well_typed q (snd f) \<Longrightarrow> well_typed q (snd g) \<Longrightarrow> well_typed q (snd (case b of True \<Rightarrow> f | False \<Rightarrow> g))"
  by (cases b) simp_all

lemma answer_leaf: "well_typed q r \<Longrightarrow> well_typed q (snd (st, r))"
  by simp

lemmas answers = answer_pair answer_sum answer_option answer_outcome answer_if answer_bool answer_leaf

lemma recovered_typed [simp]: "well_typed q recovered \<longleftrightarrow> 500 \<in> error_statuses q"
  by (simp add: recovered_def)

lemma evaluate_typed: "well_typed (Evaluate_Intent body) (snd (evaluate_intent uc E RP R V body st))"
  unfolding evaluate_intent_def Let_def by (intro answers) simp_all

lemma register_typed: "well_typed (Register_Session body) (snd (register_session uc E RP V body st))"
  unfolding register_session_def Let_def by (intro answers) simp_all

lemma checked_typed: "check_reserve uc req snap now = Inl r \<Longrightarrow> well_typed (Reserve_Budget body) r"
  by (auto simp: check_reserve_def denied_def split: if_splits option.splits)

lemma persisted_typed: "well_typed (Reserve_Budget body) (snd (persist_reservation RP R req i st))"
  unfolding persist_reservation_def Let_def by (intro answers) (simp_all add: reserved_response_def)

lemma reserve_typed: "well_typed (Reserve_Budget body) (snd (reserve_budget uc RP R body' st))"
  unfolding reserve_budget_def Let_def
  by (auto simp: denied_def persisted_typed checked_typed split: prod.splits option.splits sum.splits)

lemma submitted_typed: "well_typed (User_Op_Submitted body) (snd (user_op_submitted RP R body' st))"
  unfolding user_op_submitted_def Let_def by (intro answers) simp_all

lemma finalized_typed: "well_typed (User_Op_Finalized body) (snd (user_op_finalized uc RP R body' st))"
  unfolding user_op_finalized_def Let_def by (intro answers) simp_all

lemma receipt_typed: "well_typed (Get_Receipt i) (snd (get_receipt_handler RP i' st))"
  unfolding get_receipt_handler_def Let_def by (intro answers) simp_all

lemma chain_typed: "well_typed (Get_Chain_Execution i) (snd (get_chain_execution_handler RP i' st))"
  unfolding get_chain_execution_handler_def Let_def by (intro answers) simp_all

text \<open>
  C12: every answer has the type of its route: whatever the store, Redis, the policy engine
  and the libraries do, an answer of the router is either a text with one of the statuses of
  the route, or a 200 that is an object with exactly the fields of the route, each of its
  type; a budget that is denied is a 409 with a status.
\<close>

theorem answers_are_well_typed: "well_typed q (snd (router uc E RP R V hdr q st))"
  by (cases q) (simp_all add: router_def require_api_key_cases health_def evaluate_typed register_typed
      reserve_typed submitted_typed finalized_typed receipt_typed chain_typed)

end
