(* ===== verification/Requests.thy ===== *)
theory Requests
  imports Server
begin

text \<open>
  From a request's JSON body to the struct a handler works on: \<open>json.NewDecoder(r.Body).Decode\<close>
  with the field tags of the request types. A body is the first JSON value of its text, \<open>None\<close>
  where there is none or it is no JSON. Whole numbers only: a fraction or an exponent is an
  error for every number field of these types.
\<close>

section \<open>Decoding into a struct\<close>

text \<open>A field is its tag and what storing a JSON value in it does.\<close>

type_synonym 'r fields = "(string \<times> (json \<Rightarrow> 'r \<Rightarrow> 'r res)) list"

text \<open>\<open>null\<close> leaves a field alone; a value of another type is an error.\<close>

definition string_field :: "(string \<Rightarrow> 'r \<Rightarrow> 'r) \<Rightarrow> json \<Rightarrow> 'r \<Rightarrow> 'r res" where
  "string_field upd v r =
    (case v of JStr s \<Rightarrow> Inr (upd s r) | JNull \<Rightarrow> Inr r | _ \<Rightarrow> Inl unmarshal_error)"

definition int64_field :: "(int \<Rightarrow> 'r \<Rightarrow> 'r) \<Rightarrow> json \<Rightarrow> 'r \<Rightarrow> 'r res" where
  "int64_field upd v r =
    (case v of
       JNum n \<Rightarrow> if - (2 ^ 63) \<le> n \<and> n < 2 ^ 63 then Inr (upd n r) else Inl unmarshal_error
     | JNull \<Rightarrow> Inr r
     | _ \<Rightarrow> Inl unmarshal_error)"

definition bool_field :: "(bool \<Rightarrow> 'r \<Rightarrow> 'r) \<Rightarrow> json \<Rightarrow> 'r \<Rightarrow> 'r res" where
  "bool_field upd v r =
    (case v of JBool b \<Rightarrow> Inr (upd b r) | JNull \<Rightarrow> Inr r | _ \<Rightarrow> Inl unmarshal_error)"

text \<open>A key names a field exactly or else up to case; unknown keys are skipped.\<close>

definition lookup_field :: "ucase \<Rightarrow> 'r fields \<Rightarrow> string \<Rightarrow> (json \<Rightarrow> 'r \<Rightarrow> 'r res) option" where
  "lookup_field uc fs key =
    (case map_of fs key of
       Some f \<Rightarrow> Some f
     | None \<Rightarrow> map_option snd (find (\<lambda>f. equal_fold uc (fst f) key) fs))"

primrec decode_into :: "ucase \<Rightarrow> 'r fields \<Rightarrow> (string \<times> json) list \<Rightarrow> 'r \<Rightarrow> 'r res" where
  "decode_into uc fs [] r = Inr r"
| "decode_into uc fs (m # ms) r =
    (case lookup_field uc fs (fst m) of
       None \<Rightarrow> decode_into uc fs ms r
     | Some f \<Rightarrow> (case f (snd m) r of Inl e \<Rightarrow> Inl e | Inr r' \<Rightarrow> decode_into uc fs ms r'))"

definition decode_struct :: "ucase \<Rightarrow> 'r fields \<Rightarrow> json \<Rightarrow> 'r \<Rightarrow> 'r res" where
  "decode_struct uc fs v r =
    (case v of JObj ms \<Rightarrow> decode_into uc fs ms r | JNull \<Rightarrow> Inr r | _ \<Rightarrow> Inl unmarshal_error)"

text \<open>A struct inside a struct is decoded into what is there.\<close>

definition struct_field ::
    "ucase \<Rightarrow> 'q fields \<Rightarrow> ('r \<Rightarrow> 'q) \<Rightarrow> ('q \<Rightarrow> 'r \<Rightarrow> 'r) \<Rightarrow> json \<Rightarrow> 'r \<Rightarrow> 'r res" where
  "struct_field uc fs get upd v r =
    (case decode_struct uc fs v (get r) of Inl e \<Rightarrow> Inl e | Inr q \<Rightarrow> Inr (upd q r))"

section \<open>The request types\<close>

definition resource_fields :: "resource fields" where
  "resource_fields =
    [(''method'', string_field (\<lambda>v r. r\<lparr>rs_method := v\<rparr>)),
     (''domain'', string_field (\<lambda>v r. r\<lparr>rs_domain := v\<rparr>)),
     (''path'', string_field (\<lambda>v r. r\<lparr>rs_path := v\<rparr>))]"

definition limits_fields :: "limits fields" where
  "limits_fields =
    [(''maxPerTransfer'', string_field (\<lambda>v r. r\<lparr>lm_max_per_transfer := v\<rparr>)),
     (''maxTotalSpend'', string_field (\<lambda>v r. r\<lparr>lm_max_total_spend := v\<rparr>)),
     (''allowBatch'', bool_field (\<lambda>v r. r\<lparr>lm_allow_batch := v\<rparr>))]"

definition evaluate_fields :: "ucase \<Rightarrow> evaluate_request fields" where
  "evaluate_fields uc =
    [(''agentId'', string_field (\<lambda>v r. r\<lparr>er_agent_id := v\<rparr>)),
     (''account'', string_field (\<lambda>v r. r\<lparr>er_account := v\<rparr>)),
     (''chainId'', int64_field (\<lambda>v r. r\<lparr>er_chain_id := v\<rparr>)),
     (''token'', string_field (\<lambda>v r. r\<lparr>er_token := v\<rparr>)),
     (''recipient'', string_field (\<lambda>v r. r\<lparr>er_recipient := v\<rparr>)),
     (''amountAtomic'', string_field (\<lambda>v r. r\<lparr>er_amount_atomic := v\<rparr>)),
     (''resource'', struct_field uc resource_fields er_resource (\<lambda>v r. r\<lparr>er_resource := v\<rparr>)),
     (''idempotencyKey'', string_field (\<lambda>v r. r\<lparr>er_idempotency_key := v\<rparr>)),
     (''limits'', struct_field uc limits_fields er_limits (\<lambda>v r. r\<lparr>er_limits := v\<rparr>))]"

definition register_fields :: "register_session_req fields" where
  "register_fields =
    [(''decisionId'', string_field (\<lambda>v r. r\<lparr>rq_decision_id := v\<rparr>)),
     (''sessionKey'', string_field (\<lambda>v r. r\<lparr>rq_session_key := v\<rparr>)),
     (''nonceKey'', string_field (\<lambda>v r. r\<lparr>rq_nonce_key := v\<rparr>)),
     (''validAfter'', int64_field (\<lambda>v r. r\<lparr>rq_valid_after := v\<rparr>)),
     (''validUntil'', int64_field (\<lambda>v r. r\<lparr>rq_valid_until := v\<rparr>))]"

definition reserve_fields :: "reserve_req fields" where
  "reserve_fields =
    [(''sessionId'', string_field (\<lambda>v r. r\<lparr>rr_session := v\<rparr>)),
     (''agentId'', string_field (\<lambda>v r. r\<lparr>rr_agent := v\<rparr>)),
     (''intentHash'', string_field (\<lambda>v r. r\<lparr>rr_intent := v\<rparr>)),
     (''amountAtomic'', string_field (\<lambda>v r. r\<lparr>rr_amount_atomic := v\<rparr>)),
     (''idempotencyKey'', string_field (\<lambda>v r. r\<lparr>rr_idempotency := v\<rparr>)),
     (''maxTotalSpend'', string_field (\<lambda>v r. r\<lparr>rr_max_total_spend := v\<rparr>))]"

definition submitted_fields :: "submitted_req fields" where
  "submitted_fields =
    [(''reservationId'', string_field (\<lambda>v r. r\<lparr>su_reservation_id := v\<rparr>)),
     (''userOpHash'', string_field (\<lambda>v r. r\<lparr>su_user_op_hash := v\<rparr>)),
     (''bundler'', string_field (\<lambda>v r. r\<lparr>su_bundler := v\<rparr>)),
     (''executionDigest'', string_field (\<lambda>v r. r\<lparr>su_execution_digest := v\<rparr>))]"

definition finalized_fields :: "finalized_req fields" where
  "finalized_fields =
    [(''userOpHash'', string_field (\<lambda>v r. r\<lparr>fi_user_op_hash := v\<rparr>)),
     (''txHash'', string_field (\<lambda>v r. r\<lparr>fi_tx_hash := v\<rparr>)),
     (''blockNumber'', int64_field (\<lambda>v r. r\<lparr>fi_block_number := v\<rparr>)),
     (''status'', string_field (\<lambda>v r. r\<lparr>fi_status := v\<rparr>))]"

text \<open>The zero values \<open>var req\<close> starts from.\<close>

definition zero_evaluate :: evaluate_request where
  "zero_evaluate =
    \<lparr>er_agent_id = '''', er_account = '''', er_chain_id = 0, er_token = '''', er_recipient = '''',
     er_amount_atomic = '''', er_resource = \<lparr>rs_method = '''', rs_domain = '''', rs_path = ''''\<rparr>,
     er_idempotency_key = '''',
     er_limits = \<lparr>lm_max_per_transfer = '''', lm_max_total_spend = '''', lm_allow_batch = False\<rparr>\<rparr>"

definition zero_register :: register_session_req where
  "zero_register =
    \<lparr>rq_decision_id = '''', rq_session_key = '''', rq_nonce_key = '''', rq_valid_after = 0, rq_valid_until = 0\<rparr>"

definition zero_reserve :: reserve_req where
  "zero_reserve =
    \<lparr>rr_session = '''', rr_agent = '''', rr_intent = '''', rr_amount_atomic = '''', rr_idempotency = '''',
     rr_max_total_spend = ''''\<rparr>"

definition zero_submitted :: submitted_req where
  "zero_submitted =
    \<lparr>su_reservation_id = '''', su_user_op_hash = '''', su_bundler = '''', su_execution_digest = ''''\<rparr>"

definition zero_finalized :: finalized_req where
  "zero_finalized = \<lparr>fi_user_op_hash = '''', fi_tx_hash = '''', fi_block_number = 0, fi_status = ''''\<rparr>"

text \<open>\<open>None\<close> is the handler's \<open>invalid json\<close>.\<close>

definition decode_body :: "ucase \<Rightarrow> 'r fields \<Rightarrow> 'r \<Rightarrow> json option \<Rightarrow> 'r option" where
  "decode_body uc fs zero body =
    (case body of
       None \<Rightarrow> None
     | Some v \<Rightarrow> (case decode_struct uc fs v zero of Inl e \<Rightarrow> None | Inr r \<Rightarrow> Some r))"

section \<open>Routes\<close>

datatype route =
    Health_Route
  | Evaluate_Route
  | Register_Route
  | Reserve_Route
  | Submitted_Route
  | Finalized_Route
  | Receipt_Route string
  | Execution_Route string

fun request_of :: "ucase \<Rightarrow> route \<Rightarrow> json option \<Rightarrow> request" where
  "request_of uc Health_Route body = Health"
| "request_of uc Evaluate_Route body = Evaluate_Intent (decode_body uc (evaluate_fields uc) zero_evaluate body)"
| "request_of uc Register_Route body = Register_Session (decode_body uc register_fields zero_register body)"
| "request_of uc Reserve_Route body = Reserve_Budget (decode_body uc reserve_fields zero_reserve body)"
| "request_of uc Submitted_Route body = User_Op_Submitted (decode_body uc submitted_fields zero_submitted body)"
| "request_of uc Finalized_Route body = User_Op_Finalized (decode_body uc finalized_fields zero_finalized body)"
| "request_of uc (Receipt_Route i) body = Get_Receipt i"
| "request_of uc (Execution_Route i) body = Get_Chain_Execution i"

text \<open>A request as it comes in: the route it matches, its headers, its body.\<close>

definition serve_http ::
    "ucase \<Rightarrow> eth \<Rightarrow> 's repo \<Rightarrow> 'w redis \<Rightarrow> server \<Rightarrow> headers \<Rightarrow> route \<Rightarrow> json option \<Rightarrow> ('s, 'w) world handler" where
  "serve_http uc E RP R V hdr route body = router uc E RP R V hdr (request_of uc route body)"

section \<open>Reading what was written\<close>

text \<open>The body of a request, its fields under their tags in the order of the structs.\<close>

definition evaluate_body :: "evaluate_request \<Rightarrow> json" where
  "evaluate_body r = JObj
    [(''agentId'', JStr (er_agent_id r)), (''account'', JStr (er_account r)), (''chainId'', JNum (er_chain_id r)),
     (''token'', JStr (er_token r)), (''recipient'', JStr (er_recipient r)),
     (''amountAtomic'', JStr (er_amount_atomic r)),
     (''resource'', JObj
       [(''method'', JStr (rs_method (er_resource r))), (''domain'', JStr (rs_domain (er_resource r))),
        (''path'', JStr (rs_path (er_resource r)))]),
     (''idempotencyKey'', JStr (er_idempotency_key r)),
     (''limits'', JObj
       [(''maxPerTransfer'', JStr (lm_max_per_transfer (er_limits r))),
        (''maxTotalSpend'', JStr (lm_max_total_spend (er_limits r))),
        (''allowBatch'', JBool (lm_allow_batch (er_limits r)))])]"

definition register_body :: "register_session_req \<Rightarrow> json" where
  "register_body r = JObj
    [(''decisionId'', JStr (rq_decision_id r)), (''sessionKey'', JStr (rq_session_key r)),
     (''nonceKey'', JStr (rq_nonce_key r)), (''validAfter'', JNum (rq_valid_after r)),
     (''validUntil'', JNum (rq_valid_until r))]"

definition reserve_request_body :: "reserve_req \<Rightarrow> json" where
  "reserve_request_body r = JObj
    [(''sessionId'', JStr (rr_session r)), (''agentId'', JStr (rr_agent r)), (''intentHash'', JStr (rr_intent r)),
     (''amountAtomic'', JStr (rr_amount_atomic r)), (''idempotencyKey'', JStr (rr_idempotency r)),
     (''maxTotalSpend'', JStr (rr_max_total_spend r))]"

definition submitted_body :: "submitted_req \<Rightarrow> json" where
  "submitted_body r = JObj
    [(''reservationId'', JStr (su_reservation_id r)), (''userOpHash'', JStr (su_user_op_hash r)),
     (''bundler'', JStr (su_bundler r)), (''executionDigest'', JStr (su_execution_digest r))]"

definition finalized_body :: "finalized_req \<Rightarrow> json" where
  "finalized_body r = JObj
    [(''userOpHash'', JStr (fi_user_op_hash r)), (''txHash'', JStr (fi_tx_hash r)),
     (''blockNumber'', JNum (fi_block_number r)), (''status'', JStr (fi_status r))]"

fun route_of :: "request \<Rightarrow> route" where
  "route_of Health = Health_Route"
| "route_of (Evaluate_Intent _) = Evaluate_Route"
| "route_of (Register_Session _) = Register_Route"
| "route_of (Reserve_Budget _) = Reserve_Route"
| "route_of (User_Op_Submitted _) = Submitted_Route"
| "route_of (User_Op_Finalized _) = Finalized_Route"
| "route_of (Get_Receipt i) = Receipt_Route i"
| "route_of (Get_Chain_Execution i) = Execution_Route i"

fun body_of :: "request \<Rightarrow> json option" where
  "body_of (Evaluate_Intent b) = map_option evaluate_body b"
| "body_of (Register_Session b) = map_option register_body b"
| "body_of (Reserve_Budget b) = map_option reserve_request_body b"
| "body_of (User_Op_Submitted b) = map_option submitted_body b"
| "body_of (User_Op_Finalized b) = map_option finalized_body b"
| "body_of _ = None"

definition int64 :: "int \<Rightarrow> bool" where
  "int64 n \<longleftrightarrow> - (2 ^ 63) \<le> n \<and> n < 2 ^ 63"

fun int64_request :: "request \<Rightarrow> bool" where
  "int64_request (Evaluate_Intent (Some r)) \<longleftrightarrow> int64 (er_chain_id r)"
| "int64_request (Register_Session (Some r)) \<longleftrightarrow> int64 (rq_valid_after r) \<and> int64 (rq_valid_until r)"
| "int64_request (User_Op_Finalized (Some r)) \<longleftrightarrow> int64 (fi_block_number r)"
| "int64_request _ \<longleftrightarrow> True"

lemma field_simps [simp]:
  "string_field upd (JStr s) r = Inr (upd s r)" "bool_field upd' (JBool b) r = Inr (upd' b r)"
  "int64 n \<Longrightarrow> int64_field upd'' (JNum n) r = Inr (upd'' n r)"
  by (simp_all add: string_field_def bool_field_def int64_field_def int64_def)

lemma lookup_exact [simp]: "map_of fs key = Some f \<Longrightarrow> lookup_field uc fs key = Some f"
  by (simp add: lookup_field_def)

lemma decode_body_simps [simp]:
  "decode_body uc fs zero None = None"
  "decode_body uc fs zero (Some JNull) = Some zero"
  "decode_body uc fs zero (Some (JObj ms)) =
     (case decode_into uc fs ms zero of Inl e \<Rightarrow> None | Inr r \<Rightarrow> Some r)"
  by (simp_all add: decode_body_def decode_struct_def)

lemma struct_field_JObj [simp]:
  "struct_field uc fs get upd (JObj ms) r =
     (case decode_into uc fs ms (get r) of Inl e \<Rightarrow> Inl e | Inr q \<Rightarrow> Inr (upd q r))"
  by (simp add: struct_field_def decode_struct_def)

lemma evaluate_decodes:
  "int64 (er_chain_id r) \<Longrightarrow> decode_body uc (evaluate_fields uc) zero_evaluate (Some (evaluate_body r)) = Some r"
  by (simp add: evaluate_body_def evaluate_fields_def resource_fields_def limits_fields_def zero_evaluate_def)

lemma register_decodes:
  "int64 (rq_valid_after r) \<Longrightarrow> int64 (rq_valid_until r) \<Longrightarrow>
     decode_body uc register_fields zero_register (Some (register_body r)) = Some r"
  by (simp add: register_body_def register_fields_def zero_register_def)

lemma reserve_decodes: "decode_body uc reserve_fields zero_reserve (Some (reserve_request_body r)) = Some r"
  by (simp add: reserve_request_body_def reserve_fields_def zero_reserve_def)

lemma submitted_decodes: "decode_body uc submitted_fields zero_submitted (Some (submitted_body r)) = Some r"
  by (simp add: submitted_body_def submitted_fields_def zero_submitted_def)

lemma finalized_decodes:
  "int64 (fi_block_number r) \<Longrightarrow> decode_body uc finalized_fields zero_finalized (Some (finalized_body r)) = Some r"
  by (simp add: finalized_body_def finalized_fields_def zero_finalized_def)

text \<open>
  C19: a request that is written is read back: for every route, the body a client writes from
  a request, its fields under the tags of the struct, is decoded to that request, for any case
  tables, as long as its numbers have 64 bits.
\<close>

theorem requests_round_trip:
  assumes "int64_request q"
  shows "request_of uc (route_of q) (body_of q) = q"
proof (cases q)
  case (Evaluate_Intent b)
  then show ?thesis using assms by (cases b) (simp_all del: decode_body_simps(3) add: evaluate_decodes)
next
  case (Register_Session b)
  then show ?thesis using assms by (cases b) (simp_all del: decode_body_simps(3) add: register_decodes)
next
  case (Reserve_Budget b)
  then show ?thesis by (cases b) (simp_all del: decode_body_simps(3) add: reserve_decodes)
next
  case (User_Op_Submitted b)
  then show ?thesis by (cases b) (simp_all del: decode_body_simps(3) add: submitted_decodes)
next
  case (User_Op_Finalized b)
  then show ?thesis using assms by (cases b) (simp_all del: decode_body_simps(3) add: finalized_decodes)
qed simp_all

theorem requests_round_trip_witness:
  "request_of plain_case Finalized_Route (Some (JObj
     [(''userOpHash'', JStr ''op''), (''txHash'', JStr ''tx''), (''blockNumber'', JNum 5), (''status'', JStr ''ok'')])) =
   User_Op_Finalized (Some \<lparr>fi_user_op_hash = ''op'', fi_tx_hash = ''tx'', fi_block_number = 5, fi_status = ''ok''\<rparr>)"
  using requests_round_trip [of "User_Op_Finalized (Some \<lparr>fi_user_op_hash = ''op'', fi_tx_hash = ''tx'',
      fi_block_number = 5, fi_status = ''ok''\<rparr>)" plain_case]
  by (simp add: int64_def finalized_body_def)

end
