(* ===== verification/Server_Life.thy ===== *)
theory Server_Life
  imports Server_Props
begin

text \<open>
  The life of a payment across the handlers: the decision an evaluation leaves behind and its
  receipt, and the session it can be turned into.
\<close>

section \<open>Evaluation\<close>

definition evaluate_answer :: "policy_result \<Rightarrow> string \<Rightarrow> string \<Rightarrow> response" where
  "evaluate_answer pout decisionID intentHash = Write_JSON 200 (JObj
     [(''decision'', JStr (pr_decision pout)), (''decisionId'', JStr decisionID),
      (''intentHash'', JStr intentHash), (''policyHash'', JStr (pr_policy_hash pout)),
      (''reasonCodes'', slice_json (pr_reason_codes pout))])"

lemma evaluate_ok:
  assumes "evaluate_intent uc E RP R V (Some req) (s, w) = ((t, w'), resp)" and "ok_response resp"
  obtains h ci s1 pout w1 uuid s2 w2 now where
    "hash_from_request uc E req = Inr (h, ci)"
    "rp_save_intent RP h (er_agent_id req) (er_account req) (er_chain_id req)
         (er_token req) (er_recipient req) (er_amount_atomic req)
         (lm_max_per_transfer (er_limits req)) (lm_max_total_spend (er_limits req))
         (lm_allow_batch (er_limits req)) (ci_domain ci) (ci_path ci) (er_idempotency_key req) s = (s1, Inr ())"
    "evaluate uc E (sv_policy V) (policy_input_of req) = Inr pout"
    "uuid_of R w = (w1, uuid)"
    "rp_save_decision RP (''dec_'' @ uuid) h (pr_decision pout) (pr_reason_codes pout) (pr_policy_hash pout) s1 = (s2, Inr ())"
    "now_of R w1 = (w2, now)"
    "store_receipt E RP V now req (''dec_'' @ uuid) h pout s2 = (t, True)"
    "resp = evaluate_answer pout (''dec_'' @ uuid) h" "w' = w2"
proof -
  obtain h ci where h: "hash_from_request uc E req = Inr (h, ci)" by (simp add: hash_from_request_Inr)
  obtain s1 r where i: "rp_save_intent RP h (er_agent_id req) (er_account req) (er_chain_id req)
         (er_token req) (er_recipient req) (er_amount_atomic req)
         (lm_max_per_transfer (er_limits req)) (lm_max_total_spend (er_limits req))
         (lm_allow_batch (er_limits req)) (ci_domain ci) (ci_path ci) (er_idempotency_key req) s = (s1, r)"
    by fastforce
  have r: "r = Inr ()" using assms h i by (cases r) (auto simp: evaluate_intent_def)
  obtain pout where p: "evaluate uc E (sv_policy V) (policy_input_of req) = Inr pout"
    using assms h i r by (cases "evaluate uc E (sv_policy V) (policy_input_of req)") (auto simp: evaluate_intent_def)
  obtain w1 uuid where u: "uuid_of R w = (w1, uuid)" by fastforce
  obtain s2 q where d: "rp_save_decision RP (''dec_'' @ uuid) h (pr_decision pout) (pr_reason_codes pout) (pr_policy_hash pout) s1 = (s2, q)"
    by fastforce
  have q: "q = Inr ()" using assms h i r p u d by (cases q) (auto simp: evaluate_intent_def)
  obtain w2 now where n: "now_of R w1 = (w2, now)" by fastforce
  obtain s3 b where b: "store_receipt E RP V now req (''dec_'' @ uuid) h pout s2 = (s3, b)" by fastforce
  have "b \<and> s3 = t \<and> w' = w2 \<and> resp = evaluate_answer pout (''dec_'' @ uuid) h"
    using assms h i r p u d q n b
    by (cases b) (auto simp: evaluate_intent_def evaluate_answer_def recovered_def)
  then show thesis
    by (intro that [OF h i [unfolded r] p u d [unfolded q] n]) (use b in simp_all)
qed

lemma save_intent_Inr:
  assumes "save_intent P h ag ac ch tok rec am mp mt ab dm path idem s = (t, Inr ())"
  shows "\<exists>i \<in> set (payment_intents t). ir_intent_hash i = h"
  using stmt_Inr [OF assms [unfolded save_intent_def]] by (auto split: option.splits if_splits)

lemma save_decision_Inr:
  assumes "save_decision d h dec rc ph s = (t, Inr ())"
  shows "payment_intents t = payment_intents s" "audit_receipts t = audit_receipts s"
    "decision_of d t = Some \<lparr>dr_decision_id = d, dr_intent_hash = h, dr_decision = dec, dr_reason_codes = rc,
       dr_policy_hash = ph, dr_created_at = db_now s, dr_consumed_at = None, dr_consumed_session = None\<rparr>"
  using stmt_Inr [OF assms [unfolded save_decision_def]]
  by (auto simp: decision_of_def split: if_splits intro!: find_append_last)

lemma save_receipt_frame:
  "payment_intents (fst (save_receipt d h sid rh pl sg k s)) = payment_intents s"
  "policy_decisions (fst (save_receipt d h sid rh pl sg k s)) = policy_decisions s"
  by (auto simp: save_receipt_def stmt_def Let_def split: fault.split)

lemma store_receipt_frame:
  assumes "store_receipt E (pg_repo P) V now req d h pout s = (t, b)"
  shows "payment_intents t = payment_intents s" "policy_decisions t = policy_decisions s"
  using assms by (auto simp: store_receipt_def save_receipt_frame split: if_splits outcome.splits)

lemma found_in: "x \<in> set xs \<Longrightarrow> p x \<Longrightarrow> \<exists>y. find p xs = Some y"
  by (metis find_None_iff option.exhaust)

text \<open>
  C13: an evaluation that is answered 200 is on record: the decision in the answer is the
  policy engine's for this very request, and the store holds it, unconsumed, under the
  identifier in the answer, with the hash of the request's canonical intent, whose row is
  there; a session can be registered on it exactly if it says ALLOW.
\<close>

theorem evaluated_decision_is_recorded:
  assumes "evaluate_intent uc E (pg_repo P) R V (Some req) (s, w) = ((t, w'), resp)" and "ok_response resp"
  shows "\<exists>h ci pout uuid r.
    hash_from_request uc E req = Inr (h, ci) \<and> uuid = snd (uuid_of R w) \<and>
    evaluate uc E (sv_policy V) (policy_input_of req) = Inr pout \<and>
    resp = evaluate_answer pout (''dec_'' @ uuid) h \<and>
    decision_of (''dec_'' @ uuid) t = Some r \<and> dr_decision r = pr_decision pout \<and>
    dr_intent_hash r = h \<and> dr_policy_hash r = pr_policy_hash pout \<and> dr_consumed_session r = None \<and>
    (\<exists>i \<in> set (payment_intents t). ir_intent_hash i = h) \<and>
    (db_allowed t (''dec_'' @ uuid) \<noteq> None \<longleftrightarrow> pr_decision pout = ''ALLOW'')"
proof -
  obtain h ci s1 pout w1 uuid s2 w2 now where *:
    "hash_from_request uc E req = Inr (h, ci)"
    "save_intent P h (er_agent_id req) (er_account req) (er_chain_id req)
         (er_token req) (er_recipient req) (er_amount_atomic req)
         (lm_max_per_transfer (er_limits req)) (lm_max_total_spend (er_limits req))
         (lm_allow_batch (er_limits req)) (ci_domain ci) (ci_path ci) (er_idempotency_key req) s = (s1, Inr ())"
    "evaluate uc E (sv_policy V) (policy_input_of req) = Inr pout"
    "uuid_of R w = (w1, uuid)"
    "save_decision (''dec_'' @ uuid) h (pr_decision pout) (pr_reason_codes pout) (pr_policy_hash pout) s1 = (s2, Inr ())"
    "store_receipt E (pg_repo P) V now req (''dec_'' @ uuid) h pout s2 = (t, True)"
    "resp = evaluate_answer pout (''dec_'' @ uuid) h"
    using evaluate_ok [OF assms] by (metis pg_repo_simps(1,2))
  note dec = save_decision_Inr [OF *(5)] and frame = store_receipt_frame [OF *(6)]
  have i: "\<exists>i \<in> set (payment_intents t). ir_intent_hash i = h"
    using save_intent_Inr [OF *(2)] dec(1) frame(1) by simp
  obtain i' where i': "find (\<lambda>i. ir_intent_hash i = h) (payment_intents t) = Some i'"
    using i found_in [where p = "\<lambda>i. ir_intent_hash i = h"] by blast
  have d: "decision_of (''dec_'' @ uuid) t = decision_of (''dec_'' @ uuid) s2"
    using frame(2) by (simp add: decision_of_def)
  have "db_allowed t (''dec_'' @ uuid) \<noteq> None \<longleftrightarrow> pr_decision pout = ''ALLOW''"
    unfolding db_allowed_def d dec(3) by (simp add: i')
  then show ?thesis using * i d dec(3) by (intro exI conjI) (assumption | simp)+
qed

text \<open>An evaluation whose steps go through answers with the decision.\<close>

lemma evaluate_answers:
  assumes "hash_from_request uc E req = Inr (h, ci)"
    and "rp_save_intent RP h (er_agent_id req) (er_account req) (er_chain_id req)
         (er_token req) (er_recipient req) (er_amount_atomic req)
         (lm_max_per_transfer (er_limits req)) (lm_max_total_spend (er_limits req))
         (lm_allow_batch (er_limits req)) (ci_domain ci) (ci_path ci) (er_idempotency_key req) s = (s1, Inr ())"
    and "evaluate uc E (sv_policy V) (policy_input_of req) = Inr pout"
    and "uuid_of R w = (w1, uuid)"
    and "rp_save_decision RP (''dec_'' @ uuid) h (pr_decision pout) (pr_reason_codes pout) (pr_policy_hash pout) s1 = (s2, Inr ())"
    and "now_of R w1 = (w2, now)"
    and "store_receipt E RP V now req (''dec_'' @ uuid) h pout s2 = (t, True)"
  shows "evaluate_intent uc E RP R V (Some req) (s, w) = ((t, w2), evaluate_answer pout (''dec_'' @ uuid) h)"
  using assms by (simp add: evaluate_intent_def evaluate_answer_def)

definition life_request :: evaluate_request where
  "life_request = sample_request\<lparr>er_amount_atomic := ''10'',
     er_limits := \<lparr>lm_max_per_transfer = ''10'', lm_max_total_spend = ''25'', lm_allow_batch = False\<rparr>\<rparr>"

definition life_server :: server where
  "life_server = server_new (deploy_config\<lparr>receipt_signer_key := ''0xk''\<rparr>) sample_pe"

definition life_result :: policy_result where
  "life_result =
    \<lparr>pr_decision = ''ALLOW'', pr_reason_codes = None, pr_policy_hash = policy_hash sample_eth sample_pe\<rparr>"

lemma life_evaluates: "evaluate plain_case sample_eth (sv_policy life_server) (policy_input_of life_request) = Inr life_result"
proof -
  have f: "field_of plain_case ''decision'' = Some ''decision''" by (simp add: field_of_def Let_def)
  have u: "to_upper plain_case ''ALLOW'' = ''ALLOW''" by code_simp
  have "pe_eval sample_pe i = Inr [[JObj [(''decision'', JStr ''ALLOW'')]]]" for i by (simp add: sample_pe_def)
  then show ?thesis
    by (simp add: evaluate_def life_server_def server_new_def decode_result_def set_field_def f u
        life_result_def zero_result_def)
qed

lemma life_run:
  obtains t v h where "evaluate_intent plain_case sample_eth (pg_repo sample_pg) view_redis life_server
      (Some life_request) (empty_db, sample_start) = ((t, v), evaluate_answer life_result (''dec_'' @ []) h)"
proof -
  obtain h where h: "hash_from_request plain_case sample_eth life_request = Inr (h, canonicalize plain_case life_request)"
    by (simp add: hash_from_request_Inr)
  let ?c = "canonicalize plain_case life_request"
  have n: "numeric_in sample_pg (er_amount_atomic life_request) \<noteq> None"
    "numeric_in sample_pg (lm_max_per_transfer (er_limits life_request)) \<noteq> None"
    "numeric_in sample_pg (lm_max_total_spend (er_limits life_request)) \<noteq> None"
    by (simp_all add: life_request_def sample_numeric)
  obtain s1 where s1: "save_intent sample_pg h (er_agent_id life_request) (er_account life_request)
      (er_chain_id life_request) (er_token life_request) (er_recipient life_request) (er_amount_atomic life_request)
      (lm_max_per_transfer (er_limits life_request)) (lm_max_total_spend (er_limits life_request))
      (lm_allow_batch (er_limits life_request)) (ci_domain ?c) (ci_path ?c) (er_idempotency_key life_request)
      empty_db = (s1, Inr ())" and f1: "db_faults s1 = []" "policy_decisions s1 = []"
    using n by (auto simp: save_intent_def stmt_healthy empty_db_def)
  obtain s2 where s2: "save_decision (''dec_'' @ []) h ''ALLOW'' None (policy_hash sample_eth sample_pe) s1 = (s2, Inr ())"
    using f1 by (simp add: save_decision_def stmt_healthy)
  have key: "sv_receipt life_server = sample_signer\<lparr>sn_key_id := ''key-1''\<rparr>"
    by (simp add: life_server_def server_new_def sample_signer_def deploy_config_def)
  obtain g where g: "sign sample_eth (rfc3339 0) (sv_receipt life_server)
      (receipt_payload life_request (''dec_'' @ []) h life_result) = Done g"
    using sample_signs by (auto simp: key sample_signer_def)
  have "\<exists>t. store_receipt sample_eth (pg_repo sample_pg) life_server 0 life_request (''dec_'' @ []) h life_result s2 = (t, True)"
    using g by (simp add: store_receipt_def)
  then obtain t where t: "store_receipt sample_eth (pg_repo sample_pg) life_server 0 life_request (''dec_'' @ []) h life_result s2 = (t, True)"
    by blast
  have "evaluate_intent plain_case sample_eth (pg_repo sample_pg) view_redis life_server
      (Some life_request) (empty_db, sample_start) =
      ((t, fst (v_uuid sample_start)), evaluate_answer life_result (''dec_'' @ []) h)"
    by (rule evaluate_answers [OF h _ life_evaluates, where ?w1.0 = "fst (v_uuid sample_start)"])
      (use s1 s2 t in \<open>simp_all add: life_result_def v_uuid_def v_now_def sample_start_def\<close>)
  then show thesis by (rule that)
qed

theorem evaluated_decision_is_recorded_witness:
  "\<exists>t h. db_allowed t (''dec_'' @ []) \<noteq> None \<and>
     (\<exists>i \<in> set (payment_intents t). ir_intent_hash i = h)"
proof -
  obtain t v h where r: "evaluate_intent plain_case sample_eth (pg_repo sample_pg) view_redis life_server
      (Some life_request) (empty_db, sample_start) = ((t, v), evaluate_answer life_result (''dec_'' @ []) h)"
    by (rule life_run)
  have "ok_response (evaluate_answer life_result (''dec_'' @ []) h)" by (simp add: evaluate_answer_def)
  from evaluated_decision_is_recorded [OF r this] show ?thesis
    by (auto simp: life_evaluates life_result_def v_uuid_def sample_start_def)
qed

section \<open>Receipts\<close>

definition receipt_answer :: "string \<Rightarrow> signed \<Rightarrow> response" where
  "receipt_answer decisionID g = Write_JSON 200 (JObj
     [(''decision'', JStr ''ALLOW''), (''decisionId'', JStr decisionID), (''payload'', any_json (payload_json (sg_payload g))),
      (''receiptHash'', JStr (sg_receipt_hash g)), (''signature'', JStr (sg_signature g))])"

lemma healthy_intent:
  "db_faults s = [] \<Longrightarrow> save_intent P h ag ac ch tok rec am mp mt ab dm path idem s = (t, r) \<Longrightarrow>
     db_faults t = [] \<and> audit_receipts t = audit_receipts s"
  by (auto simp: save_intent_def stmt_healthy split: option.splits if_splits)

lemma healthy_decision:
  "db_faults s = [] \<Longrightarrow> save_decision d h dec rc ph s = (t, r) \<Longrightarrow> db_faults t = []"
  by (auto simp: save_decision_def stmt_healthy split: if_splits)

lemma receipt_read_back:
  assumes "db_faults s = []" and "\<forall>r \<in> set (audit_receipts s). ar_decision_id r \<noteq> d"
    and "decision_of d s = Some r" and "save_receipt d h sid rh pl sg k s = (t, q)"
  shows "get_receipt d t = (t, Inr (dr_decision r, rh, sg, pl))"
proof -
  let ?row = "\<lparr>ar_decision_id = d, ar_intent_hash = h, ar_session_id = sid, ar_receipt_hash = rh,
      ar_receipt_json = pl, ar_signature = sg, ar_signer_key_id = k\<rparr>"
  have t: "t = s\<lparr>audit_receipts := audit_receipts s @ [?row]\<rparr>"
    using assms(1,2,4) by (auto simp: save_receipt_def stmt_healthy split: if_splits)
  have "find (\<lambda>r. ar_decision_id r = d) (audit_receipts s @ [?row]) = Some ?row"
    using assms(2) by (intro find_append_last) simp_all
  then show ?thesis
    using assms(1,3) by (simp add: t get_receipt_def sql_bind_def or_error_def query_row_healthy decision_of_def)
qed

lemma no_receipt:
  assumes "db_faults s = []" and "\<forall>r \<in> set (audit_receipts s). ar_decision_id r \<noteq> d"
  shows "get_receipt d s = (s, Inl (Err ''receipt not found''))"
proof -
  have "find (\<lambda>r. ar_decision_id r = d) (audit_receipts s) = None" using assms(2) by (auto simp: find_None_iff)
  then show ?thesis using assms(1) by (simp add: get_receipt_def sql_bind_def or_error_def query_row_healthy)
qed

lemma slice_json_inject: "slice_json a = slice_json b \<longleftrightarrow> a = b"
  by (auto simp: slice_json_def inj_map_eq_map inj_def split: option.splits)

text \<open>What the receipt endpoint answers right after the receipt was signed and saved, or not.\<close>

lemma receipt_after_store:
  assumes "db_faults s = []" and "\<forall>r \<in> set (audit_receipts s). ar_decision_id r \<noteq> d"
    and "decision_of d s = Some row" and "dr_decision row = ''ALLOW''"
    and "receipt_signer_key (sv_cfg V) \<noteq> []" and "pr_decision pout = ''ALLOW''"
    and "store_receipt E (pg_repo P) V now req d h pout s = (t, True)"
  shows "get_receipt_handler (pg_repo P) d (t, v) =
    ((t, v), case sign E (rfc3339 now) (sv_receipt V) (receipt_payload req d h pout) of
       Done g \<Rightarrow> receipt_answer d g
     | _ \<Rightarrow> Http_Error 404 ''not found'')"
proof (cases "sign E (rfc3339 now) (sv_receipt V) (receipt_payload req d h pout)")
  case (Done g)
  let ?save = "save_receipt d h [] (sg_receipt_hash g) (payload_json (sg_payload g)) (sg_signature g)
      (signer_key_id (sv_cfg V)) s"
  have "?save = (t, snd ?save)"
    using assms(5-7) Done by (auto simp: store_receipt_def prod_eq_iff)
  from receipt_read_back [OF assms(1-3) this] show ?thesis
    using Done assms(4) by (simp add: get_receipt_handler_def receipt_answer_def)
next
  case (Fails e)
  then have "t = s" using assms(5-7) by (simp add: store_receipt_def)
  then show ?thesis
    using Fails no_receipt [OF assms(1,2)] by (simp add: get_receipt_handler_def)
next
  case (Panics e)
  then show ?thesis using assms(5-7) by (simp add: store_receipt_def)
qed



section \<open>Cosigning\<close>

lemma allowed_found:
  assumes "db_faults s = []" and "db_allowed s d = Some (h, ph, intent)"
  shows "get_allow_decision d s = (s, Inr (h, ph, intent))"
  using assms
  by (auto simp: db_allowed_def get_allow_decision_def sql_bind_def or_error_def query_row_healthy
      split: option.splits if_splits)

lemma fresh_decision_authorizes:
  assumes "db_faults s = []" and "decision_of d s = Some r" and "dr_decision r = ''ALLOW''"
    and "dr_consumed_at r = None" and "\<forall>x \<in> set (policy_decisions s). dr_consumed_session x \<noteq> Some sid"
    and "numeric_in P (sc_max_per_transfer cfg) \<noteq> None" and "numeric_in P (sc_max_total_spend cfg) \<noteq> None"
    and "\<forall>x \<in> set (sessions s). sr_account x = sc_account cfg \<longrightarrow> sr_nonce_key x \<noteq> sc_nonce_key cfg"
  shows "\<exists>t. authorize_session P d sid ag cfg s = (t, Inr ())"
proof -
  let ?p = "\<lambda>r. dr_decision_id r = d \<and> dr_consumed_at r = None"
  have "r \<in> set (policy_decisions s) \<and> ?p r"
    using assms(2,4) by (auto simp: decision_of_def dest: find_Some_set)
  then have n: "length (filter ?p (policy_decisions s)) \<noteq> 0" by (auto simp: filter_empty_conv)
  obtain s1 where c: "consume_decision d sid s = (s1, Inr (length (filter ?p (policy_decisions s))))"
    and s1: "sessions s1 = sessions s"
    using assms(5) by (auto simp: consume_decision_def update_where_def)
  have "snd (insert_session P (\<lambda>r. r) sid ag cfg ''SESSION_AUTHORIZED'' s1) = Inr ()"
    using assms(6-8) by (auto simp: insert_session_def s1)
  then obtain s2 where i: "insert_session P (\<lambda>r. r) sid ag cfg ''SESSION_AUTHORIZED'' s1 = (s2, Inr ())"
    by (metis prod.collapse)
  show ?thesis
    using n by (simp add: authorize_healthy [OF assms(1)] assms(2-4) c i)
qed

text \<open>
  C14: an allowed request is cosigned: on a healthy store, a well-formed request on a stored
  ALLOW under the policy in force that nothing has consumed, whose configuration is valid and
  signed by the library, with caps the database takes and an account and nonce key not yet in
  use, is answered 200 with the identifier and the signature, and the decision is consumed.
\<close>

theorem allowed_request_is_cosigned:
  assumes "db_faults s = []" and "db_allowed s (rq_decision_id req) = Some (h, ph, intent)"
    and "decision_of (rq_decision_id req) s = Some r" and "dr_consumed_at r = None"
    and "adapter_address (sv_cfg V) \<noteq> ''''" and "railguard_signer_key (sv_cfg V) \<noteq> ''''"
    and "rq_decision_id req \<noteq> ''''" and "rq_session_key req \<noteq> ''''" and "rq_nonce_key req \<noteq> ''''"
    and "0 < rq_valid_after req" and "rq_valid_after req < rq_valid_until req"
    and "equal_fold uc ph (policy_hash E (sv_policy V))"
    and "validate_v1 uc (session_of V req ph intent) = Inr ()"
    and "derive_session_id E (session_of V req ph intent) = Done sid"
    and "sign_railguard E (sv_eip712 V) (session_of V req ph intent) = Done (digest, sig)"
    and "\<forall>x \<in> set (policy_decisions s). dr_consumed_session x \<noteq> Some (hash_hex E sid)"
    and "numeric_in P (is_max_per_transfer intent) \<noteq> None" and "numeric_in P (is_max_total_spend intent) \<noteq> None"
    and "\<forall>x \<in> set (sessions s). sr_account x = is_account intent \<longrightarrow> sr_nonce_key x \<noteq> rq_nonce_key req"
  shows "\<exists>t physical. register_session uc E (pg_repo P) V (Some req) (s, w) =
      ((t, w), register_answer E digest sig physical sid) \<and>
    db_consumer t (rq_decision_id req) = Some (hash_hex E sid)"
proof -
  let ?cfg = "session_of V req ph intent"
  have "dr_decision r = ''ALLOW''"
    using assms(2,3) by (auto simp: db_allowed_def split: if_splits)
  moreover have "numeric_in P (sc_max_per_transfer ?cfg) \<noteq> None" "numeric_in P (sc_max_total_spend ?cfg) \<noteq> None"
    "\<forall>x \<in> set (sessions s). sr_account x = sc_account ?cfg \<longrightarrow> sr_nonce_key x \<noteq> sc_nonce_key ?cfg"
    using assms(17-19) by (simp_all add: session_of_def)
  ultimately obtain t where t: "authorize_session P (rq_decision_id req) (hash_hex E sid) (is_agent_id intent) ?cfg s = (t, Inr ())"
    using fresh_decision_authorizes [OF assms(1,3) _ assms(4,16)] by blast
  obtain physical where p: "session_config_physical_hash E ?cfg = Done physical"
    using assms(14) by (auto simp: session_id_Done)
  have "register_session uc E (pg_repo P) V (Some req) (s, w) = ((t, w), register_answer E digest sig physical sid)"
    using assms(5-15) t p by (simp add: register_session_def register_answer_def allowed_found [OF assms(1,2)])
  then show ?thesis using authorize_consumer [OF t] by blast
qed

theorem allowed_request_is_cosigned_witness:
  "\<exists>sid digest sig t physical. register_session plain_case sample_eth (pg_repo sample_pg) sample_server (Some sample_register)
     (deploy_db, ()) = ((t, ()), register_answer sample_eth digest sig physical sid)"
proof -
  obtain sid where sid: "derive_session_id sample_eth deploy_session = Done sid" using deploy_derives by blast
  obtain digest sig where sg: "sign_railguard sample_eth sample_railguard deploy_session = Done (digest, sig)"
    using deploy_signs by blast
  have req: "rq_decision_id sample_register = ''d''" "rq_session_key sample_register = ''0xB2''"
    "rq_nonce_key sample_register = ''7''" "rq_valid_after sample_register = 100" "rq_valid_until sample_register = 200"
    by (simp_all add: sample_register_def)
  have dec: "decision_of ''d'' deploy_db = Some (sample_decision\<lparr>dr_policy_hash := sample_policy_hash\<rparr>)"
    by (simp add: decision_of_def deploy_db_def sample_decision_def)
  have rows: "policy_decisions deploy_db = [sample_decision\<lparr>dr_policy_hash := sample_policy_hash\<rparr>]" "sessions deploy_db = []"
    "dr_consumed_at sample_decision = None" "dr_consumed_session sample_decision = None"
    by (simp_all add: deploy_db_def empty_db_def sample_decision_def)
  have caps: "is_max_per_transfer (snapshot_of stored_intent) = ''10''" "is_max_total_spend (snapshot_of stored_intent) = ''25''"
    by (simp_all add: snapshot_of_def stored_intent_def)
  have al: "db_allowed deploy_db (rq_decision_id sample_register) = Some (''h'', sample_policy_hash, snapshot_of stored_intent)"
    unfolding req by (rule get_allow_Inr [OF deploy_allows])
  have hash: "policy_hash sample_eth sample_pe = sample_policy_hash" by (simp only: sample_policy_hash_def)
  have "\<exists>t physical. register_session plain_case sample_eth (pg_repo sample_pg) sample_server (Some sample_register)
      (deploy_db, ()) = ((t, ()), register_answer sample_eth digest sig physical sid) \<and>
      db_consumer t (rq_decision_id sample_register) = Some (hash_hex sample_eth sid)"
    by (rule allowed_request_is_cosigned [OF deploy_db_ok(2) al dec [folded req(1)]])
      (simp_all add: req deploy_session_of deploy_session_valid sid sg rows caps sample_numeric hash)
  then show ?thesis by blast
qed

end
