(* ===== verification/Settlement.thy ===== *)
theory Settlement
  imports Server_Life
begin

text \<open>
  What the bundler's reports do: a submitted user operation, its outcome, and the budget that
  was reserved for it, in the store and in Redis.
\<close>

section \<open>Rows and clocks\<close>

lemma find_update:
  assumes "\<And>r. p (f r) = p r"
  shows "find p (map (\<lambda>r. if q r then f r else r) rs) = map_option (\<lambda>r. if q r then f r else r) (find p rs)"
  using assms by (induction rs) auto

lemma find_Some_count: "find p rs = Some r \<Longrightarrow> length (filter p rs) \<noteq> 0"
  by (auto dest: find_Some_set simp: filter_empty_conv)

lemma view_now:
  assumes "redis_server R view"
  shows "view (fst (now_of R w)) = view w" "snd (now_of R w) = clock (view w)"
  using redis_server.now_law [OF assms, of w]
  by (simp_all add: v_now_def apfst_def map_prod_def split: prod.splits)

section \<open>The outcome of a user operation\<close>

definition settled_op :: "int \<Rightarrow> finalized_req \<Rightarrow> string \<Rightarrow> userop_row \<Rightarrow> userop_row" where
  "settled_op now req status u =
    u\<lparr>ur_status := status, ur_tx_hash := Some (fi_tx_hash req), ur_block := Some (fi_block_number req),
      ur_finalized_at := Some now\<rparr>"

lemma finalize_healthy:
  assumes "db_faults s = []" and "find (\<lambda>r. ur_hash r = fi_user_op_hash req) (userop_lifecycle s) = Some u"
  shows "finalize_user_op now (fi_user_op_hash req) (fi_tx_hash req) (fi_block_number req) status s =
    (s\<lparr>userop_lifecycle := map (\<lambda>r. if ur_hash r = fi_user_op_hash req then settled_op now req status r else r)
        (userop_lifecycle s)\<rparr>, Inr ())"
  using assms find_Some_count [OF assms(2)]
  by (simp add: finalize_user_op_def sql_bind_def stmt_healthy update_where_def settled_op_def)

lemma op_of_settled:
  assumes "find (\<lambda>r. ur_hash r = h) rows = Some u"
  shows "find (\<lambda>r. ur_hash r = h) (map (\<lambda>r. if ur_hash r = h then settled_op now req status r else r) rows) =
    Some (settled_op now req status u)"
  using assms find_update [of "\<lambda>r. ur_hash r = h" "settled_op now req status" "\<lambda>r. ur_hash r = h" rows]
    find_Some_set [OF assms] by (simp add: settled_op_def)

lemma reservation_of_op:
  assumes "db_faults s = []" and "find (\<lambda>r. ur_hash r = h) (userop_lifecycle s) = Some u"
  shows "get_reservation_id_by_user_op h s = (s, Inr (ur_reservation_id u))"
  using assms by (simp add: get_reservation_id_by_user_op_def or_error_def query_row_healthy)

lemma update_healthy:
  "db_faults s = [] \<Longrightarrow> update_reservation_status rid status s = (set_status rid status s, Inr ())"
  by (simp add: update_reservation_status_def stmt_healthy)

definition final_answer :: "string \<Rightarrow> response" where
  "final_answer status = Write_JSON 200 (JObj [(''status'', JStr
     (if status = ''USEROP_REVERTED'' then ''BUDGET_RELEASED'' else ''BUDGET_COMMITTED''))])"

text \<open>The handler on a known operation: rows, and the program that runs on Redis.\<close>

lemma finalized_known:
  assumes "db_faults s = []" and "find (\<lambda>r. ur_hash r = fi_user_op_hash req) (userop_lifecycle s) = Some u"
    and "to_upper uc (trim_space (fi_status req)) = status"
    and "status \<in> {''USEROP_FINALIZED'', ''USEROP_REVERTED''}"
  shows "user_op_finalized uc (pg_repo P) R (Some req) (s, w) =
    (let (w1, now) = now_of R w; rid = ur_reservation_id u in
     ((set_status rid (if status = ''USEROP_REVERTED'' then ''BUDGET_RELEASED'' else ''BUDGET_COMMITTED'')
         (s\<lparr>userop_lifecycle := map (\<lambda>r. if ur_hash r = fi_user_op_hash req then settled_op now req status r else r)
            (userop_lifecycle s)\<rparr>),
       fst (run R (if status = ''USEROP_REVERTED'' then release_reservation rid else commit_reservation rid) w1)),
      final_answer status))"
proof -
  obtain w1 now where n: "now_of R w = (w1, now)" by fastforce
  let ?t = "s\<lparr>userop_lifecycle := map (\<lambda>r. if ur_hash r = fi_user_op_hash req then settled_op now req status r else r)
      (userop_lifecycle s)\<rparr>"
  have t: "db_faults ?t = []" using assms(1) by simp
  have "get_reservation_id_by_user_op (fi_user_op_hash req) ?t = (?t, Inr (ur_reservation_id (settled_op now req status u)))"
    by (rule reservation_of_op [OF t]) (simp add: op_of_settled [OF assms(2)])
  then have g: "get_reservation_id_by_user_op (fi_user_op_hash req) ?t = (?t, Inr (ur_reservation_id u))"
    by (simp add: settled_op_def)
  show ?thesis
    using assms(4) g
    by (auto simp: user_op_finalized_def assms(3) n finalize_healthy [OF assms(1,2)] settle_def
        update_healthy [OF t] final_answer_def Let_def)
qed

text \<open>
  C9: the report of an outcome settles the budget: for a known user operation, on a healthy
  store and an idle Redis, the handler answers 200 with the outcome, marks operation and
  reservation, and Redis follows: a finalized operation keeps its amount in the aggregate
  for good, a reverted one gives it back; in both cases the reservation is no longer pending.
\<close>

theorem finalized_settles_budget:
  assumes "redis_server R view" and "idle (view w)" and "db_faults s = []"
    and "find (\<lambda>r. ur_hash r = fi_user_op_hash req) (userop_lifecycle s) = Some u"
    and "to_upper uc (trim_space (fi_status req)) = status"
    and "status \<in> {''USEROP_FINALIZED'', ''USEROP_REVERTED''}"
    and "pending_of (index (view w)) (ur_reservation_id u) = Some (sid, a, e)"
    and "kv (view w) (reservation_meta_key (ur_reservation_id u)) \<noteq> None"
    and "user_op_finalized uc (pg_repo P) R (Some req) (s, w) = ((t, w'), resp)"
  shows "resp = final_answer status \<and>
    pending_of (index (view w')) = (pending_of (index (view w)))(ur_reservation_id u := None) \<and>
    total (view w') = (if status = ''USEROP_FINALIZED'' then total (view w)
      else (total (view w))(sid := map_option (\<lambda>n. max 0 (n - a)) (total (view w) sid))) \<and>
    find (\<lambda>r. ur_hash r = fi_user_op_hash req) (userop_lifecycle t) = Some (settled_op (clock (view w)) req status u) \<and>
    budget_reservations t = map (\<lambda>r. if rr_reservation_id r = ur_reservation_id u
      then r\<lparr>rr_status := if status = ''USEROP_FINALIZED'' then ''BUDGET_COMMITTED'' else ''BUDGET_RELEASED''\<rparr> else r)
      (budget_reservations s)"
proof -
  let ?rid = "ur_reservation_id u"
  obtain w1 now where n: "now_of R w = (w1, now)" by fastforce
  have w1: "view w1 = view w" "now = clock (view w)" using view_now [OF assms(1), of w] n by simp_all
  have idle: "idle (view w1)" using assms(2) w1 by simp
  let ?p = "if status = ''USEROP_REVERTED'' then release_reservation ?rid else commit_reservation ?rid"
  have k: "((t, w'), resp) = ((set_status ?rid (if status = ''USEROP_REVERTED'' then ''BUDGET_RELEASED'' else ''BUDGET_COMMITTED'')
       (s\<lparr>userop_lifecycle := map (\<lambda>r. if ur_hash r = fi_user_op_hash req then settled_op now req status r else r)
          (userop_lifecycle s)\<rparr>), fst (run R ?p w1)), final_answer status)"
    using finalized_known [OF assms(3-6), of P R w] assms(9) n by (simp add: Let_def)
  have "view w' = fst (run view_redis ?p (view w1))"
    using k redis_server.view_run [OF assms(1), of ?p w1] by simp
  then have v: "view w' = (if status = ''USEROP_REVERTED'' then forget ?rid (lower_total sid a (view w)) else forget ?rid (view w))"
    using assms(7,8) w1 idle
    by (auto simp: run_release_reservation run_commit_reservation released_def)
  have wf: "wf_index (index (view w))" by (rule idleD(3) [OF assms(2)])
  have pend: "pending_of (index (view w')) = (pending_of (index (view w)))(?rid := None)"
    unfolding v using wf by (simp add: pending_forget)
  have tot: "total (view w') = (if status = ''USEROP_FINALIZED'' then total (view w)
      else (total (view w))(sid := map_option (\<lambda>n. max 0 (n - a)) (total (view w) sid)))"
    unfolding v using assms(6) by (auto simp: total_lower_total [OF idleD(2) [OF assms(2)]])
  have "userop_lifecycle t = map (\<lambda>r. if ur_hash r = fi_user_op_hash req then settled_op now req status r else r)
      (userop_lifecycle s)"
    using k by (simp add: set_status_def)
  then have op: "find (\<lambda>r. ur_hash r = fi_user_op_hash req) (userop_lifecycle t) = Some (settled_op (clock (view w)) req status u)"
    by (simp only: op_of_settled [OF assms(4)] w1(2))
  have rows: "budget_reservations t = map (\<lambda>r. if rr_reservation_id r = ?rid
      then r\<lparr>rr_status := if status = ''USEROP_FINALIZED'' then ''BUDGET_COMMITTED'' else ''BUDGET_RELEASED''\<rparr> else r)
      (budget_reservations s)"
    using k assms(6) by (auto simp: set_status_def update_where_def)
  show ?thesis using k pend tot op rows by blast
qed

definition settle_db :: db where
  "settle_db = empty_db\<lparr>
     userop_lifecycle := [\<lparr>ur_hash = ''op'', ur_reservation_id = ''res_'', ur_session_id = '''',
       ur_status = ''USEROP_SUBMITTED'', ur_bundler = ''b'', ur_tx_hash = None, ur_block = None,
       ur_submitted_at = Some 0, ur_finalized_at = None, ur_last_checked_at = None\<rparr>],
     budget_reservations := [sample_reservation\<lparr>rr_reservation_id := ''res_''\<rparr>]\<rparr>"

lemma sample_after_pending:
  obtains e where "pending_of (index sample_after) ''res_'' = Some (''s'', 10, e)" "0 \<le> e" "e \<le> 600"
    "kv sample_after (reservation_meta_key ''res_'') \<noteq> None" "total sample_after ''s'' = Some 10"
proof -
  have z: "current_total sample_start ''s'' = 0"
    by (simp add: current_total_def total_def sample_start_def)
  obtain a n where a: "set_string ''10'' = Some a" "n = current_total (swept (clock sample_start) sample_start) ''s'' + a"
    "sample_after = reserved ''s'' ''idem:s:k'' ''10'' n (ttl_seconds (5 * minute)) (aggregate_ttl hour)
       (swept (clock sample_start) sample_start)"
    by (rule new_reservation [OF sample_start_idle _ sample_fresh sample_idem_key sample_live
        sample_reserved [unfolded sample_reserve_def]], simp, rule that, assumption+)
  have eq: "sample_after = reserved ''s'' ''idem:s:k'' ''10'' 10 (ttl_seconds (5 * minute)) (aggregate_ttl hour) sample_start"
    using a by (simp add: sample_swept z sample_amounts)
  have rid: "next_rid sample_start = ''res_''" by (simp add: next_rid_def sample_start_def)
  have none: "CHR ''|'' \<notin> set ''s''" by simp
  note eff = reserved_effect [OF sample_start_idle sample_fresh none sample_amounts(1) _ sample_idem_key,
      where n = 10 and ttl = "ttl_seconds (5 * minute)" and agg = "aggregate_ttl hour"]
  have ttl: "ttl_seconds (5 * minute) = 300" by (simp add: ttl_seconds_def minute_def second_def)
  show thesis
  proof (rule that)
    show "pending_of (index sample_after) ''res_'' = Some (''s'', 10, 300)"
      using eff(3) by (simp add: eq rid ttl unix_def second_def)
    show "total sample_after ''s'' = Some 10" using eff(1) by (simp add: eq)
    show "kv sample_after (reservation_meta_key ''res_'') \<noteq> None" by (simp add: eq reserved_kv rid)
  qed simp_all
qed

theorem finalized_settles_budget_witness:
  "snd (user_op_finalized plain_case (pg_repo sample_pg) view_redis
     (Some \<lparr>fi_user_op_hash = ''op'', fi_tx_hash = ''0x1'', fi_block_number = 7, fi_status = ''USEROP_REVERTED''\<rparr>)
     (settle_db, sample_after)) = final_answer ''USEROP_REVERTED''"
proof -
  let ?req = "\<lparr>fi_user_op_hash = ''op'', fi_tx_hash = ''0x1'', fi_block_number = 7, fi_status = ''USEROP_REVERTED''\<rparr>"
  obtain t v resp where r: "user_op_finalized plain_case (pg_repo sample_pg) view_redis (Some ?req) (settle_db, sample_after) =
      ((t, v), resp)" by (metis prod.collapse)
  obtain e where e: "pending_of (index sample_after) ''res_'' = Some (''s'', 10, e)"
    "kv sample_after (reservation_meta_key ''res_'') \<noteq> None"
    by (rule sample_after_pending)
  obtain u where u: "find (\<lambda>r. ur_hash r = fi_user_op_hash ?req) (userop_lifecycle settle_db) = Some u"
    "ur_reservation_id u = ''res_''"
    by (simp add: settle_db_def)
  have f: "db_faults settle_db = []" by (simp add: settle_db_def empty_db_def)
  have up: "to_upper plain_case (trim_space (fi_status ?req)) = ''USEROP_REVERTED''"
  proof -
    have "trim_space ''USEROP_REVERTED'' = ''USEROP_REVERTED''"
      by (rule trim_space_ascii_id) (simp_all add: is_space_def)
    moreover have "to_upper plain_case ''USEROP_REVERTED'' = ''USEROP_REVERTED''" by code_simp
    ultimately show ?thesis by simp
  qed
  show ?thesis
    using finalized_settles_budget [OF view_server.redis_server_axioms sample_after_idle f u(1) up _ _ _ r] e u(2) r
    by simp
qed

section \<open>A submitted user operation\<close>

definition all_status :: "string \<Rightarrow> string \<Rightarrow> db \<Rightarrow> bool" where
  "all_status rid status s \<longleftrightarrow>
     (\<forall>row \<in> set (budget_reservations s). rr_reservation_id row = rid \<longrightarrow> rr_status row = status)"

lemma all_status_map:
  assumes "budget_reservations t = map g (budget_reservations s)"
    and "\<And>r. r \<in> set (budget_reservations s) \<Longrightarrow> rr_reservation_id (g r) = rid \<Longrightarrow> rr_status (g r) = status"
  shows "all_status rid status t"
  using assms(2) by (simp add: all_status_def assms(1))

lemma update_status_sets:
  assumes "update_reservation_status rid status s = (t, Inr ())"
  shows "all_status rid status t"
proof -
  have "t = set_status rid status (s\<lparr>db_faults := tl (db_faults s)\<rparr>)"
    using stmt_Inr [OF assms [unfolded update_reservation_status_def]] by simp
  then have "budget_reservations t = map (\<lambda>r. if rr_reservation_id r = rid then r\<lparr>rr_status := status\<rparr> else r)
      (budget_reservations s)"
    by (simp add: set_status_def update_where_def)
  then show ?thesis by (rule all_status_map) (simp split: if_splits)
qed

lemma bind_keeps_status:
  assumes "bind_reservation_execution_digest rid x s = (t, Inr ())" and "all_status rid status s"
  shows "all_status rid status t"
proof -
  let ?p = "\<lambda>r. rr_reservation_id r = rid \<and> active r"
  let ?f = "\<lambda>r. r\<lparr>rr_execution_digest := Some x\<rparr>"
  obtain s1 n where m: "stmt (\<lambda>s. let (rows, n) = update_where ?p ?f (budget_reservations s)
      in (s\<lparr>budget_reservations := rows\<rparr>, Inr n)) s = (s1, Inr n)"
    and b: "(if n = 0 then (s1, Inl (Err ''reservation not found'')) else (s1, Inr ())) = (t, Inr ())"
    using assms(1) unfolding bind_reservation_execution_digest_def by (rule bind_Inr)
  have "budget_reservations s1 = map (\<lambda>r. if ?p r then ?f r else r) (budget_reservations s)"
    using stmt_Inr [OF m] by (simp add: update_where_def) (metis (no_types, lifting) db.select_convs(4) db.surjective db.update_convs(4) db.update_convs(10))
  moreover have "t = s1" using b by (simp split: if_splits)
  ultimately have "budget_reservations t = map (\<lambda>r. if ?p r then ?f r else r) (budget_reservations s)" by simp
  then show ?thesis by (rule all_status_map) (use assms(2) in \<open>simp add: all_status_def split: if_splits\<close>)
qed

lemma save_op_keeps_rows:
  "save_user_op now h rid sid st b s = (t, Inr ()) \<Longrightarrow> budget_reservations t = budget_reservations s"
  unfolding save_user_op_def by (drule stmt_Inr) (auto split: if_splits)

lemma submitted_world:
  assumes "user_op_submitted RP R body (s, w) = ((t, w'), resp)"
  shows "w' \<in> {w, fst (now_of R w)}"
  using assms by (auto simp: user_op_submitted_def Let_def split: option.splits prod.splits sum.splits)

lemma submitted_marks:
  assumes "user_op_submitted (pg_repo P) R (Some req) (s, w) = ((t, w'), resp)" and "ok_response resp"
  shows "all_status (su_reservation_id req) ''USEROP_SUBMITTED'' t"
proof -
  obtain s1 r1 where u: "update_reservation_status (su_reservation_id req) ''USEROP_SUBMITTED'' s = (s1, r1)" by fastforce
  obtain s2 r2 where b: "(if su_execution_digest req \<noteq> ''''
      then rp_bind_reservation_execution_digest (pg_repo P) (su_reservation_id req) (su_execution_digest req) s1
      else (s1, Inr ())) = (s2, r2)" by fastforce
  have r1: "r1 = Inr ()" using assms u by (cases r1) (auto simp: user_op_submitted_def)
  have r2: "r2 = Inr ()" using assms u r1 b by (cases r2) (auto simp: user_op_submitted_def)
  obtain w1 now where n: "now_of R w = (w1, now)" by fastforce
  obtain s3 r3 where o: "save_user_op now (su_user_op_hash req) (su_reservation_id req) '''' ''USEROP_SUBMITTED''
      (su_bundler req) s2 = (s3, r3)" by fastforce
  have "r3 = Inr () \<and> t = s3"
    using assms u r1 b r2 n o by (cases r3) (auto simp: user_op_submitted_def)
  moreover have "all_status (su_reservation_id req) ''USEROP_SUBMITTED'' s2"
    using update_status_sets [OF u [unfolded r1]] b r2 bind_keeps_status by (auto split: if_splits)
  ultimately show ?thesis using save_op_keeps_rows o by (auto simp: all_status_def)
qed

lemma due_amount_ge:
  assumes "idle s" and "pending_of (index s) rid = Some (sid, a, e)" and "0 \<le> e" and "e \<le> unix now"
  shows "a \<le> due_amount now s sid"
proof -
  have wf: "wf_index (index s)" by (rule idleD(3) [OF assms(1)])
  obtain p where p: "p \<in> set (index s)" "entry p = (rid, sid, a, e)"
    using assms(2) pending_of_Some_iff [OF wf] by blast
  have m: "fst p \<in> set (due now s)" "sid_of (fst p) = sid" "amount_of (fst p) = a"
    using p assms(3,4) by (auto simp: due_def entry_def)
  have "\<forall>m \<in> set (due now s). 0 \<le> amount_of m"
    using wf due_members [of now s] by (fastforce simp: wf_index_def dest: good_memberD(3))
  then have "(if sid_of (fst p) = sid then amount_of (fst p) else 0) \<le> due_amount now s sid"
    unfolding due_amount_def using m(1) by (intro member_le_sum_list) auto
  then show ?thesis using m by simp
qed

text \<open>
  C36: a submitted operation does not hold its budget: \<open>userOpSubmitted\<close> marks the row but
  leaves Redis alone, so the first sweep after the deadline of the reservation removes it and
  lowers the session's aggregate, although the operation may still execute on chain.
\<close>

theorem submitted_budget_is_swept:
  assumes "redis_server R view" and "idle (view w)"
    and "user_op_submitted (pg_repo P) R (Some req) (s, w) = ((t, w'), resp)" and "ok_response resp"
    and "view w2 = pass d (view w')" and "run R (sweep_expired now) w2 = (w3, r)"
    and "pending_of (index (view w)) (su_reservation_id req) = Some (sid, a, e)" and "0 \<le> e" and "e \<le> unix now"
  shows "(\<forall>row \<in> set (budget_reservations t). rr_reservation_id row = su_reservation_id req \<longrightarrow>
       rr_status row = ''USEROP_SUBMITTED'') \<and>
    pending_of (index (view w3)) (su_reservation_id req) = None \<and>
    a \<le> due_amount now (view w) sid \<and>
    total (view w3) sid = map_option (\<lambda>n. max 0 (n - due_amount now (view w) sid)) (total (pass d (view w)) sid)"
proof -
  have w': "view w' = view w"
    using submitted_world [OF assms(3)] view_now(1) [OF assms(1), of w] by auto
  have idle: "idle (view w2)" using idle_pass [OF assms(2)] assms(5) w' by simp
  have w3: "view w3 = swept now (view w2)"
    using redis_server.run_viewD [OF assms(1,6)] run_sweep_expired [OF idle] by simp
  have ix: "index (view w2) = index (view w)" using assms(5) w' by simp
  have same: "due_amount now (view w2) x = due_amount now (view w) x" for x by (simp add: due_amount_def due_def ix)
  have wf: "wf_index (index (view w))" by (rule idleD(3) [OF assms(2)])
  have "p \<notin> set (index (view w3))" if "rid_of (fst p) = su_reservation_id req" for p
  proof
    assume "p \<in> set (index (view w3))"
    then have p: "p \<in> set (index (view w))" "\<not> (0 \<le> snd p \<and> snd p \<le> unix now)"
      by (simp_all add: w3 set_index_swept [OF idle] ix)
    have "pending_of (index (view w)) (su_reservation_id req) = Some (sid_of (fst p), amount_of (fst p), snd p)"
      using p(1) that by (auto simp: pending_of_Some_iff [OF wf] entry_def)
    then show False using assms(7-9) p(2) by simp
  qed
  then have "pending_of (index (view w3)) (su_reservation_id req) = None"
    by (auto simp: pending_of_None_iff)
  moreover have "total (view w3) sid = map_option (\<lambda>n. max 0 (n - due_amount now (view w) sid)) (total (pass d (view w)) sid)"
    unfolding w3 total_swept [OF idle] same using w' assms(5) by simp
  moreover have "a \<le> due_amount now (view w) sid" by (rule due_amount_ge [OF assms(2,7-9)])
  ultimately show ?thesis
    using submitted_marks [OF assms(3,4)] by (simp add: all_status_def)
qed

theorem submitted_budget_is_swept_witness:
  "\<exists>t :: db. (\<forall>row \<in> set (budget_reservations t). rr_reservation_id row = ''res_'' \<longrightarrow> rr_status row = ''USEROP_SUBMITTED'') \<and>
     pending_of (index (fst (run view_redis (sweep_expired (600 * second)) (pass (600 * second) sample_after)))) ''res_'' = None"
proof -
  let ?req = "\<lparr>su_reservation_id = ''res_'', su_user_op_hash = ''op'', su_bundler = ''b'', su_execution_digest = []\<rparr>"
  obtain t v resp where r: "user_op_submitted (pg_repo sample_pg) view_redis (Some ?req) (settle_db, sample_after) = ((t, v), resp)"
    by (metis prod.collapse)
  have f: "db_faults settle_db = []" by (simp add: settle_db_def empty_db_def)
  have "ok_response resp \<and> v = sample_after"
    using r by (simp add: user_op_submitted_def update_healthy [OF f] save_user_op_def stmt_healthy set_status_def f
        v_now_def split: if_splits) auto
  then have ok: "ok_response resp" and v: "pass (600 * second) sample_after = pass (600 * second) v" by simp_all
  obtain e where e: "pending_of (index sample_after) (su_reservation_id ?req) = Some (''s'', 10, e)" "0 \<le> e" "e \<le> 600"
    by (rule sample_after_pending) simp
  have late: "e \<le> unix (600 * second)" using e(3) by (simp add: unix_def second_def)
  have "\<exists>t :: db. (\<forall>row \<in> set (budget_reservations t). rr_reservation_id row = ''res_'' \<longrightarrow> rr_status row = ''USEROP_SUBMITTED'') \<and>
     pending_of (index x) ''res_'' = None"
    if "run view_redis (sweep_expired (600 * second)) (pass (600 * second) sample_after) = (x, q)" for x q
    using submitted_budget_is_swept [OF view_server.redis_server_axioms sample_after_idle r ok v that e(1,2) late] by (intro exI [of _ t]) simp
  then show ?thesis by (metis prod.collapse)
qed

section \<open>A reservation that cannot be stored\<close>

lemma persist_failed:
  assumes "reserve_budget uc RP R (Some req) (s, w) = ((t, w'), Http_Error 500 ''failed to persist reservation'')"
  obtains s1 snap w1 now w2 now' w3 rid where
    "rp_get_session_reserve_snapshot RP (rr_session req) s = (s1, Inr snap)"
    "now_of R w = (w1, now)" "check_reserve uc req snap now = Inr ()" "now_of R w1 = (w2, now')"
    "run R (reserve (rr_session req) (rr_idempotency req) (rr_amount_atomic req)
      (rs_max_total_spend snap) (5 * minute) (session_ttl snap now')) w2 = (w3, Inr rid)"
    "w' = fst (run R (release_reservation rid) w3)"
proof -
  obtain s1 r where r: "rp_get_session_reserve_snapshot RP (rr_session req) s = (s1, r)" by fastforce
  obtain snap where snap: "r = Inr snap" using assms r by (cases r) (auto simp: reserve_budget_def)
  obtain w1 now where now: "now_of R w = (w1, now)" by fastforce
  obtain w2 now' where now': "now_of R w1 = (w2, now')" by fastforce
  have answers: "x \<noteq> Http_Error 500 m" if "check_reserve uc req snap now = Inl x" for x m
    using that by (auto simp: check_reserve_def denied_def split: if_splits option.splits)
  have check: "check_reserve uc req snap now = Inr ()"
    using assms r snap now answers by (cases "check_reserve uc req snap now") (auto simp: reserve_budget_def)
  obtain w3 q where q: "run R (reserve (rr_session req) (rr_idempotency req) (rr_amount_atomic req)
      (rs_max_total_spend snap) (5 * minute) (session_ttl snap now')) w2 = (w3, q)" by fastforce
  obtain rid where rid: "q = Inr rid"
    using assms r snap now now' check q by (cases q) (auto simp: reserve_budget_def denied_def)
  have "persist_reservation RP R req rid (s1, w3) = ((t, w'), Http_Error 500 ''failed to persist reservation'')"
    using assms r snap now now' check q rid by (simp add: reserve_budget_def)
  then have "w' = fst (run R (release_reservation rid) w3)"
    by (auto simp: persist_reservation_def reserved_response_def split: prod.splits sum.splits if_splits)
  then show thesis using that r snap now check now' q rid by blast
qed


definition taken_db :: db where
  "taken_db = reserve_db\<lparr>budget_reservations := [sample_reservation\<lparr>rr_idempotency_key := ''k2''\<rparr>]\<rparr>"

lemma taken_fails:
  "\<exists>t v. reserve_budget plain_case (pg_repo sample_pg) view_redis (Some (sample_req ''s'')) (taken_db, sample_start) =
     ((t, v), Http_Error 500 ''failed to persist reservation'')"
proof -
  have f: "db_faults taken_db = []" by (simp add: taken_db_def reserve_db_faults)
  have snap: "get_session_reserve_snapshot sample_pg ''s'' taken_db = (taken_db, Inr stored_snapshot)"
  proof -
    have "reserve_snapshot sample_pg ''s'' reserve_db = Some stored_snapshot"
      using sample_snapshot
      by (simp add: get_session_reserve_snapshot_def or_error_def query_row_healthy reserve_db_faults split: option.splits)
    moreover have "reserve_snapshot sample_pg ''s'' taken_db = reserve_snapshot sample_pg ''s'' reserve_db"
      by (simp add: reserve_snapshot_def taken_db_def)
    ultimately show ?thesis
      by (simp add: get_session_reserve_snapshot_def or_error_def query_row_healthy f)
  qed
  have check: "check_reserve plain_case (sample_req ''s'') stored_snapshot (clock sample_start) = Inr ()"
    by (rule sample_check) (simp_all add: unix_def)
  have rows: "budget_reservations taken_db = [sample_reservation\<lparr>rr_idempotency_key := ''k2''\<rparr>]"
    by (simp add: taken_db_def)
  have save: "save_reservation sample_pg rid ''s'' '''' ''a'' ''25'' ''BUDGET_RESERVED'' ''k2'' taken_db = (taken_db, Inl sql_error)" for rid
    by (simp add: save_reservation_def stmt_healthy f rows sample_numeric)
  have look: "get_reservation_id_by_idempotency ''k2'' taken_db = (taken_db, Inr ''r'')"
    by (simp add: get_reservation_id_by_idempotency_def or_error_def query_row_healthy f rows) (simp add: sample_reservation_def)
  have tot: "current_total (swept (clock sample_start) sample_start) ''s'' + 25 \<le> 25"
    using no_total_swept [OF sample_start_idle] by (simp add: sample_start_def)
  obtain v' where g: "run view_redis (reserve ''s'' ''k2'' ''25'' ''25'' (5 * minute) (session_ttl stored_snapshot 0)) sample_start
      = (v', Inr (next_rid sample_start))"
    using redis_grants [OF sample_start_idle sample_idem_keys(2) sample_live sample_amounts(2) _ sample_amounts(2) tot] by auto
  have ne: "''r'' \<noteq> next_rid sample_start" by (simp add: next_rid_def)
  show ?thesis
    using check snap save look g ne
    by (simp add: reserve_budget_def persist_reservation_def v_now_def sample_req_simps stored_snapshot_simps)
qed


end
