(* ===== verification/Requests_Props.thy ===== *)
theory Requests_Props
  imports Requests Settlement
begin

text \<open>
  What requests are admitted as they come in over the wire.
\<close>

section \<open>Submissions\<close>

definition is_submitted :: "string \<Rightarrow> string \<Rightarrow> db \<Rightarrow> bool" where
  "is_submitted reservationID userOpHash s \<longleftrightarrow>
     (\<forall>r \<in> set (budget_reservations s). rr_reservation_id r = reservationID \<longrightarrow> rr_status r = ''USEROP_SUBMITTED'') \<and>
     (\<exists>r \<in> set (userop_lifecycle s). ur_hash r = userOpHash) \<and>
     (\<forall>r \<in> set (userop_lifecycle s). ur_hash r = userOpHash \<longrightarrow> ur_status r = ''USEROP_SUBMITTED'')"

lemma saved_op_submitted:
  assumes "db_faults s = []"
  obtains t where "save_user_op now u i sid ''USEROP_SUBMITTED'' b s = (t, Inr ())"
    "budget_reservations t = budget_reservations s"
    "\<exists>r \<in> set (userop_lifecycle t). ur_hash r = u"
    "\<forall>r \<in> set (userop_lifecycle t). ur_hash r = u \<longrightarrow> ur_status r = ''USEROP_SUBMITTED''"
proof (cases "\<exists>r \<in> set (userop_lifecycle s). ur_hash r = u")
  case True
  let ?f = "\<lambda>r. if ur_hash r = u
    then r\<lparr>ur_status := ''USEROP_SUBMITTED'', ur_bundler := b, ur_submitted_at := Some now\<rparr> else r"
  let ?t = "s\<lparr>userop_lifecycle := map ?f (userop_lifecycle s)\<rparr>"
  show thesis
  proof (rule that)
    show "save_user_op now u i sid ''USEROP_SUBMITTED'' b s = (?t, Inr ())"
      using True assms by (simp add: save_user_op_def stmt_healthy)
    have rows: "set (userop_lifecycle ?t) = ?f ` set (userop_lifecycle s)" by simp
    obtain r where r: "r \<in> set (userop_lifecycle s)" "ur_hash (?f r) = u" using True by auto
    show "\<exists>r \<in> set (userop_lifecycle ?t). ur_hash r = u"
      unfolding rows using r(2) by (intro bexI [of _ "?f r"] imageI r(1))
    have "ur_hash (?f r) = u \<longrightarrow> ur_status (?f r) = ''USEROP_SUBMITTED''" for r by simp
    then show "\<forall>r \<in> set (userop_lifecycle ?t). ur_hash r = u \<longrightarrow> ur_status r = ''USEROP_SUBMITTED''"
      unfolding rows by (intro ballI) (erule imageE, simp only:)
  qed simp
next
  case False
  then have "save_user_op now u i sid ''USEROP_SUBMITTED'' b s = (s\<lparr>userop_lifecycle := userop_lifecycle s @
      [\<lparr>ur_hash = u, ur_reservation_id = i, ur_session_id = sid, ur_status = ''USEROP_SUBMITTED'', ur_bundler = b,
        ur_tx_hash = None, ur_block = None, ur_submitted_at = Some now, ur_finalized_at = None,
        ur_last_checked_at = None\<rparr>]\<rparr>, Inr ())"
    using assms by (simp add: save_user_op_def stmt_healthy)
  then show thesis by (rule that) (use False in auto)
qed


text \<open>A payment that is settled, and the report that it was submitted, once more.\<close>

definition settled_db :: db where
  "settled_db = empty_db\<lparr>
     userop_lifecycle := [\<lparr>ur_hash = ''op'', ur_reservation_id = ''res_'', ur_session_id = '''',
       ur_status = ''USEROP_FINALIZED'', ur_bundler = ''b'', ur_tx_hash = Some ''0x1'', ur_block = Some 7,
       ur_submitted_at = Some 0, ur_finalized_at = Some 1, ur_last_checked_at = None\<rparr>],
     budget_reservations := [sample_reservation\<lparr>rr_reservation_id := ''res_'', rr_status := ''BUDGET_COMMITTED''\<rparr>]\<rparr>"


end
