(* ===== verification/Interleaving.thy ===== *)
theory Interleaving
  imports Server_Log
begin

text \<open>
  Requests that overlap. \<open>net/http\<close> runs every request in a goroutine of its own and the
  watcher runs in another, so between two calls one of them makes on the store any calls of
  the others can happen. Handlers and watcher are written against \<open>store.Repository\<close>, so this
  needs no second model of them: \<open>interleaved\<close> turns a repository into one that others use,
  and the same definitions run on it.
\<close>

section \<open>A repository in use\<close>

text \<open>
  The store and what the others will do to it before each of the next calls. A call is one
  step: a statement or a transaction of its own.
\<close>

type_synonym 's shared = "'s \<times> ('s \<Rightarrow> 's) list"

definition interrupted :: "('s \<Rightarrow> 's \<times> 'r) \<Rightarrow> 's shared \<Rightarrow> 's shared \<times> 'r" where
  "interrupted f st =
    (let s = (case snd st of [] \<Rightarrow> fst st | g # _ \<Rightarrow> g (fst st)); (t, r) = f s in ((t, tl (snd st)), r))"

definition interleaved :: "'s repo \<Rightarrow> 's shared repo" where
  "interleaved RP =
    \<lparr>rp_save_intent = (\<lambda>h ag ac ch tok rec am mp mt ab dm pa idem.
       interrupted (rp_save_intent RP h ag ac ch tok rec am mp mt ab dm pa idem)),
     rp_save_decision = (\<lambda>d h dec rc ph. interrupted (rp_save_decision RP d h dec rc ph)),
     rp_save_session_draft = (\<lambda>sid ag cfg st. interrupted (rp_save_session_draft RP sid ag cfg st)),
     rp_save_reservation = (\<lambda>r sid h ag am st idem. interrupted (rp_save_reservation RP r sid h ag am st idem)),
     rp_update_reservation_status = (\<lambda>r st. interrupted (rp_update_reservation_status RP r st)),
     rp_save_user_op = (\<lambda>now u r sid st b. interrupted (rp_save_user_op RP now u r sid st b)),
     rp_finalize_user_op = (\<lambda>now u tx bn st. interrupted (rp_finalize_user_op RP now u tx bn st)),
     rp_save_receipt = (\<lambda>d h sid rh pl sg k. interrupted (rp_save_receipt RP d h sid rh pl sg k)),
     rp_get_receipt = (\<lambda>d. interrupted (rp_get_receipt RP d)),
     rp_get_allow_decision = (\<lambda>d. interrupted (rp_get_allow_decision RP d)),
     rp_authorize_session = (\<lambda>d sid ag cfg. interrupted (rp_authorize_session RP d sid ag cfg)),
     rp_get_reservation_id_by_user_op = (\<lambda>u. interrupted (rp_get_reservation_id_by_user_op RP u)),
     rp_get_reservation_id_by_idempotency = (\<lambda>k. interrupted (rp_get_reservation_id_by_idempotency RP k)),
     rp_bind_reservation_execution_digest = (\<lambda>r dg. interrupted (rp_bind_reservation_execution_digest RP r dg)),
     rp_get_watcher_block_cursor = interrupted (rp_get_watcher_block_cursor RP),
     rp_set_watcher_block_cursor = (\<lambda>b h. interrupted (rp_set_watcher_block_cursor RP b h)),
     rp_record_chain_execution = (\<lambda>now e. interrupted (rp_record_chain_execution RP now e)),
     rp_get_chain_execution_by_session_id = (\<lambda>sid. interrupted (rp_get_chain_execution_by_session_id RP sid)),
     rp_get_session_reserve_snapshot = (\<lambda>sid. interrupted (rp_get_session_reserve_snapshot RP sid)),
     rp_mark_stale_user_ops = (\<lambda>now t. interrupted (rp_mark_stale_user_ops RP now t)),
     rp_commit_budget_on_chain_execution = (\<lambda>now sid dg. interrupted (rp_commit_budget_on_chain_execution RP now sid dg))\<rparr>"

text \<open>The others use the repository by its operations only.\<close>

definition others_use :: "'s repo \<Rightarrow> ('s \<Rightarrow> 's) list \<Rightarrow> bool" where
  "others_use RP env \<longleftrightarrow> (\<forall>g \<in> set env. \<forall>s. repo_run RP s (g s))"

lemma others_use_simps [simp]:
  "others_use RP []" "others_use RP (g # env) \<longleftrightarrow> (\<forall>s. repo_run RP s (g s)) \<and> others_use RP env"
  by (auto simp: others_use_def)

lemma others_use_tl: "others_use RP env \<Longrightarrow> others_use RP (tl env)"
  by (cases env) simp_all

lemma interruptedE:
  assumes "interrupted f (s, env) = (t, r)" and "others_use RP env"
  obtains s' where "repo_run RP s s'" "f s' = (fst t, r)" "snd t = tl env"
proof
  let ?s = "case env of [] \<Rightarrow> s | g # _ \<Rightarrow> g s"
  show "repo_run RP s ?s" using assms(2) by (cases env) (auto intro: rr_refl)
  show "f ?s = (fst t, r)" "snd t = tl env"
    using assms(1) by (auto simp: interrupted_def Let_def split: prod.splits list.splits)
qed

lemma interleaved_simps [simp]:
  "rp_save_intent (interleaved RP) h ag ac ch tok rec am mp mt ab dm pa idem = interrupted (rp_save_intent RP h ag ac ch tok rec am mp mt ab dm pa idem)"
  "rp_save_decision (interleaved RP) d h dec rc ph = interrupted (rp_save_decision RP d h dec rc ph)"
  "rp_save_session_draft (interleaved RP) sid ag cfg st = interrupted (rp_save_session_draft RP sid ag cfg st)"
  "rp_save_reservation (interleaved RP) r sid h ag am st idem = interrupted (rp_save_reservation RP r sid h ag am st idem)"
  "rp_update_reservation_status (interleaved RP) r st = interrupted (rp_update_reservation_status RP r st)"
  "rp_save_user_op (interleaved RP) now u r sid st b = interrupted (rp_save_user_op RP now u r sid st b)"
  "rp_finalize_user_op (interleaved RP) now u tx bn st = interrupted (rp_finalize_user_op RP now u tx bn st)"
  "rp_save_receipt (interleaved RP) d h sid rh pl sg k = interrupted (rp_save_receipt RP d h sid rh pl sg k)"
  "rp_get_receipt (interleaved RP) d = interrupted (rp_get_receipt RP d)"
  "rp_get_allow_decision (interleaved RP) d = interrupted (rp_get_allow_decision RP d)"
  "rp_authorize_session (interleaved RP) d sid ag cfg = interrupted (rp_authorize_session RP d sid ag cfg)"
  "rp_get_reservation_id_by_user_op (interleaved RP) u = interrupted (rp_get_reservation_id_by_user_op RP u)"
  "rp_get_reservation_id_by_idempotency (interleaved RP) k = interrupted (rp_get_reservation_id_by_idempotency RP k)"
  "rp_bind_reservation_execution_digest (interleaved RP) r dg = interrupted (rp_bind_reservation_execution_digest RP r dg)"
  "rp_get_watcher_block_cursor (interleaved RP) = interrupted (rp_get_watcher_block_cursor RP)"
  "rp_set_watcher_block_cursor (interleaved RP) blk h = interrupted (rp_set_watcher_block_cursor RP blk h)"
  "rp_record_chain_execution (interleaved RP) now e = interrupted (rp_record_chain_execution RP now e)"
  "rp_get_chain_execution_by_session_id (interleaved RP) sid = interrupted (rp_get_chain_execution_by_session_id RP sid)"
  "rp_get_session_reserve_snapshot (interleaved RP) sid = interrupted (rp_get_session_reserve_snapshot RP sid)"
  "rp_mark_stale_user_ops (interleaved RP) now t = interrupted (rp_mark_stale_user_ops RP now t)"
  "rp_commit_budget_on_chain_execution (interleaved RP) now sid dg = interrupted (rp_commit_budget_on_chain_execution RP now sid dg)"
  by (simp_all add: interleaved_def)

lemma others_use_mono:
  "others_use Q env \<Longrightarrow> (\<And>s t. repo_run Q s t \<Longrightarrow> repo_run RP s t) \<Longrightarrow> others_use RP env"
  by (auto simp: others_use_def)

lemma interrupted_step:
  assumes "others_use RP (snd st)" and "\<And>s. repo_step RP s (fst (f s))"
  shows "repo_run RP (fst st) (fst (fst (interrupted f st))) \<and> snd (fst (interrupted f st)) = tl (snd st)"
proof -
  obtain s env where st: "st = (s, env)" by (cases st)
  obtain t r where t: "interrupted f (s, env) = (t, r)" by fastforce
  obtain s' where s': "repo_run RP s s'" "f s' = (fst t, r)" "snd t = tl env"
    using interruptedE [OF t assms(1) [unfolded st snd_conv]] by metis
  then have "repo_run RP s (fst t)" using rr_step [OF s'(1) assms(2) [of s']] by simp
  then show ?thesis using s'(3) t by (simp add: st)
qed

lemma interleaved_step:
  assumes "repo_step (interleaved RP) st st'" and "others_use RP (snd st)"
  shows "repo_run RP (fst st) (fst st') \<and> snd st' = tl (snd st)"
  using assms(1)
  by cases (simp_all add: interrupted_step [OF assms(2)] repo_step.intros)

text \<open>So whatever runs on it is a run of the store, of its own calls and those of the others.\<close>

lemma interleaved_run:
  "repo_run (interleaved RP) st st' \<Longrightarrow> others_use RP (snd st) \<Longrightarrow>
     repo_run RP (fst st) (fst st') \<and> others_use RP (snd st')"
proof (induction rule: repo_run.induct)
  case (rr_step t u)
  then have t: "repo_run RP (fst st) (fst t)" "others_use RP (snd t)" by simp_all
  show ?case
    using interleaved_step [OF rr_step.hyps(2) t(2)] repo_run_trans [OF _ t(1)] others_use_tl [OF t(2)] by simp
qed (simp add: rr_refl)

section \<open>The contract holds in use\<close>

text \<open>
  \<open>Q\<close> bounds what the others may do: anything the repository offers, or less.
\<close>

context repository
begin

lemma interrupted_ok:
  assumes "interrupted f st = (st', r)" and "ok (fst st)" and "others_use RP (snd st)"
  obtains s' where "ok s'" "repo_run RP (fst st) s'" "f s' = (fst st', r)"
proof -
  have "interrupted f (fst st, snd st) = (st', r)" using assms(1) by simp
  then obtain s' where s': "repo_run RP (fst st) s'" "f s' = (fst st', r)" using assms(3) by (rule interruptedE)
  show thesis by (rule that [OF run_ok [OF s'(1) assms(2)] s'])
qed

lemma interleaved_repository:
  assumes Q: "\<And>s t. repo_run Q s t \<Longrightarrow> repo_run RP s t"
  shows "repository (interleaved RP) (\<lambda>st. ok (fst st) \<and> others_use Q (snd st))
     (\<lambda>st. consumer (fst st)) (\<lambda>st. allowed (fst st))"
proof unfold_locales
  fix st st' d sid ag cfg d' q
  assume st: "ok (fst st) \<and> others_use Q (snd st)"
  then have use: "others_use RP (snd st)" using others_use_mono Q by blast
  show "ok (fst st') \<and> others_use Q (snd st')" if "repo_step (interleaved RP) st st'"
    using interleaved_step [OF that use] st run_ok others_use_tl [of Q] by auto
  show "consumer (fst st') d = Some sid"
    if "repo_step (interleaved RP) st st'" "consumer (fst st) d = Some sid"
    using interleaved_step [OF that(1) use] st that(2) run_consumer by blast
  show "allowed (fst st') d = Some q"
    if "repo_step (interleaved RP) st st'" "allowed (fst st) d = Some q"
    using interleaved_step [OF that(1) use] st that(2) run_allowed by blast
  show "consumer (fst st') d = Some sid"
    if "rp_authorize_session (interleaved RP) d sid ag cfg st = (st', Inr ())"
    using that st use unfolding interleaved_simps by (metis interrupted_ok authorize_law)
  show "allowed (fst st') d = Some q"
    if "rp_get_allow_decision (interleaved RP) d st = (st', Inr q)"
    using that st use unfolding interleaved_simps by (metis interrupted_ok get_allow_law)
  show "consumer (fst st) d = Some sid \<Longrightarrow> consumer (fst st) d' = Some sid \<Longrightarrow> d = d'"
    using one_decision_law st by blast
qed

end

interpretation pgs: repository "interleaved (pg_repo P)" "\<lambda>st. db_ok (fst st) \<and> others_use (pg_repo P) (snd st)"
    "\<lambda>st. db_consumer (fst st)" "\<lambda>st. db_allowed (fst st)" for P
  by (rule pg.interleaved_repository) simp

section \<open>The watcher in use\<close>

text \<open>
  Beside the watcher the others may do everything but set its cursor, which no handler does.
\<close>

lemma frozen_fields:
  "rp_save_intent (frozen RP) = rp_save_intent RP"
  "rp_save_decision (frozen RP) = rp_save_decision RP"
  "rp_save_session_draft (frozen RP) = rp_save_session_draft RP"
  "rp_save_reservation (frozen RP) = rp_save_reservation RP"
  "rp_update_reservation_status (frozen RP) = rp_update_reservation_status RP"
  "rp_save_user_op (frozen RP) = rp_save_user_op RP"
  "rp_finalize_user_op (frozen RP) = rp_finalize_user_op RP"
  "rp_save_receipt (frozen RP) = rp_save_receipt RP"
  "rp_get_receipt (frozen RP) = rp_get_receipt RP"
  "rp_get_allow_decision (frozen RP) = rp_get_allow_decision RP"
  "rp_authorize_session (frozen RP) = rp_authorize_session RP"
  "rp_get_reservation_id_by_user_op (frozen RP) = rp_get_reservation_id_by_user_op RP"
  "rp_get_reservation_id_by_idempotency (frozen RP) = rp_get_reservation_id_by_idempotency RP"
  "rp_bind_reservation_execution_digest (frozen RP) = rp_bind_reservation_execution_digest RP"
  "rp_get_watcher_block_cursor (frozen RP) = rp_get_watcher_block_cursor RP"
  "rp_record_chain_execution (frozen RP) = rp_record_chain_execution RP"
  "rp_get_chain_execution_by_session_id (frozen RP) = rp_get_chain_execution_by_session_id RP"
  "rp_get_session_reserve_snapshot (frozen RP) = rp_get_session_reserve_snapshot RP"
  "rp_mark_stale_user_ops (frozen RP) = rp_mark_stale_user_ops RP"
  "rp_commit_budget_on_chain_execution (frozen RP) = rp_commit_budget_on_chain_execution RP"
  by (simp_all add: frozen_def)

lemma router_frozen: "router uc E (frozen RP) = router uc E RP"
  unfolding router_def evaluate_intent_def store_receipt_def register_session_def
    reserve_budget_def persist_reservation_def user_op_submitted_def user_op_finalized_def settle_def
    get_receipt_handler_def get_chain_execution_handler_def frozen_fields ..

lemma request_frozen: "repo_run (frozen RP) s (fst (fst (router uc E RP R V hdr q (s, w))))"
  using router_run [of "frozen RP" s uc E R V hdr q w] by (simp add: router_frozen)

lemmas frozen_steps = repo_step.intros [where RP = "frozen RP" for RP, unfolded frozen_fields]

lemma frozen_interleaved_step:
  assumes "repo_step (frozen (interleaved RP)) st st'" and "others_use (frozen RP) (snd st)"
  shows "repo_run (frozen RP) (fst st) (fst st')"
proof -
  have set: "fst (rp_set_watcher_block_cursor (frozen (interleaved RP)) b h st) = st" for b h
    by (simp add: frozen_def)
  show ?thesis
    using assms(1)
    by cases (simp_all add: frozen_fields set rr_refl interrupted_step [OF assms(2)] frozen_steps)
qed

context chain_log
begin

lemma interleaved_chain_log:
  "chain_log (interleaved RP) (\<lambda>st. ok (fst st) \<and> others_use (frozen RP) (snd st))
     (\<lambda>st. consumer (fst st)) (\<lambda>st. allowed (fst st)) (\<lambda>st. recorded (fst st)) (\<lambda>st. cursor (fst st))"
proof (intro chain_log.intro chain_log_axioms.intro interleaved_repository)
  fix st st' k now e b h c
  show "repo_run (frozen RP) s t \<Longrightarrow> repo_run RP s t" for s t by (rule frozen_run)
  assume st: "ok (fst st) \<and> others_use (frozen RP) (snd st)"
  then have use: "others_use RP (snd st)" using others_use_mono frozen_run by blast
  show "cursor (fst st') = cursor (fst st)" if "repo_step (frozen (interleaved RP)) st st'"
    using frozen_interleaved_step [OF that] st quiet_run by blast
  show "recorded (fst st') k" if "repo_step (interleaved RP) st st'" "recorded (fst st) k"
    using interleaved_step [OF that(1) use] st that(2) run_recorded by blast
  show "recorded (fst st') (ce_tx_hash e, ce_log_index e)"
    if "rp_record_chain_execution (interleaved RP) now e st = (st', Inr ())"
    using that st use unfolding interleaved_simps by (metis interrupted_ok record_law)
  have quiet: "\<exists>s'. ok s' \<and> cursor s' = cursor (fst st) \<and> f s' = (fst t, r)" if f: "interrupted f st = (t, r)" for f t r
  proof -
    have "interrupted f (fst st, snd st) = (t, r)" using f by simp
    then obtain s' where s': "repo_run (frozen RP) (fst st) s'" "f s' = (fst t, r)"
      using conjunct2 [OF st] by (rule interruptedE)
    then show ?thesis using run_ok [OF frozen_run [OF s'(1)]] quiet_run [OF s'(1)] st by blast
  qed
  show "cursor (fst st) = Some c" if "rp_get_watcher_block_cursor (interleaved RP) st = (st', Inr c)"
    using quiet [of "rp_get_watcher_block_cursor RP" st' "Inr c"] that get_law by auto
  show "cursor (fst (fst (rp_set_watcher_block_cursor (interleaved RP) b h st))) \<in> {cursor (fst st), Some b}"
  proof -
    obtain t r where t: "interrupted (rp_set_watcher_block_cursor RP b h) st = (t, r)" by fastforce
    then obtain s' where "ok s'" "cursor s' = cursor (fst st)" "rp_set_watcher_block_cursor RP b h s' = (fst t, r)"
      using quiet [OF t] by blast
    then show ?thesis using set_cursor [of s' b h] t by simp
  qed
  show "cursor (fst st') = Some b" if "rp_set_watcher_block_cursor (interleaved RP) b h st = (st', Inr ())"
    using that st use unfolding interleaved_simps by (metis interrupted_ok set_law)
qed

end

interpretation pgws: chain_log "interleaved (pg_repo P)"
    "\<lambda>st. db_ok (fst st) \<and> others_use (frozen (pg_repo P)) (snd st)"
    "\<lambda>st. db_consumer (fst st)" "\<lambda>st. db_allowed (fst st)" "\<lambda>st. db_recorded (fst st)" "\<lambda>st. db_cursor (fst st)" for P
  by (rule pgw.interleaved_chain_log)

end
