(* ===== verification/Watcher_Props.thy ===== *)
theory Watcher_Props
  imports Watcher_Log Store_Props
begin

text \<open>
  The properties of the watcher: its block window never wraps, a poll returns, nothing at or
  below the cursor is missed however polls fail, and what keeps it from going on.
\<close>

section \<open>A sample chain\<close>

definition sample_log :: log where
  "sample_log =
    \<lparr>lg_topics = [replicate 32 (CHR ''0''), replicate 32 (CHR ''1''), replicate 32 (CHR ''2''), replicate 32 (CHR 0x00)],
     lg_data = replicate 96 (CHR 0x00), lg_block = 1, lg_tx_hash = replicate 32 (CHR ''t''), lg_index = 0\<rparr>"

definition sample_chain :: chain where
  "sample_chain =
    \<lparr>ch_block_number = Inr 2,
     ch_filter_logs = (\<lambda>from to _ _. Inr (filter (\<lambda>lg. from \<le> lg_block lg \<and> lg_block lg \<le> to) [sample_log])),
     ch_header_hash = (\<lambda>_. Inr ''h'')\<rparr>"

definition sample_config :: config where
  "sample_config = (load plain_case (\<lambda>_. ''''))\<lparr>hook_address := ''0xhook'', rpc_url := ''http://rpc'',
     watcher_confirmation := 1, watcher_start_block := 0, watcher_rescan_blocks := 12, userop_stale_seconds := 300\<rparr>"

lemma sample_serves: "serves [sample_log] sample_chain"
  by (simp add: serves_def sample_chain_def)

text \<open>
  The window of a poll: the safe head is the head less the confirmations, without
  wrap-around, and the window ends there and starts \<open>rescan\<close> blocks back, though never past
  the block after the last one and never before block 1.
\<close>

theorem poll_window:
  assumes "compute_safe_head head confirm = (safeHead, True)" and "lastBlock < safeHead"
  shows "unat safeHead + unat confirm = unat head \<and>
    unat (poll_from rescan lastBlock) =
      (if 0 < rescan \<and> rescan \<le> lastBlock then unat lastBlock - unat rescan + 1 else unat lastBlock + 1) \<and>
    1 \<le> poll_from rescan lastBlock \<and> poll_from rescan lastBlock \<le> safeHead"
proof -
  note from_unat = poll_from_unat [OF assms(2), of rescan]
  have "unat lastBlock < unat safeHead" using assms(2) by (simp add: word_less_nat_alt)
  then show ?thesis
    using safe_head_unat [OF assms(1)] from_unat by (auto simp: word_le_nat_alt)
qed

theorem poll_window_witness: "unat (poll_from 12 20) = 9 \<and> poll_from 12 20 \<le> 29"
  using poll_window [of 30 1 29 20 12] by (simp add: compute_safe_head_def)

text \<open>
  C31: the block loop returns for every safe head below the largest block number, whatever the
  store and the chain answer; with the largest one as its bound, the loop variable wraps and
  the loop never returns unless a block fails.
\<close>

theorem poll_loop_returns_below_limit:
  "(to < - 1 \<longrightarrow> (\<exists>r. poll_loop uc E RP C now logs to block lastBlock s = Some r)) \<and>
   ((\<forall>b u. \<exists>v. poll_block uc E RP C now logs b u = (v, Inr ())) \<longrightarrow>
      poll_loop uc E RP C now logs (- 1) block lastBlock s = None)"
proof (intro conjI impI)
  assume "to < - 1"
  then show "\<exists>r. poll_loop uc E RP C now logs to block lastBlock s = Some r" by (rule poll_loop_returns)
next
  assume ok: "\<forall>b u. \<exists>v. poll_block uc E RP C now logs b u = (v, Inr ())"
  show "poll_loop uc E RP C now logs (- 1) block lastBlock s = None"
  proof (rule ccontr)
    assume "poll_loop uc E RP C now logs (- 1) block lastBlock s \<noteq> None"
    then obtain l t r where ret: "poll_loop uc E RP C now logs (- 1) block lastBlock s = Some ((l, t), r)" by auto
    show False
    proof (rule poll_loop_invariant [OF ret, where I = "\<lambda>_ _ _. True" and Q = "\<lambda>_ _. False"])
      fix b u v e
      show "False" if "poll_block uc E RP C now logs b u = (v, Inl e)"
        using ok that by (metis prod.inject sum.distinct(1))
    qed auto
  qed
qed

theorem poll_loop_returns_below_limit_witness:
  "(\<exists>r. poll_loop plain_case sample_eth noop_repo sample_chain 0 [] 5 1 0 () = Some r) \<and>
   poll_loop plain_case sample_eth noop_repo sample_chain 0 [] (- 1) 1 0 () = None"
proof -
  have "poll_block plain_case sample_eth noop_repo sample_chain 0 [] b () = ((), Inr ())" for b
    by (simp add: poll_block_def noop_repo_def Let_def sample_chain_def)
  then show ?thesis
    using poll_loop_returns_below_limit [of 5 plain_case sample_eth noop_repo sample_chain 0 "[]" 1 0 "()"]
      poll_loop_returns_below_limit [of 0 plain_case sample_eth noop_repo sample_chain 0 "[]" 1 0 "()"]
    by auto
qed

text \<open>
  No execution is missed: run the watcher on a store whose cursor is honest, against a
  chain whose log filter omits none of the hook's events, over any number of polls, of which
  any may fail anywhere, in the chain client or in the database; then the cursor is honest
  again: every execution event after the configured start and up to the cursor is a row of
  \<open>chain_executions\<close>. As the cursor is where a new process starts, this covers restarts.
\<close>

theorem no_execution_missed:
  assumes "db_ok s" and "B = (if 0 < watcher_start_block c then of_int (watcher_start_block c - 1) else 0)"
    and "\<And>n. db_cursor s = Some n \<Longrightarrow> covered (\<lambda>lg. db_recorded s (log_key uc E lg)) L B n"
    and "\<forall>v \<in> set vs. serves L (snd v)"
    and "watcher_run uc E (pg_repo P) c dial vs s = Some t"
    and "db_cursor t = Some n"
  shows "covered (\<lambda>lg. db_recorded t (log_key uc E lg)) L B n"
proof -
  have "pgw.sound uc E L B s" using assms(1,3) by (simp add: pgw.sound_def)
  from pgw.run_sound [OF this assms(2,4,5)] show ?thesis using assms(6) by (simp add: pgw.sound_def)
qed

abbreviation sample_event :: chain_execution where
  "sample_event \<equiv> execution_of plain_case sample_eth sample_log"

lemma sample_spends: "ce_frame_spend sample_event = show_int 0" "ce_total_spend_after sample_event = show_int 0"
  by (simp_all add: execution_of_def event_amounts_def sample_log_def slice_def set_bytes_def foldl_conv_fold)
    (simp_all add: numeral_eq_Suc)

text \<open>One block of the sample chain, one poll and one run, on any repository.\<close>

lemma sample_head:
  "compute_safe_head 2 (of_int (watcher_confirmation sample_config)) = (1, True)"
  "poll_from (of_int (watcher_rescan_blocks sample_config)) 0 = 1"
  by (simp_all add: compute_safe_head_def poll_from_def sample_config_def)

lemma sample_poll_on:
  assumes "rp_record_chain_execution RP 0 sample_event s = (u, Inr ())"
    and "rp_set_watcher_block_cursor RP 1 ''h'' u = (v, Inr ())"
  shows "poll plain_case sample_eth RP sample_config sample_chain 0 (0, s) = Some ((1, v), Inr ())"
proof -
  have log: "lg_block sample_log = 1" "length (lg_topics sample_log) = 4" by (simp_all add: sample_log_def)
  have block: "poll_block plain_case sample_eth RP sample_chain 0 [sample_log] 1 s = (v, Inr ())"
    using assms log by (simp add: poll_block_def ingest_log_def sample_chain_def)
  have two: "\<not> (2 :: u64) \<le> 1" by (simp add: word_le_nat_alt)
  have "poll_loop plain_case sample_eth RP sample_chain 0 [sample_log] 1 1 0 s = Some ((1, v), Inr ())"
    using block two by (simp add: poll_loop.simps)
  then show ?thesis using sample_head by (simp add: poll_def sample_chain_def sample_log_def)
qed

lemma sample_watch_on:
  assumes "rp_get_watcher_block_cursor RP s = (s1, Inl e)"
    and "fst (rp_mark_stale_user_ops RP 0 (stale_cutoff sample_config 0) s1) = s2"
    and "rp_record_chain_execution RP 0 sample_event s2 = (u, Inr ())"
    and "rp_set_watcher_block_cursor RP 1 ''h'' u = (v, Inr ())"
  shows "watcher_run plain_case sample_eth RP sample_config True [(0, sample_chain)] s = Some v"
proof -
  have "start_block RP sample_config s = (0, s1)" using assms(1) by (simp add: start_block_def sample_config_def)
  moreover have "tick plain_case sample_eth RP sample_config sample_chain 0 (0, s1) = Some ((1, v), Inr ())"
    using sample_poll_on [OF assms(3,4)] assms(2) by (simp add: tick_def split_beta)
  ultimately show ?thesis
    by (simp add: watcher_run_def sample_config_def [THEN arg_cong [where f = hook_address]]
        sample_config_def [THEN arg_cong [where f = rpc_url]])
qed

text \<open>On a database without executions or a cursor, whatever else is in it.\<close>

lemma sample_records:
  assumes "db_faults s = []" "chain_executions s = []" "budget_reservations s = []"
  obtains u where "record_chain_execution sample_pg 0 sample_event s = (u, Inr ())" "db_faults u = []"
    "watcher_state u = watcher_state s"
proof -
  have "numeric_in sample_pg (show_int 0) = Some (show_int 0)"
    using sample_pg_sound by (simp add: pg_sound_def)
  then have "\<exists>u. record_chain_execution sample_pg 0 sample_event s = (u, Inr ()) \<and> db_faults u = [] \<and>
      watcher_state u = watcher_state s"
    using assms by (simp add: record_chain_execution_def sql_bind_def stmt_healthy sample_spends
        commit_budget_on_chain_execution_def commit_candidates_def)
  then show thesis using that by blast
qed

lemma sample_sets_cursor:
  assumes "db_faults u = []"
  obtains v where "set_watcher_block_cursor 1 ''h'' u = (v, Inr ())" "db_cursor v = Some 1"
proof -
  have "scan_u64 (show_nat (Suc 0)) = Inr 1" using scan_show [of 1] by simp
  then show thesis
    using that assms by (simp add: set_watcher_block_cursor_def sql_bind_def stmt_healthy db_cursor_def)
qed

lemma sample_idle:
  "db_faults s = [] \<Longrightarrow> userop_lifecycle s = [] \<Longrightarrow> fst (mark_stale_user_ops now since s) = s"
  by (simp add: mark_stale_user_ops_def stmt_healthy split_beta)

lemma no_cursor:
  "db_faults s = [] \<Longrightarrow> watcher_state s = Map.empty \<Longrightarrow>
     get_watcher_block_cursor s = (s, Inl (Err ''no rows in result set''))"
  by (simp add: get_watcher_block_cursor_def sql_bind_def query_row_healthy)

lemma empty_tables:
  "db_faults empty_db = []" "watcher_state empty_db = Map.empty" "userop_lifecycle empty_db = []"
  "chain_executions empty_db = []" "budget_reservations empty_db = []" "policy_decisions empty_db = []"
  by (simp_all add: empty_db_def)

lemma sample_poll:
  obtains u where "poll plain_case sample_eth (pg_repo sample_pg) sample_config sample_chain 0 (0, empty_db) = Some ((1, u), Inr ())"
    "db_cursor u = Some 1"
proof -
  obtain u where u: "record_chain_execution sample_pg 0 sample_event empty_db = (u, Inr ())" "db_faults u = []"
    by (rule sample_records [OF empty_tables(1,4,5)])
  obtain v where v: "set_watcher_block_cursor 1 ''h'' u = (v, Inr ())" "db_cursor v = Some 1"
    by (rule sample_sets_cursor [OF u(2)])
  show thesis
    by (rule that [OF sample_poll_on v(2)]) (use u(1) v(1) in simp_all)
qed

lemma sample_watch:
  obtains t where "watcher_run plain_case sample_eth (pg_repo sample_pg) sample_config True [(0, sample_chain)] empty_db = Some t"
    "db_cursor t = Some 1"
proof -
  obtain u where u: "record_chain_execution sample_pg 0 sample_event empty_db = (u, Inr ())" "db_faults u = []"
    by (rule sample_records [OF empty_tables(1,4,5)])
  obtain v where v: "set_watcher_block_cursor 1 ''h'' u = (v, Inr ())" "db_cursor v = Some 1"
    by (rule sample_sets_cursor [OF u(2)])
  show thesis
    by (rule that [OF sample_watch_on v(2)])
      (use u(1) v(1) no_cursor [of empty_db] sample_idle [of empty_db] in \<open>simp_all add: empty_tables\<close>)
qed

theorem no_execution_missed_witness:
  "\<exists>t. watcher_run plain_case sample_eth (pg_repo sample_pg) sample_config True [(0, sample_chain)] empty_db = Some t \<and>
     db_recorded t (log_key plain_case sample_eth sample_log)"
proof -
  obtain t where t: "watcher_run plain_case sample_eth (pg_repo sample_pg) sample_config True [(0, sample_chain)] empty_db = Some t"
    "db_cursor t = Some 1" using sample_watch by blast
  have "covered (\<lambda>lg. db_recorded t (log_key plain_case sample_eth lg)) [sample_log] 0 1"
    by (rule no_execution_missed [OF _ _ _ _ t])
      (simp_all add: sample_config_def sample_serves db_ok_def empty_db_def decisions_ok_def db_cursor_def)
  then show ?thesis using t(1) by (auto simp: covered_def sample_log_def)
qed

text \<open>
  C24: a poll that succeeds with something to do has caught up: the block in memory and the
  cursor in the database are the safe head, and with an honest start every execution event up
  to it is recorded.
\<close>

theorem successful_poll_catches_up:
  assumes "db_ok s" and "\<And>n. db_cursor s = Some n \<Longrightarrow> covered (\<lambda>lg. db_recorded s (log_key uc E lg)) L B n"
    and "covered (\<lambda>lg. db_recorded s (log_key uc E lg)) L B lastBlock" and "serves L C"
    and "ch_block_number C = Inr head"
    and "compute_safe_head head (of_int (watcher_confirmation c)) = (safeHead, True)" and "lastBlock < safeHead"
    and "poll uc E (pg_repo P) c C now (lastBlock, s) = Some ((l, t), Inr ())"
  shows "l = safeHead \<and> db_cursor t = Some safeHead \<and>
    covered (\<lambda>lg. db_recorded t (log_key uc E lg)) L B safeHead"
proof -
  let ?from = "poll_from (of_int (watcher_rescan_blocks c)) lastBlock"
  have behind: "\<not> safeHead \<le> lastBlock" using assms(7) by simp
  obtain logs where loop: "poll_loop uc E (pg_repo P) C now logs safeHead ?from lastBlock s = Some ((l, t), Inr ())"
    using assms(5,6,8) behind by (auto simp: poll_def Let_def split: sum.splits)
  have "?from \<le> safeHead"
    using poll_from_unat [OF assms(7)] assms(7) by (auto simp: word_le_nat_alt word_less_nat_alt split: if_splits)
  then have caught: "l = safeHead" "db_cursor t = Some safeHead"
    using pgw.loop_reaches [OF loop _ assms(1)] by simp_all
  have "pgw.sound_at uc E L B (lastBlock, s)"
    using assms(1-3) by (simp add: pgw.sound_at_def pgw.sound_def)
  then have "pgw.sound_at uc E L B (l, t)" by (rule pgw.poll_sound [OF _ assms(4,8)])
  then show ?thesis using caught by (simp add: pgw.sound_at_def)
qed

theorem successful_poll_catches_up_witness:
  "\<exists>u. poll plain_case sample_eth (pg_repo sample_pg) sample_config sample_chain 0 (0, empty_db) = Some ((1, u), Inr ()) \<and>
     db_recorded u (log_key plain_case sample_eth sample_log)"
proof -
  obtain u where u: "poll plain_case sample_eth (pg_repo sample_pg) sample_config sample_chain 0 (0, empty_db) = Some ((1, u), Inr ())"
    using sample_poll by blast
  have "covered (\<lambda>lg. db_recorded u (log_key plain_case sample_eth lg)) [sample_log] 0 1"
    using successful_poll_catches_up [OF _ _ covered_self sample_serves _ _ _ u, of 2 1]
    by (simp add: sample_chain_def sample_head db_ok_def empty_db_def decisions_ok_def db_cursor_def)
  then show ?thesis using u by (auto simp: covered_def sample_log_def)
qed

text \<open>
  C33: an event the store cannot take stops the watcher: a log of four topics with fewer than
  two data words is recorded with empty amounts, which are no NUMERIC, so every poll whose
  window holds it fails, at every attempt, and never moves past its block.
\<close>

theorem short_event_stops_watcher:
  assumes "pg_sound P" and "4 \<le> length (lg_topics lg)" and "length (lg_data lg) < 64"
    and "lg \<in> set logs" and "from \<le> lg_block lg" and "lg_block lg \<le> to" and "lastBlock < lg_block lg"
    and "poll_loop uc E (pg_repo P) C now logs to from lastBlock s = Some ((l, t), r)"
  shows "r \<noteq> Inr () \<and> l < lg_block lg"
proof -
  have spend: "ce_frame_spend (execution_of uc E lg) = ''''"
    using assms(3) by (simp add: execution_of_def event_amounts_def)
  have rec: "snd (record_chain_execution P now (execution_of uc E lg) u) \<noteq> Inr ()" for u
    using assms(1) spend by (simp add: record_chain_execution_def sql_bind_def stmt_def pg_sound_def Let_def split: fault.split)
  have ingest: "snd (ingest_logs uc E (pg_repo P) now lgs u) \<noteq> Inr ()" if "lg \<in> set lgs" for lgs u
    using that
  proof (induction lgs arbitrary: u)
    case (Cons x lgs)
    have "snd (ingest_log uc E (pg_repo P) now lg u) \<noteq> Inr ()"
      using rec assms(2) by (simp add: ingest_log_def)
    then show ?case using Cons by (auto split: prod.split sum.split)
  qed simp
  have stuck: "snd (poll_block uc E (pg_repo P) C now logs (lg_block lg) u) \<noteq> Inr ()" for u
    using ingest [of "filter (\<lambda>x. lg_block x = lg_block lg) logs" u] assms(4)
    by (auto simp: poll_block_def split: prod.split sum.split)
  let ?Q = "\<lambda>st (r :: unit res). r \<noteq> Inr () \<and> fst st < lg_block lg"
  have "?Q (l, t) r"
  proof (rule poll_loop_invariant [OF assms(8), where I = "\<lambda>b k u. b \<le> lg_block lg \<and> k < lg_block lg" and Q = ?Q])
    show "from \<le> lg_block lg \<and> lastBlock < lg_block lg" using assms(5,7) by simp
    fix b k u v
    assume I: "b \<le> lg_block lg \<and> k < lg_block lg"
    show "b + 1 \<le> lg_block lg \<and> b < lg_block lg" if "poll_block uc E (pg_repo P) C now logs b u = (v, Inr ())"
    proof -
      have "b \<noteq> lg_block lg" using stuck [of u] that by auto
      then have "b < lg_block lg" using I order_le_neq_trans by blast
      then show ?thesis using inc_le by simp
    qed
    show "?Q (k, v) (Inl e)" for e using I by simp
    show "?Q (k, u) (Inr ())" if "\<not> b \<le> to" using I that assms(6) by auto
  qed
  then show ?thesis by simp
qed

theorem short_event_stops_watcher_witness:
  "\<exists>l t r. poll_loop plain_case sample_eth (pg_repo sample_pg) sample_chain 0 [sample_log\<lparr>lg_data := []\<rparr>] 9 1 0 empty_db
     = Some ((l, t), r) \<and> r \<noteq> Inr () \<and> l < 1"
proof -
  let ?lg = "sample_log\<lparr>lg_data := []\<rparr>"
  obtain l t r where ret: "poll_loop plain_case sample_eth (pg_repo sample_pg) sample_chain 0 [?lg] 9 1 0 empty_db = Some ((l, t), r)"
    using poll_loop_returns [of 9 plain_case sample_eth "pg_repo sample_pg" sample_chain 0 "[?lg]" 1 0 empty_db] by auto
  have "r \<noteq> Inr () \<and> l < lg_block ?lg"
    by (rule short_event_stops_watcher [OF sample_pg_sound _ _ _ _ _ _ ret])
      (simp_all add: sample_log_def word_le_nat_alt)
  then show ?thesis using ret by (auto simp: sample_log_def)
qed

section \<open>Stale operations\<close>

lemma sint_wraps: "sint (of_int x :: 64 word) = signed_take_bit 63 x"
  by (simp add: signed_of_int)

lemma sint_of_int_64: "sint (of_int x :: 64 word) = x \<longleftrightarrow> - (2 ^ 63) \<le> x \<and> x < 2 ^ 63"
  unfolding sint_wraps by (simp add: signed_take_bit_int_eq_self_iff)

text \<open>
  C35: The cutoff is exact for \<open>USEROP_STALE_SECONDS\<close> up to 9223372036, some 292 years; with any
  larger setting the duration wraps around and the cutoff is another one, with the next one a
  cutoff in the future, which makes every submitted operation stale at once.
\<close>

theorem stale_cutoff_exact_iff:
  "(stale_cutoff c now = now - stale_seconds c * second \<longleftrightarrow> stale_seconds c \<le> 9223372036) \<and>
   now < stale_cutoff (c\<lparr>userop_stale_seconds := 9223372037\<rparr>) now"
proof
  have "0 < stale_seconds c" by (simp add: stale_seconds_def)
  then show "stale_cutoff c now = now - stale_seconds c * second \<longleftrightarrow> stale_seconds c \<le> 9223372036"
    using sint_of_int_64 [of "- stale_seconds c * second"] by (auto simp: stale_cutoff_def second_def)
  have "0 < signed_take_bit 63 (- 9223372037 * second)" by (simp add: second_def)
  then show "now < stale_cutoff (c\<lparr>userop_stale_seconds := 9223372037\<rparr>) now"
    unfolding stale_cutoff_def sint_wraps by (simp add: stale_seconds_def)
qed

end
