(* ===== verification/Interleaving_Props.thy ===== *)
theory Interleaving_Props
  imports Interleaving Server_Props Watcher_Props
begin

text \<open>
  What holds when requests overlap and the watcher works beside them: two registrations on
  one decision agree whichever of their calls come first, and the watcher misses nothing.
\<close>

section \<open>Registrations that overlap\<close>

text \<open>A registration answered 200 while others use the store.\<close>

lemma register_in_use:
  assumes "db_ok s" and "others_use (pg_repo P) env"
    and "register_session uc E (interleaved (pg_repo P)) V (Some req) ((s, env), w) = (((t, rest), w'), resp)"
    and "ok_response resp"
  obtains h ph intent sid where "db_ok t" "db_allowed t (rq_decision_id req) = Some (h, ph, intent)"
    "derive_session_id E (session_of V req ph intent) = Done sid"
    "db_consumer t (rq_decision_id req) = Some (hash_hex E sid)"
proof -
  obtain h ph intent st sid where a:
    "rp_get_allow_decision (interleaved (pg_repo P)) (rq_decision_id req) (s, env) = (st, Inr (h, ph, intent))"
    "derive_session_id E (session_of V req ph intent) = Done sid"
    "rp_authorize_session (interleaved (pg_repo P)) (rq_decision_id req) (hash_hex E sid) (is_agent_id intent)
       (session_of V req ph intent) st = ((t, rest), Inr ())"
    using register_ok [OF assms(3,4)] by metis
  have 0: "db_ok (fst (s, env)) \<and> others_use (pg_repo P) (snd (s, env))" using assms(1,2) by simp
  have 1: "db_ok (fst st) \<and> others_use (pg_repo P) (snd st)"
    using pgs.step_ok [OF 0 st_get_allow] a(1) by (metis fst_conv)
  have step: "repo_step (interleaved (pg_repo P)) st (t, rest)"
    using st_authorize [of "interleaved (pg_repo P)" st] a(3) by (metis fst_conv)
  have "db_ok t" using pgs.step_ok [OF 1 step] by simp
  moreover have "db_allowed t (rq_decision_id req) = Some (h, ph, intent)"
    using pgs.step_allowed [OF 1 step] pgs.get_allow_law [OF 0 a(1)] by simp
  moreover have "db_consumer t (rq_decision_id req) = Some (hash_hex E sid)"
    using pgs.authorize_law [OF 1 a(3)] by simp
  ultimately show thesis using that a(2) by blast
qed

text \<open>
  C6: one decision, one session, however requests overlap: take two registrations on one
  decision that are both answered 200, with any calls of any other requests, of the watcher
  and of each other between any two of their calls on the store. If they end on one history
  of the store, in whichever order, they are of one session: the two configurations have the
  same identifier, which is the one that consumed the decision.
\<close>

theorem overlapping_registrations_agree:
  assumes "db_ok s" and "others_use (pg_repo P) env"
    and "register_session uc E (interleaved (pg_repo P)) V (Some req) ((s, env), w) = (((t, rest), w'), resp)"
    and "ok_response resp"
    and "db_ok s'" and "others_use (pg_repo P) env'"
    and "register_session uc E (interleaved (pg_repo P)) V (Some req') ((s', env'), v) = (((t', rest'), v'), resp')"
    and "ok_response resp'"
    and "repo_run (pg_repo P) t t'" and "rq_decision_id req' = rq_decision_id req" and "inj (hash_hex E)"
  shows "\<exists>h ph intent sid. db_allowed t (rq_decision_id req) = Some (h, ph, intent) \<and>
    derive_session_id E (session_of V req ph intent) = Done sid \<and>
    derive_session_id E (session_of V req' ph intent) = Done sid \<and>
    db_consumer t' (rq_decision_id req) = Some (hash_hex E sid)"
proof -
  obtain h ph intent sid where a: "db_ok t" "db_allowed t (rq_decision_id req) = Some (h, ph, intent)"
    "derive_session_id E (session_of V req ph intent) = Done sid"
    "db_consumer t (rq_decision_id req) = Some (hash_hex E sid)"
    using assms(1-4) by (rule register_in_use)
  obtain h' ph' intent' sid' where b: "db_allowed t' (rq_decision_id req') = Some (h', ph', intent')"
    "derive_session_id E (session_of V req' ph' intent') = Done sid'"
    "db_consumer t' (rq_decision_id req') = Some (hash_hex E sid')"
    using assms(5-8) by (rule register_in_use)
  have "ph' = ph" "intent' = intent"
    using pg.run_allowed [OF assms(9) a(1,2)] b(1) assms(10) by simp_all
  moreover have "sid' = sid"
    using pg.run_consumer [OF assms(9) a(1,4)] b(3) assms(10,11) by (simp add: inj_eq)
  ultimately show ?thesis using a b assms(10) by metis
qed

text \<open>Two clients register on one decision; the second comes between the calls of the first.\<close>

theorem overlapping_registrations_agree_witness:
  "\<exists>env sid t. env \<noteq> [] \<and>
     ok_response (snd (register_session plain_case sample_eth (interleaved (pg_repo sample_pg)) sample_server
       (Some sample_register) ((deploy_db, env), ()))) \<and>
     db_consumer t ''d'' = Some sid"
proof -
  obtain sid t r where *: "derive_session_id sample_eth deploy_session = Done sid"
    "authorize_session sample_pg ''d'' sid ''a'' deploy_session deploy_db = (t, Inr ())"
    "db_faults t = []" "payment_intents t = [stored_intent]" "decision_of ''d'' t = Some r"
    "dr_decision r = ''ALLOW''" "dr_intent_hash r = ''h''" "dr_policy_hash r = sample_policy_hash"
    "dr_consumed_at r \<noteq> None" "dr_consumed_session r = Some sid"
    using deploy_authorizes by blast
  let ?RP = "interleaved (pg_repo sample_pg)"
  let ?body = "Some sample_register"
  let ?other = "\<lambda>s. fst (fst (register_session plain_case sample_eth (pg_repo sample_pg) sample_server ?body (s, ())))"
  let ?env = "[\<lambda>s. s, ?other]"
  have use: "others_use (pg_repo sample_pg) ?env" by (simp add: rr_refl register_run)
  obtain resp0 where "register_session plain_case sample_eth (pg_repo sample_pg) sample_server ?body (deploy_db, ()) = ((t, ()), resp0)"
    using deploy_registers [OF deploy_allows *(1,2), where w = "()"] by blast
  then have other: "?other deploy_db = t" by simp
  have again: "authorize_session sample_pg ''d'' sid ''a'' deploy_session t = (t, Inr ())"
    using * by (simp add: authorize_healthy)
  obtain resp where 1: "register_session plain_case sample_eth ?RP sample_server ?body ((deploy_db, ?env), ()) = (((t, []), ()), resp)"
      "ok_response resp"
    using deploy_registers_on [of ?RP "(deploy_db, ?env)" "(deploy_db, [?other])" sid "(t, [])" "()"]
      deploy_allows *(1) again other by (auto simp: interrupted_def)
  obtain resp' where 2: "register_session plain_case sample_eth ?RP sample_server ?body ((deploy_db, []), ()) = (((t, []), ()), resp')"
      "ok_response resp'"
    using deploy_registers_on [of ?RP "(deploy_db, [])" "(deploy_db, [])" sid "(t, [])" "()"]
      deploy_allows *(1,2) by (auto simp: interrupted_def)
  have "inj (hash_hex sample_eth)" by (simp add: sample_eth_def inj_def)
  from overlapping_registrations_agree [OF deploy_db_ok(1) use 1 deploy_db_ok(1) _ 2 rr_refl refl this]
  have "\<exists>sid. db_consumer t ''d'' = Some sid" by (auto simp: sample_register_def)
  then show ?thesis using 1 by (metis list.distinct(1) snd_conv)
qed

section \<open>The watcher beside the handlers\<close>

text \<open>
  C3: the watcher misses nothing while requests are served: run it on a store whose cursor is
  honest, against a chain whose log filter omits none of the hook's events, with any calls of
  any requests between any two of its own calls; then the cursor is honest again: every
  execution event after the configured start and up to the cursor is recorded.
\<close>

theorem no_execution_missed_in_use:
  assumes "db_ok s" and "others_use (frozen (pg_repo P)) env"
    and "B = (if 0 < watcher_start_block c then of_int (watcher_start_block c - 1) else 0)"
    and "\<And>n. db_cursor s = Some n \<Longrightarrow> covered (\<lambda>lg. db_recorded s (log_key uc E lg)) L B n"
    and "\<forall>v \<in> set vs. serves L (snd v)"
    and "watcher_run uc E (interleaved (pg_repo P)) c dial vs (s, env) = Some (t, rest)"
    and "db_cursor t = Some n"
  shows "covered (\<lambda>lg. db_recorded t (log_key uc E lg)) L B n"
proof -
  have "pgws.sound P uc E L B (s, env)" using assms(1,2,4) by (simp add: pgws.sound_def)
  from pgws.run_sound [OF this assms(3,5,6)] show ?thesis using assms(7) by (simp add: pgws.sound_def)
qed

text \<open>While the sample chain is polled, another request records a decision.\<close>

theorem no_execution_missed_in_use_witness:
  "\<exists>g t rest. g empty_db \<noteq> empty_db \<and>
     watcher_run plain_case sample_eth (interleaved (pg_repo sample_pg)) sample_config True [(0, sample_chain)]
       (empty_db, [\<lambda>s. s, \<lambda>s. s, g]) = Some (t, rest) \<and>
     db_recorded t (log_key plain_case sample_eth sample_log)"
proof -
  let ?RP = "interleaved (pg_repo sample_pg)"
  let ?g = "\<lambda>s. fst (save_decision ''d'' ''h'' ''BLOCK'' None ''p'' s)"
  let ?env = "[\<lambda>s. s, \<lambda>s. s, ?g]"
  have "repo_run (frozen (pg_repo sample_pg)) s (?g s)" for s
    using repo_run_step [OF st_save_decision [of "frozen (pg_repo sample_pg)" s "''d''" "''h''" "''BLOCK''" None "''p''"]]
    by (simp add: frozen_fields)
  then have use: "others_use (frozen (pg_repo sample_pg)) ?env" by (simp add: rr_refl)
  define s where "s = ?g empty_db"
  have s: "db_faults s = []" "chain_executions s = []" "budget_reservations s = []" "policy_decisions s \<noteq> []"
    by (simp_all add: s_def save_decision_def stmt_healthy empty_tables)
  obtain u where u: "record_chain_execution sample_pg 0 sample_event s = (u, Inr ())" "db_faults u = []"
    by (rule sample_records [OF s(1-3)])
  obtain v where v: "set_watcher_block_cursor 1 ''h'' u = (v, Inr ())" "db_cursor v = Some 1"
    by (rule sample_sets_cursor [OF u(2)])
  have run: "watcher_run plain_case sample_eth ?RP sample_config True [(0, sample_chain)] (empty_db, ?env) = Some (v, [])"
    by (rule sample_watch_on [where ?s1.0 = "(empty_db, [\<lambda>s. s, ?g])" and ?s2.0 = "(empty_db, [?g])" and u = "(u, [])"])
      (use u(1) v(1) in \<open>simp_all add: interrupted_def no_cursor sample_idle empty_tables s_def split_beta\<close>)
  have "covered (\<lambda>lg. db_recorded v (log_key plain_case sample_eth lg)) [sample_log] 0 1"
    by (rule no_execution_missed_in_use [OF _ use _ _ _ run v(2)])
      (simp_all add: sample_config_def sample_serves db_ok_def empty_db_def decisions_ok_def db_cursor_def)
  moreover have "?g empty_db \<noteq> empty_db" using s(4) empty_tables(6) unfolding s_def by metis
  ultimately show ?thesis using run by (auto simp: covered_def sample_log_def)
qed

end
